(* ===== verification/Prelude.thy ===== *)
theory Prelude
  imports Main "HOL-Library.Word" "HOL-Library.Sublist"
begin

text \<open>
  Shared vocabulary of the development: the parts of the C and C++ standard libraries that
  the judge core uses on strings and integers, and the lemmas the components share.

  \<^item> C strings: a char buffer is the list of its bytes before the terminating NUL;
    \<open>c_str\<close> cuts a C++ string there, \<open>strncpy_z n\<close> is \<open>strncpy\<close> into a
    zeroed buffer of \<open>n + 1\<close> bytes, \<open>strrchr\<close> finds the last occurrence.
  \<^item> Decimal printing (\<open>std::to_string\<close>, \<open>operator<<\<close>) and parsing
    (\<open>std::stoi\<close>, \<open>std::stoll\<close>, \<open>std::stoull\<close>, \<open>istream >> int\<close>).
  \<^item> C integer conversions and truncated division.
  \<^item> The interface \<open>codec\<close> of a printer and a parser that invert each other.
\<close>

named_theorems c_string_simps \<open>C string functions\<close>

lemma find_SomeD: "find P xs = Some x \<Longrightarrow> x \<in> set xs \<and> P x"
  by (auto simp: find_Some_iff)

lemma subseq_in_middle: "subseq xs ys \<Longrightarrow> subseq xs (as @ ys @ bs)"
  by (rule list_emb_append2, rule list_emb_prefix)

lemma subseq_two_parts:
  "subseq xs ys \<Longrightarrow> subseq us vs \<Longrightarrow> subseq (xs @ us) (as @ ys @ bs @ vs)"
  by (rule list_emb_append2, rule list_emb_append_mono, assumption, rule list_emb_append2)

subsection \<open>Characters and C strings\<close>

abbreviation (input) NUL :: char where "NUL \<equiv> CHR 0x00"

abbreviation slash :: char where "slash \<equiv> CHR ''/''"

definition byte_of :: "char \<Rightarrow> nat" where
  "byte_of c = of_char c"

lemma byte_of_less [simp]: "byte_of c < 256"
  by (simp add: byte_of_def)

text \<open>\<open>isalnum\<close>, \<open>isdigit\<close> and \<open>isspace\<close> in the C locale.\<close>

definition isdigit :: "char \<Rightarrow> bool" where
  "isdigit c \<longleftrightarrow> 48 \<le> byte_of c \<and> byte_of c \<le> 57"

definition isalnum :: "char \<Rightarrow> bool" where
  "isalnum c \<longleftrightarrow> isdigit c \<or> 65 \<le> byte_of c \<and> byte_of c \<le> 90
     \<or> 97 \<le> byte_of c \<and> byte_of c \<le> 122"

definition isspace :: "char \<Rightarrow> bool" where
  "isspace c \<longleftrightarrow> byte_of c = 32 \<or> 9 \<le> byte_of c \<and> byte_of c \<le> 13"

text \<open>The UTF-8 bytes of a literal that is not ASCII.\<close>

definition bytes :: "nat list \<Rightarrow> string" where
  "bytes ns = map char_of ns"

definition c_str :: "string \<Rightarrow> string" where
  "c_str s = takeWhile (\<lambda>c. c \<noteq> NUL) s"

lemma c_str_no_NUL: "NUL \<notin> set (c_str s)"
  by (auto simp: c_str_def dest: set_takeWhileD)

lemma c_str_id: "NUL \<notin> set s \<Longrightarrow> c_str s = s"
  by (auto simp: c_str_def takeWhile_eq_all_conv)

definition strncpy_z :: "nat \<Rightarrow> string \<Rightarrow> string" where
  "strncpy_z n s = take n (c_str s)"

lemma strncpy_z_length [simp]: "length (strncpy_z n s) \<le> n"
  by (simp add: strncpy_z_def)

lemma strncpy_z_no_NUL: "NUL \<notin> set (strncpy_z n s)"
  using c_str_no_NUL [of s] by (auto simp: strncpy_z_def dest: in_set_takeD)

lemma strncpy_z_id: "NUL \<notin> set s \<Longrightarrow> length s \<le> n \<Longrightarrow> strncpy_z n s = s"
  by (simp add: strncpy_z_def c_str_id)

text \<open>
  \<open>strrchr s c\<close>: what stands before and after the last \<open>c\<close>, or nothing when \<open>c\<close>
  does not occur.
\<close>

fun strrchr :: "string \<Rightarrow> char \<Rightarrow> (string \<times> string) option" where
  "strrchr [] c = None"
| "strrchr (x # xs) c =
     (case strrchr xs c of
        Some (a, b) \<Rightarrow> Some (x # a, b)
      | None \<Rightarrow> if x = c then Some ([], xs) else None)"

lemma strrchr_None_iff: "strrchr s c = None \<longleftrightarrow> c \<notin> set s"
  by (induction s) (auto split: option.splits)

lemma strrchr_Some:
  "strrchr s c = Some (a, b) \<Longrightarrow> s = a @ c # b \<and> c \<notin> set b"
proof (induction s arbitrary: a)
  case Nil
  then show ?case by simp
next
  case (Cons x xs)
  show ?case
  proof (cases "strrchr xs c")
    case None
    with Cons.prems show ?thesis
      using strrchr_None_iff [of xs c] by (auto split: if_splits)
  next
    case (Some p)
    with Cons show ?thesis by (cases p) auto
  qed
qed

lemma strrchr_append: "c \<notin> set b \<Longrightarrow> strrchr (a @ c # b) c = Some (a, b)"
  by (induction a) (simp_all add: strrchr_None_iff [THEN iffD2])

lemma strrchr_append_other:
  "strrchr b c = Some (p, q) \<Longrightarrow> strrchr (a @ b) c = Some (a @ p, q)"
  by (induction a) simp_all

text \<open>\<open>snprintf\<close> into a buffer of \<open>n\<close> bytes keeps at most \<open>n - 1\<close> of them.\<close>

definition snprintf_z :: "nat \<Rightarrow> string \<Rightarrow> string" where
  "snprintf_z n s = take (n - 1) s"

lemma snprintf_z_fits: "length s < n \<Longrightarrow> snprintf_z n s = s"
  by (simp add: snprintf_z_def)

subsection \<open>Decimal numbers\<close>

function dec_nat :: "nat \<Rightarrow> string" where
  "dec_nat n =
     (if n < 10 then [char_of (48 + n)] else dec_nat (n div 10) @ [char_of (48 + n mod 10)])"
  by pat_completeness auto
termination
  by (relation "measure id") auto

declare dec_nat.simps [simp del]

definition dec_int :: "int \<Rightarrow> string" where
  "dec_int i = (if i < 0 then CHR ''-'' # dec_nat (nat (- i)) else dec_nat (nat i))"

definition digit_val :: "char \<Rightarrow> nat" where
  "digit_val c = byte_of c - 48"

definition digits_val :: "nat \<Rightarrow> string \<Rightarrow> nat" where
  "digits_val acc s = foldl (\<lambda>a c. 10 * a + digit_val c) acc s"

lemma digit_char [simp]:
  assumes "d < 10"
  shows "isdigit (char_of (48 + d))" "digit_val (char_of (48 + d)) = d"
  using assms by (simp_all add: isdigit_def digit_val_def byte_of_def take_bit_eq_mod)

lemma dec_nat_nonempty [simp]: "dec_nat n \<noteq> []"
  by (subst dec_nat.simps) simp

lemma dec_nat_digits: "list_all isdigit (dec_nat n)"
proof (induction n rule: dec_nat.induct)
  case (1 n)
  show ?case
  proof (cases "n < 10")
    case True
    then show ?thesis by (simp add: dec_nat.simps [of n])
  next
    case False
    with 1 have "list_all isdigit (dec_nat (n div 10))" by simp
    then show ?thesis using False by (simp add: dec_nat.simps [of n])
  qed
qed

lemma digits_val_snoc [simp]: "digits_val a (s @ [c]) = 10 * digits_val a s + digit_val c"
  by (simp add: digits_val_def)

lemma digits_val_dec_nat: "digits_val 0 (dec_nat n) = n"
proof (induction n rule: dec_nat.induct)
  case (1 n)
  show ?case
  proof (cases "n < 10")
    case True
    then show ?thesis by (simp add: dec_nat.simps [of n] digits_val_def)
  next
    case False
    with 1 have "digits_val 0 (dec_nat (n div 10)) = n div 10" by simp
    then show ?thesis using False by (simp add: dec_nat.simps [of n])
  qed
qed

text \<open>
  \<open>strtol\<close>-style scanning in base 10: leading white space, an optional sign, the longest
  run of digits. The result is the sign, the magnitude and the rest of the input; nothing
  when there is no digit.
\<close>

definition scan_digits :: "string \<Rightarrow> (nat \<times> string) option" where
  "scan_digits s =
     (if takeWhile isdigit s = [] then None
      else Some (digits_val 0 (takeWhile isdigit s), dropWhile isdigit s))"

definition scan_sign :: "string \<Rightarrow> bool \<times> string" where
  "scan_sign s =
     (case s of
        [] \<Rightarrow> (False, [])
      | c # cs \<Rightarrow> if c = CHR ''-'' then (True, cs) else if c = CHR ''+'' then (False, cs)
                 else (False, c # cs))"

definition scan_int :: "string \<Rightarrow> (bool \<times> nat \<times> string) option" where
  "scan_int s =
     (case scan_sign (dropWhile isspace s) of
        (neg, r) \<Rightarrow> (case scan_digits r of None \<Rightarrow> None | Some (m, t) \<Rightarrow> Some (neg, m, t)))"

definition signed_val :: "bool \<Rightarrow> nat \<Rightarrow> int" where
  "signed_val neg m = (if neg then - int m else int m)"

text \<open>Exceptions the judge core can raise.\<close>

datatype exn =
    Invalid_Argument
  | Out_Of_Range
  | Runtime_Error string
  | Filesystem_Error
  | Yaml_Exception
  | Json_Exception

definition sto_signed :: "nat \<Rightarrow> string \<Rightarrow> exn + int" where
  "sto_signed w s =
     (case scan_int s of
        None \<Rightarrow> Inl Invalid_Argument
      | Some (neg, m, _) \<Rightarrow>
          (let v = signed_val neg m
           in if - (2 ^ (w - 1)) \<le> v \<and> v < 2 ^ (w - 1) then Inr v else Inl Out_Of_Range))"

definition stoi :: "string \<Rightarrow> exn + int" where
  "stoi s = sto_signed 32 s"

definition stoll :: "string \<Rightarrow> exn + int" where
  "stoll s = sto_signed 64 s"

text \<open>\<open>std::stoull\<close>: the magnitude must fit, and a minus sign negates modulo \<open>2^64\<close>.\<close>

definition stoull :: "string \<Rightarrow> exn + 64 word" where
  "stoull s =
     (case scan_int s of
        None \<Rightarrow> Inl Invalid_Argument
      | Some (neg, m, _) \<Rightarrow>
          if m < 2 ^ 64 then Inr (word_of_int (signed_val neg m)) else Inl Out_Of_Range)"

lemma isdigit_not_special [simp]:
  assumes "isdigit c"
  shows "\<not> isspace c" "c \<noteq> CHR ''-''" "c \<noteq> CHR ''+''"
proof -
  show "\<not> isspace c"
    using assms by (auto simp: isdigit_def isspace_def)
  have "byte_of (CHR ''-'') = 45" "byte_of (CHR ''+'') = 43"
    by (simp_all add: byte_of_def)
  with assms show "c \<noteq> CHR ''-''" "c \<noteq> CHR ''+''"
    by (auto simp: isdigit_def)
qed

lemma scan_digits_all:
  assumes "list_all isdigit s" "s \<noteq> []" "t = [] \<or> \<not> isdigit (hd t)"
  shows "scan_digits (s @ t) = Some (digits_val 0 s, t)"
proof -
  have tw: "takeWhile isdigit (s @ t) = s"
    using assms by (cases t) (auto simp: list_all_iff takeWhile_append)
  then have "dropWhile isdigit (s @ t) = t"
    using takeWhile_dropWhile_id [of isdigit "s @ t"] by simp
  with tw assms(2) show ?thesis by (simp add: scan_digits_def)
qed

lemma scan_sign_digits:
  assumes "list_all isdigit s" "s \<noteq> []"
  shows "scan_sign (s @ t) = (False, s @ t)"
  using assms by (cases s) (auto simp: scan_sign_def)

lemma scan_int_dec_int:
  assumes "t = [] \<or> \<not> isdigit (hd t)"
  shows "scan_int (dec_int i @ t) = Some (i < 0, nat \<bar>i\<bar>, t)"
proof -
  have d: "list_all isdigit (dec_nat n)" "dec_nat n \<noteq> []" for n
    by (simp_all add: dec_nat_digits)
  have sp: "dropWhile isspace (dec_nat n @ t) = dec_nat n @ t" for n
    using d [of n] by (cases "dec_nat n") auto
  have mn: "dropWhile isspace (CHR ''-'' # s) = CHR ''-'' # s" for s
    by (simp add: isspace_def byte_of_def)
  show ?thesis
  proof (cases "i < 0")
    case True
    then show ?thesis
      using scan_digits_all [OF d assms, of "nat (- i)"]
      by (simp add: scan_int_def dec_int_def mn scan_sign_def digits_val_dec_nat del: dropWhile.simps)
  next
    case False
    then show ?thesis
      using scan_digits_all [OF d assms, of "nat i"]
      by (simp add: scan_int_def dec_int_def sp scan_sign_digits [OF d] digits_val_dec_nat)
  qed
qed

lemma sto_signed_dec_int:
  assumes "- (2 ^ (w - 1)) \<le> i" "i < 2 ^ (w - 1)"
  shows "sto_signed w (dec_int i) = Inr i"
  using scan_int_dec_int [of "[]" i] assms
  by (auto simp: sto_signed_def signed_val_def Let_def)

lemmas scan_eval =
  stoi_def stoll_def stoull_def sto_signed_def scan_int_def scan_sign_def scan_digits_def digits_val_def
  digit_val_def byte_of_def isdigit_def isspace_def signed_val_def

lemma scan_examples:
  "stoi ''10'' = Inr 10" "stoll '' -42x'' = Inr (-42)" "stoull ''65534'' = Inr 65534"
  "stoi ''x1'' = Inl Invalid_Argument" "stoi ''2147483648'' = Inl Out_Of_Range"
  by (simp_all add: scan_eval)

subsection \<open>Results that can be errors\<close>

definition ebind :: "'e + 'a \<Rightarrow> ('a \<Rightarrow> 'e + 'b) \<Rightarrow> 'e + 'b" where
  "ebind r f = (case r of Inl e \<Rightarrow> Inl e | Inr x \<Rightarrow> f x)"

lemma ebind_simps [simp]: "ebind (Inl e) f = Inl e" "ebind (Inr x) f = f x"
  by (simp_all add: ebind_def)

lemma ebind_Inr_iff: "ebind r f = Inr y \<longleftrightarrow> (\<exists>x. r = Inr x \<and> f x = Inr y)"
  by (cases r) auto

lemma ebind_InrE:
  assumes "ebind r f = Inr y"
  obtains x where "r = Inr x" "f x = Inr y"
  using assms by (auto simp: ebind_Inr_iff)

fun emap :: "('a \<Rightarrow> 'e + 'b) \<Rightarrow> 'a list \<Rightarrow> 'e + 'b list" where
  "emap f [] = Inr []"
| "emap f (x # xs) = ebind (f x) (\<lambda>y. ebind (emap f xs) (\<lambda>ys. Inr (y # ys)))"

lemma emap_Inr: "emap f xs = Inr ys \<Longrightarrow> list_all2 (\<lambda>x y. f x = Inr y) xs ys"
  by (induction xs arbitrary: ys) (auto simp: ebind_Inr_iff)

subsection \<open>C integers\<close>

text \<open>
  Signed overflow is undefined in C++; on the targets of this program the compiled code wraps.
  The model wraps too, and a theorem that depends on a sum not overflowing says so.
\<close>

definition s32 :: "int \<Rightarrow> int" where
  "s32 x = sint (word_of_int x :: 32 word)"

lemma s32_id: "- (2 ^ 31) \<le> x \<Longrightarrow> x < 2 ^ 31 \<Longrightarrow> s32 x = x"
  by (simp add: s32_def sint_sbintrunc' signed_take_bit_int_eq_self)

lemma s32_bounds: "- (2 ^ 31) \<le> s32 x" "s32 x < 2 ^ 31"
  using sint_ge [of "word_of_int x :: 32 word"] sint_lt [of "word_of_int x :: 32 word"]
  by (simp_all add: s32_def)

definition s64 :: "int \<Rightarrow> int" where
  "s64 x = sint (word_of_int x :: 64 word)"

lemma s64_id: "- (2 ^ 63) \<le> x \<Longrightarrow> x < 2 ^ 63 \<Longrightarrow> s64 x = x"
  by (simp add: s64_def sint_sbintrunc' signed_take_bit_int_eq_self)

text \<open>Division of C truncates towards zero.\<close>

definition c_div :: "int \<Rightarrow> int \<Rightarrow> int" where
  "c_div a b = sgn a * sgn b * (\<bar>a\<bar> div \<bar>b\<bar>)"

lemma c_div_nonneg: "0 \<le> a \<Longrightarrow> 0 < b \<Longrightarrow> c_div a b = a div b"
  by (cases "a = 0") (simp_all add: c_div_def)

subsection \<open>Printer and parser pairs\<close>

text \<open>
  The interface of an encoding: on the values it is meant for, decoding gives back what was
  encoded. Clients use that the encoding is injective there and that a decoder cannot
  confuse two values.
\<close>

locale codec =
  fixes enc :: "'a \<Rightarrow> 'b"
    and dcd :: "'b \<Rightarrow> 'a option"
    and dom_ok :: "'a \<Rightarrow> bool"
  assumes decode_encode: "dom_ok x \<Longrightarrow> dcd (enc x) = Some x"
begin

lemma encode_inject: "dom_ok x \<Longrightarrow> dom_ok y \<Longrightarrow> enc x = enc y \<longleftrightarrow> x = y"
  using decode_encode by (metis option.inject)

lemma decode_unique: "dom_ok x \<Longrightarrow> dcd (enc x) = Some y \<Longrightarrow> y = x"
  using decode_encode by simp

lemma inj_on_encode: "inj_on enc {x. dom_ok x}"
  by (rule inj_onI) (simp add: encode_inject)

end

definition ok_of :: "'e + 'a \<Rightarrow> 'a option" where
  "ok_of r = (case r of Inl _ \<Rightarrow> None | Inr x \<Rightarrow> Some x)"

lemma ok_of_simps [simp]: "ok_of (Inl e) = None" "ok_of (Inr x) = Some x"
  by (simp_all add: ok_of_def)

interpretation stoll_codec:
  codec dec_int "\<lambda>s. ok_of (stoll s)" "\<lambda>i. - (2 ^ 63) \<le> i \<and> i < 2 ^ 63"
  by unfold_locales (simp add: stoll_def sto_signed_dec_int)

interpretation stoi_codec:
  codec dec_int "\<lambda>s. ok_of (stoi s)" "\<lambda>i. - (2 ^ 31) \<le> i \<and> i < 2 ^ 31"
  by unfold_locales (simp add: stoi_def sto_signed_dec_int)

end
