(* ===== verification/Sandbox_Internal.thy ===== *)
theory Sandbox_Internal
  imports Prelude Complex_Main
begin

text \<open>
  The data of \<^verbatim>\<open>src/core/worker/sandbox_internal.h\<close> and
  \<^verbatim>\<open>src/core/worker/sandbox.h\<close>: the exit codes of the sandbox child, the runner
  configuration, the arguments handed to the two children and the results handed back.

  A \<^verbatim>\<open>char[256]\<close> field is the C string it holds, so the type invariant of a field is
  \<open>fits256\<close>: at most 255 bytes, none of them NUL. The two mount tables of 16 entries with their
  counters are lists whose length is the counter. \<^verbatim>\<open>int\<close> and \<^verbatim>\<open>long long\<close> fields are
  \<open>int\<close>, \<^verbatim>\<open>uid_t\<close> and \<^verbatim>\<open>gid_t\<close> are 32-bit words, \<^verbatim>\<open>rlim_t\<close> is a 64-bit word.
\<close>

type_synonym rlim = "64 word"

definition fits256 :: "string \<Rightarrow> bool" where
  "fits256 s \<longleftrightarrow> length s \<le> 255 \<and> NUL \<notin> set s"

lemma fits256_strncpy [simp, intro]: "fits256 (strncpy_z 255 s)"
  using strncpy_z_length [of 255 s] by (simp add: fits256_def strncpy_z_no_NUL)

lemma fits256_Nil [simp, intro]: "fits256 []"
  by (simp add: fits256_def)

lemma fits256_lit: "list_all (\<lambda>c. c \<noteq> NUL) s \<Longrightarrow> length s \<le> 255 \<Longrightarrow> fits256 s"
  by (auto simp: fits256_def list_all_iff)

definition STACK_SIZE :: int where "STACK_SIZE = 8 * 1024 * 1024"

subsection \<open>Exit codes of the sandbox child\<close>

definition EXIT_OK :: int where "EXIT_OK = 0"
definition ERR_OPEN_OUTPUT :: int where "ERR_OPEN_OUTPUT = 120"
definition ERR_DUP2 :: int where "ERR_DUP2 = 121"
definition ERR_EXEC_FAILED :: int where "ERR_EXEC_FAILED = 127"
definition ERR_CHDIR_FAILED :: int where "ERR_CHDIR_FAILED = 128"
definition ERR_SETGID_FAILED :: int where "ERR_SETGID_FAILED = 129"
definition ERR_SETUID_FAILED :: int where "ERR_SETUID_FAILED = 130"
definition ERR_RLIMIT_CPU :: int where "ERR_RLIMIT_CPU = 141"
definition ERR_RLIMIT_MEMORY :: int where "ERR_RLIMIT_MEMORY = 142"
definition ERR_RLIMIT_STACK :: int where "ERR_RLIMIT_STACK = 143"
definition ERR_RLIMIT_NPROC :: int where "ERR_RLIMIT_NPROC = 144"
definition ERR_RLIMIT_FSIZE :: int where "ERR_RLIMIT_FSIZE = 145"
definition ERR_MOUNT_PRIVATE :: int where "ERR_MOUNT_PRIVATE = 190"
definition ERR_MOUNT_BIND_SELF :: int where "ERR_MOUNT_BIND_SELF = 191"
definition ERR_MOUNT_BIND_LIB :: int where "ERR_MOUNT_BIND_LIB = 192"
definition ERR_REMOUNT_RO :: int where "ERR_REMOUNT_RO = 193"
definition ERR_PIVOT_ROOT :: int where "ERR_PIVOT_ROOT = 194"
definition ERR_CHDIR_NEW_ROOT :: int where "ERR_CHDIR_NEW_ROOT = 195"
definition ERR_UMOUNT_OLD :: int where "ERR_UMOUNT_OLD = 196"
definition ERR_MOUNT_PROC :: int where "ERR_MOUNT_PROC = 197"
definition ERR_MKDIR_FAILED :: int where "ERR_MKDIR_FAILED = 198"
definition ERR_SANDBOX_EXCEPTION :: int where "ERR_SANDBOX_EXCEPTION = 199"
definition ERR_MOUNT_TMP :: int where "ERR_MOUNT_TMP = 200"

lemmas exit_code_defs =
  EXIT_OK_def ERR_OPEN_OUTPUT_def ERR_DUP2_def ERR_EXEC_FAILED_def ERR_CHDIR_FAILED_def
  ERR_SETGID_FAILED_def ERR_SETUID_FAILED_def ERR_RLIMIT_CPU_def ERR_RLIMIT_MEMORY_def
  ERR_RLIMIT_STACK_def ERR_RLIMIT_NPROC_def ERR_RLIMIT_FSIZE_def ERR_MOUNT_PRIVATE_def
  ERR_MOUNT_BIND_SELF_def ERR_MOUNT_BIND_LIB_def ERR_REMOUNT_RO_def ERR_PIVOT_ROOT_def
  ERR_CHDIR_NEW_ROOT_def ERR_UMOUNT_OLD_def ERR_MOUNT_PROC_def ERR_MKDIR_FAILED_def
  ERR_SANDBOX_EXCEPTION_def ERR_MOUNT_TMP_def

text \<open>The named failure codes of the enumeration, in its order.\<close>

definition sandbox_error_codes :: "int list" where
  "sandbox_error_codes =
     [ERR_OPEN_OUTPUT, ERR_DUP2, ERR_EXEC_FAILED, ERR_CHDIR_FAILED, ERR_SETGID_FAILED,
      ERR_SETUID_FAILED, ERR_RLIMIT_CPU, ERR_RLIMIT_MEMORY, ERR_RLIMIT_STACK, ERR_RLIMIT_NPROC,
      ERR_RLIMIT_FSIZE, ERR_MOUNT_PRIVATE, ERR_MOUNT_BIND_SELF, ERR_MOUNT_BIND_LIB,
      ERR_REMOUNT_RO, ERR_PIVOT_ROOT, ERR_CHDIR_NEW_ROOT, ERR_UMOUNT_OLD, ERR_MOUNT_PROC,
      ERR_MKDIR_FAILED, ERR_SANDBOX_EXCEPTION, ERR_MOUNT_TMP]"

lemma sandbox_error_codes_range:
  "c \<in> set sandbox_error_codes \<Longrightarrow> 120 \<le> c \<and> c \<le> 200"
  by (auto simp: sandbox_error_codes_def exit_code_defs)

subsection \<open>Configuration\<close>

text \<open>\<open>cgroup_cpu_max_cores\<close> is a C++ double, held as the rational number it denotes.\<close>

record GlobalConfig =
  workspace_root :: string
  compiler_path :: string
  mount_dirs :: "string list"
  mount_files :: "string list"
  compile_cpu_limit :: int
  compile_real_limit :: int
  compile_mem_limit :: int
  max_output_size :: int
  output_buffer_size :: int
  run_tmpfs_size_mb :: int
  compile_tmpfs_size_mb :: int
  compile_log_max_bytes :: int
  compile_max_errors :: int
  run_uid :: "32 word"
  run_gid :: "32 word"
  cgroup_pids_limit :: int
  cgroup_cpu_max_cores :: rat
  cgroup_io_read_bps :: int
  cgroup_io_write_bps :: int

definition config_wf :: "GlobalConfig \<Rightarrow> bool" where
  "config_wf cfg \<longleftrightarrow>
     fits256 (workspace_root cfg) \<and> fits256 (compiler_path cfg) \<and>
     length (mount_dirs cfg) \<le> 16 \<and> list_all fits256 (mount_dirs cfg) \<and>
     length (mount_files cfg) \<le> 16 \<and> list_all fits256 (mount_files cfg)"

subsection \<open>Arguments of the two children\<close>

record RunChildArgs =
  run_exe_path :: string
  run_input_file :: string
  run_output_file :: string
  run_error_file :: string
  time_limit_ms :: int
  memory_limit_kb :: int
  output_limit_bytes :: rlim
  input_fd :: int
  output_fd :: int
  error_fd :: int

record CompileArgs =
  source_path :: string
  comp_exe_path :: string
  log_path :: string

definition run_args_wf :: "RunChildArgs \<Rightarrow> bool" where
  "run_args_wf a \<longleftrightarrow> fits256 (run_exe_path a)"

definition compile_args_wf :: "CompileArgs \<Rightarrow> bool" where
  "compile_args_wf a \<longleftrightarrow>
     fits256 (source_path a) \<and> fits256 (comp_exe_path a) \<and> fits256 (log_path a)"

subsection \<open>Results\<close>

record CompileResult =
  success :: bool
  res_exe_path :: string
  comp_error_message :: string

datatype SandboxStatus =
    OK
  | TIME_LIMIT_EXCEEDED
  | MEMORY_LIMIT_EXCEEDED
  | OUTPUT_LIMIT_EXCEEDED
  | RUNTIME_ERROR
  | SYSTEM_ERROR

record RunResult =
  status :: SandboxStatus
  time_used :: int
  memory_used :: int
  exit_code :: int
  exit_signal :: int
  sandbox_error :: string
  error_message :: string

definition init_compile_result :: CompileResult where
  "init_compile_result = \<lparr>success = False, res_exe_path = [], comp_error_message = []\<rparr>"

definition init_run_result :: RunResult where
  "init_run_result =
     \<lparr>status = OK, time_used = 0, memory_used = 0, exit_code = 0, exit_signal = 0,
      sandbox_error = [], error_message = []\<rparr>"

end
