(* ===== verification/Messages.thy ===== *)
theory Messages
  imports Sandbox_Internal
begin

text \<open>
  The texts that \<^verbatim>\<open>src/core/worker/sandbox.cpp\<close> reports. The source file is UTF-8 and most
  of them are Chinese; a literal is the list of its bytes, here with its ASCII parts written out.
\<close>

subsection \<open>Error messages\<close>

text \<open>The request id has illegal characters.\<close>

definition msg_bad_request_id :: string where
  "msg_bad_request_id =
     bytes
       [229, 174, 137, 229, 133, 168, 232, 191, 157, 232, 167, 132] @
     '': '' @
     bytes
       [232, 175, 183, 230, 177, 130] @
     '' ID '' @
     bytes
       [229, 140, 133, 229, 144, 171, 233, 157, 158, 230, 179, 149, 229, 173, 151, 231,
       172, 166] @
     '' ('' @
     bytes
       [230, 189, 156, 229, 156, 168, 232, 183, 175, 229, 190, 132, 233, 129, 141, 229,
       142, 134, 230, 148, 187, 229, 135, 187] @
     '')''"

text \<open>Cannot create the request directory.\<close>

definition msg_mkdir_request :: string where
  "msg_mkdir_request =
     bytes
       [230, 151, 160, 230, 179, 149, 229, 136, 155, 229, 187, 186, 232, 175, 183, 230,
       177, 130, 231, 155, 174, 229, 189, 149] @
     ('' '' @ [CHR 0x27])"

text \<open>Cannot open the file for writing.\<close>

definition msg_open_source :: string where
  "msg_open_source =
     bytes
       [230, 151, 160, 230, 179, 149, 230, 137, 147, 229, 188, 128, 230, 150, 135, 228,
       187, 182, 232, 191, 155, 232, 161, 140, 229, 134, 153, 229, 133, 165] @
     '': ''"

text \<open>I/O error while writing the source.\<close>

definition msg_write_source :: string where
  "msg_write_source =
     bytes
       [229, 134, 153, 229, 133, 165, 230, 186, 144, 228, 187, 163, 231, 160, 129, 230,
       151, 182, 229, 143, 145, 231, 148, 159] @
     '' I/O '' @
     bytes
       [233, 148, 153, 232, 175, 175]"

text \<open>Cannot change the owner of the directory.\<close>

definition msg_chown :: string where
  "msg_chown =
     bytes
       [230, 151, 160, 230, 179, 149, 228, 191, 174, 230, 148, 185, 231, 155, 174, 229,
       189, 149, 230, 137, 128, 230, 156, 137, 232, 128, 133]"

text \<open>Cannot set the permissions of the directory.\<close>

definition msg_permissions :: string where
  "msg_permissions =
     bytes
       [230, 151, 160, 230, 179, 149, 232, 174, 190, 231, 189, 174, 231, 155, 174, 229,
       189, 149, 230, 157, 131, 233, 153, 144] @
     '': ''"

text \<open>Clone failed.\<close>

definition msg_clone_compile :: string where
  "msg_clone_compile =
     bytes
       [231, 179, 187, 231, 187, 159, 232, 176, 131, 231, 148, 168] @
     '' clone (compile) '' @
     bytes
       [229, 164, 177, 232, 180, 165]"

text \<open>Waitpid failed.\<close>

definition msg_waitpid :: string where
  "msg_waitpid =
     bytes
       [231, 179, 187, 231, 187, 159, 232, 176, 131, 231, 148, 168] @
     '' waitpid '' @
     bytes
       [229, 164, 177, 232, 180, 165]"

text \<open>Compilation timed out.\<close>

definition msg_compile_timeout :: string where
  "msg_compile_timeout =
     bytes
       [231, 188, 150, 232, 175, 145, 232, 182, 133, 230, 151, 182] @
     '' (> ''"

text \<open>There may be a very complex template expansion.\<close>

definition msg_compile_timeout_end :: string where
  "msg_compile_timeout_end =
     ''ms). '' @
     bytes
       [229, 143, 175, 232, 131, 189, 229, 173, 152, 229, 156, 168, 230, 158, 129, 229,
       186, 166, 229, 164, 141, 230, 157, 130, 231, 154, 132, 230, 168, 161, 230, 157, 191,
       229, 177, 149, 229, 188, 128, 227, 128, 130]"

text \<open>System error of the compile sandbox, exit code.\<close>

definition msg_compile_sandbox :: string where
  "msg_compile_sandbox =
     bytes
       [231, 188, 150, 232, 175, 145, 230, 178, 153, 231, 174, 177, 231, 179, 187, 231,
       187, 159, 233, 148, 153, 232, 175, 175] @
     '' ('' @
     bytes
       [233, 128, 128, 229, 135, 186, 231, 160, 129] @
     '': ''"

text \<open>The log was not read.\<close>

definition msg_no_log :: string where
  "msg_no_log =
     bytes
       [10] @
     ''('' @
     bytes
       [230, 156, 170, 232, 175, 187, 229, 143, 150, 229, 136, 176] @
     '' compile_error.log)''"

text \<open>Compilation failed, exit code.\<close>

definition msg_compile_failed :: string where
  "msg_compile_failed =
     bytes
       [231, 188, 150, 232, 175, 145, 229, 164, 177, 232, 180, 165] @
     '' (g++ '' @
     bytes
       [233, 128, 128, 229, 135, 186, 231, 160, 129] @
     '': ''"

text \<open>And the log cannot be read.\<close>

definition msg_compile_failed_end :: string where
  "msg_compile_failed_end =
     '')'' @
     bytes
       [239, 188, 140, 228, 184, 148, 230, 151, 160, 230, 179, 149, 232, 175, 187, 229,
       143, 150, 233, 148, 153, 232, 175, 175, 230, 151, 165, 229, 191, 151]"

text \<open>The compiler was terminated.\<close>

definition msg_compiler_signal :: string where
  "msg_compiler_signal =
     bytes
       [231, 188, 150, 232, 175, 145, 229, 153, 168, 229, 188, 130, 229, 184, 184, 231,
       187, 136, 230, 173, 162] @
     '' (Signal: ''"

text \<open>The compiler ended for an unknown reason.\<close>

definition msg_compiler_unknown :: string where
  "msg_compiler_unknown =
     bytes
       [231, 188, 150, 232, 175, 145, 229, 153, 168, 229, 155, 160, 230, 156, 170, 231,
       159, 165, 229, 142, 159, 229, 155, 160, 231, 187, 147, 230, 157, 159]"

text \<open>The program failed to start.\<close>

definition msg_start_failed :: string where
  "msg_start_failed =
     bytes
       [231, 168, 139, 229, 186, 143, 229, 144, 175, 229, 138, 168, 229, 164, 177, 232,
       180, 165] @
     '': ''"

text \<open>Sandbox panic, exit code.\<close>

definition msg_sandbox_panic :: string where
  "msg_sandbox_panic =
     bytes
       [230, 178, 153, 231, 174, 177, 230, 129, 144, 230, 133, 140] @
     '' ('' @
     bytes
       [233, 128, 128, 229, 135, 186, 231, 160, 129] @
     '' ''"

text \<open>Initialisation failed, cannot create the root directory.\<close>

definition msg_init_failed :: string where
  "msg_init_failed =
     ''Sandbox '' @
     bytes
       [229, 136, 157, 229, 167, 139, 229, 140, 150, 229, 164, 177, 232, 180, 165] @
     '': '' @
     bytes
       [230, 151, 160, 230, 179, 149, 229, 136, 155, 229, 187, 186, 230, 160, 185, 228,
       184, 180, 230, 151, 182, 231, 155, 174, 229, 189, 149] @
     ('' '' @ [CHR 0x27])"

subsection \<open>Descriptions of exit codes\<close>

definition GetExitCodeDescription :: "int \<Rightarrow> string" where
  "GetExitCodeDescription code = (
     if code = ERR_OPEN_OUTPUT then
       bytes
         [230, 151, 160, 230, 179, 149, 230, 137, 147, 229, 188, 128, 232, 190, 147, 229,
         135, 186, 230, 150, 135, 228, 187, 182] @
       '' (IO Redirect)''
     else if code = ERR_DUP2 then
       ''dup2 '' @
       bytes
         [232, 176, 131, 231, 148, 168, 229, 164, 177, 232, 180, 165] @
       '' (IO Redirect)''
     else if code = ERR_EXEC_FAILED then
       ''execle '' @
       bytes
         [232, 176, 131, 231, 148, 168, 229, 164, 177, 232, 180, 165] @
       '' ('' @
       bytes
         [231, 168, 139, 229, 186, 143, 229, 144, 175, 229, 138, 168, 229, 164, 177, 232,
         180, 165] @
       '')''
     else if code = ERR_CHDIR_FAILED then
       ''chdir '' @
       bytes
         [229, 136, 135, 230, 141, 162, 229, 183, 165, 228, 189, 156, 231, 155, 174, 229,
         189, 149, 229, 164, 177, 232, 180, 165]
     else if code = ERR_SETGID_FAILED then
       ''setgid '' @
       bytes
         [229, 164, 177, 232, 180, 165] @
       '' ('' @
       bytes
         [233, 153, 141, 230, 157, 131, 229, 164, 177, 232, 180, 165] @
       '')''
     else if code = ERR_SETUID_FAILED then
       ''setuid '' @
       bytes
         [229, 164, 177, 232, 180, 165] @
       '' ('' @
       bytes
         [233, 153, 141, 230, 157, 131, 229, 164, 177, 232, 180, 165] @
       '')''
     else if code = ERR_RLIMIT_CPU then
       ''setrlimit(CPU) '' @
       bytes
         [229, 164, 177, 232, 180, 165]
     else if code = ERR_RLIMIT_MEMORY then
       ''setrlimit(AS) '' @
       bytes
         [229, 164, 177, 232, 180, 165]
     else if code = ERR_RLIMIT_STACK then
       ''setrlimit(STACK) '' @
       bytes
         [229, 164, 177, 232, 180, 165]
     else if code = ERR_RLIMIT_NPROC then
       ''setrlimit(NPROC) '' @
       bytes
         [229, 164, 177, 232, 180, 165]
     else if code = ERR_RLIMIT_FSIZE then
       ''setrlimit(FSIZE) '' @
       bytes
         [229, 164, 177, 232, 180, 165]
     else if code = ERR_MOUNT_PRIVATE then
       ''mount --make-rprivate '' @
       bytes
         [229, 164, 177, 232, 180, 165]
     else if code = ERR_MOUNT_BIND_SELF then
       ''bind mount '' @
       bytes
         [229, 183, 165, 228, 189, 156, 231, 155, 174, 229, 189, 149, 229, 164, 177, 232,
         180, 165]
     else if code = ERR_MOUNT_BIND_LIB then
       ''bind mount '' @
       bytes
         [231, 179, 187, 231, 187, 159, 229, 186, 147, 229, 164, 177, 232, 180, 165]
     else if code = ERR_REMOUNT_RO then
       ''remount '' @
       bytes
         [231, 179, 187, 231, 187, 159, 229, 186, 147] @
       '' (RO) '' @
       bytes
         [229, 164, 177, 232, 180, 165]
     else if code = ERR_PIVOT_ROOT then
       ''pivot_root '' @
       bytes
         [231, 179, 187, 231, 187, 159, 232, 176, 131, 231, 148, 168, 229, 164, 177, 232,
         180, 165]
     else if code = ERR_CHDIR_NEW_ROOT then
       bytes
         [229, 136, 135, 230, 141, 162, 229, 136, 176, 230, 150, 176, 230, 160, 185, 231,
         155, 174, 229, 189, 149, 229, 164, 177, 232, 180, 165]
     else if code = ERR_UMOUNT_OLD then
       ''umount /old_root '' @
       bytes
         [229, 164, 177, 232, 180, 165]
     else if code = ERR_MOUNT_PROC then
       ''mount /proc '' @
       bytes
         [229, 164, 177, 232, 180, 165]
     else if code = ERR_MOUNT_TMP then
       ''mount /tmp (tmpfs) '' @
       bytes
         [229, 164, 177, 232, 180, 165]
     else if code = ERR_MKDIR_FAILED then
       ''mkdir ('' @
       bytes
         [230, 158, 132, 229, 187, 186] @
       '' Rootfs) '' @
       bytes
         [229, 164, 177, 232, 180, 165]
     else if code = ERR_SANDBOX_EXCEPTION then
       bytes
         [230, 178, 153, 231, 174, 177, 229, 134, 133, 233, 131, 168, 229, 188, 130, 229,
         184, 184] @
       '' (C++ Throw)''
     else
       bytes
         [228, 184, 142, 231, 179, 187, 231, 187, 159, 231, 155, 184, 229, 133, 179, 231,
         154, 132, 230, 156, 170, 231, 159, 165, 233, 148, 153, 232, 175, 175])"

end
