(* ===== verification/System_Calls.thy ===== *)
theory System_Calls
  imports Sandbox_Internal
begin

text \<open>
  The effects of the judge core. What the program asks of the operating system, of the C++
  file-system library and of libseccomp is a \<open>call\<close>; what it gets back is an \<open>answer\<close>, which
  the environment chooses freely. A piece of the program is a \<open>prog\<close>: a tree that
  ends with a value, ends the process or throws, or makes a call and goes on with the answer.
  The behaviours of a program are its runs (\<open>runs\<close>), one for every way the environment can
  answer; \<open>interp\<close> computes the run for a given environment, and the two agree.

  Diagnostics on \<^verbatim>\<open>std::cerr\<close> are left out; writes to file descriptor 2 by the child, which the
  parent reads back, are calls. A loop that the environment can keep going forever takes a
  bound on its iterations and ends in \<open>Looping\<close> when it is used up.
\<close>

named_theorems prog_defs \<open>program fragments to unfold\<close>

subsection \<open>Calls and answers\<close>

datatype child = Run_Child RunChildArgs | Compile_Child CompileArgs

datatype scmp_action = SCMP_ACT_KILL | SCMP_ACT_ALLOW

text \<open>\<open>MASKED_EQ arg mask value\<close> is \<^verbatim>\<open>SCMP_CMP(arg, SCMP_CMP_MASKED_EQ, mask, value)\<close>.\<close>

datatype scmp_cmp = MASKED_EQ nat "64 word" "64 word"

datatype call =
    Open string int int
  | Close int
  | Dup int
  | Dup2 int int
  | Close_Range int "32 word"
  | Sysconf_Open_Max
  | Write int string
  | Access string int
  | Mkdir string int
  | Rmdir string
  | Chmod string int
  | Chown string "32 word" "32 word"
  | Chdir string
  | Mount "string option" string "string option" nat "string option"
  | Umount2 string int
  | Pivot_Root string string
  | Setrlimit nat rlim rlim
  | Setgroups_Empty
  | Setgid "32 word"
  | Setuid "32 word"
  | Prctl_No_New_Privs
  | Getenv string
  | Getuid | Getgid | Geteuid | Getegid
  | Strerror int
  | Strsignal int
  | Seccomp_Init scmp_action
  | Seccomp_Rule_Add scmp_action string "scmp_cmp list"
  | Seccomp_Load
  | Seccomp_Release
  | Exec string "string list" "string list option"
  | Clone child nat
  | Waitpid int int
  | Wait4 int int
  | Kill int int
  | Clock_Now
  | Sleep_Ms nat
  | Usleep nat
  | Fs_Create_Directories string
  | Fs_Exists string
  | Fs_File_Size string
  | Fs_Remove string
  | Fs_Remove_All string
  | Fs_Permissions string int
  | Ofs_Open string
  | Ofs_Put string string
  | Ofs_Close string
  | Read_File string
  | Statfs string
  | Stat string
  | Stdout string

record rusage =
  ru_maxrss :: int
  ru_utime_sec :: int
  ru_utime_usec :: int
  ru_stime_sec :: int
  ru_stime_usec :: int

definition zero_rusage :: rusage where
  "zero_rusage =
     \<lparr>ru_maxrss = 0, ru_utime_sec = 0, ru_utime_usec = 0, ru_stime_sec = 0, ru_stime_usec = 0\<rparr>"

text \<open>
  An answer carries the return value, the error number (\<^verbatim>\<open>errno\<close>, or the value of the
  \<^verbatim>\<open>std::error_code\<close>, 0 for none), an integer out-parameter (wait status, device number,
  file-system type), text (file contents, environment variable; \<open>None\<close> when there is none) and
  the resource usage that \<^verbatim>\<open>wait4\<close> fills in. A boolean result is a return value other than 0.
\<close>

record answer =
  rv :: int
  er :: int
  out :: int
  body :: "string option"
  usage :: rusage

definition ans :: "int \<Rightarrow> answer" where
  "ans n = \<lparr>rv = n, er = 0, out = 0, body = None, usage = zero_rusage\<rparr>"

lemma ans_simps [simp]:
  "rv (ans n) = n" "er (ans n) = 0" "out (ans n) = 0" "body (ans n) = None"
  "usage (ans n) = zero_rusage"
  by (simp_all add: ans_def)

definition text_of :: "answer \<Rightarrow> string" where
  "text_of a = (case body a of None \<Rightarrow> [] | Some s \<Rightarrow> s)"

abbreviation (input) EINTR :: int where "EINTR \<equiv> 4"
abbreviation (input) EEXIST :: int where "EEXIST \<equiv> 17"
abbreviation (input) EBUSY :: int where "EBUSY \<equiv> 16"
abbreviation (input) ENAMETOOLONG :: int where "ENAMETOOLONG \<equiv> 36"

type_synonym event = "call \<times> answer"

subsection \<open>Programs\<close>

datatype stop = Exited int | Execed | Threw exn | Looping

datatype 'a prog = Done 'a | Stop stop | Call call "answer \<Rightarrow> 'a prog"

datatype 'a outcome = Ret 'a | Stopped stop

primrec pbind :: "'a prog \<Rightarrow> ('a \<Rightarrow> 'b prog) \<Rightarrow> 'b prog" where
  "pbind (Done x) f = f x"
| "pbind (Stop s) f = Stop s"
| "pbind (Call c k) f = Call c (\<lambda>a. pbind (k a) f)"

text \<open>\<^verbatim>\<open>try { p } catch (e) { h(e) }\<close>\<close>

primrec pcatch :: "'a prog \<Rightarrow> (exn \<Rightarrow> 'a prog) \<Rightarrow> 'a prog" where
  "pcatch (Done x) h = Done x"
| "pcatch (Stop s) h = (case s of Threw e \<Rightarrow> h e | _ \<Rightarrow> Stop s)"
| "pcatch (Call c k) h = Call c (\<lambda>a. pcatch (k a) h)"

text \<open>A destructor \<open>d\<close> that runs when \<open>p\<close> leaves its scope, by a return or by an exception.\<close>

primrec pfinally :: "'a prog \<Rightarrow> unit prog \<Rightarrow> 'a prog" where
  "pfinally (Done x) d = pbind d (\<lambda>_. Done x)"
| "pfinally (Stop s) d =
     (case s of Threw e \<Rightarrow> pbind d (\<lambda>_. Stop (Threw e)) | _ \<Rightarrow> Stop s)"
| "pfinally (Call c k) d = Call c (\<lambda>a. pfinally (k a) d)"

text \<open>A sequence of statements.\<close>

primrec block :: "unit prog list \<Rightarrow> unit prog" where
  "block [] = Done ()"
| "block (p # ps) = pbind p (\<lambda>_. block ps)"

definition do_call :: "call \<Rightarrow> answer prog" where
  "do_call c = Call c Done"

text \<open>A call whose result is ignored.\<close>

definition emit :: "call \<Rightarrow> unit prog" where
  "emit c = Call c (\<lambda>_. Done ())"

text \<open>\<^verbatim>\<open>if (!ok(c)) fail;\<close>\<close>

definition require :: "call \<Rightarrow> (answer \<Rightarrow> bool) \<Rightarrow> (answer \<Rightarrow> unit prog) \<Rightarrow> unit prog" where
  "require c ok fail = Call c (\<lambda>a. if ok a then Done () else fail a)"

text \<open>\<^verbatim>\<open>for (;;) { w = c; if (w == -1 && errno == EINTR) continue; return w; }\<close>\<close>

fun retry_eintr :: "nat \<Rightarrow> call \<Rightarrow> answer prog" where
  "retry_eintr 0 c = Stop Looping"
| "retry_eintr (Suc n) c =
     Call c (\<lambda>a. if rv a = -1 \<and> er a = EINTR then retry_eintr n c else Done a)"

subsection \<open>Runs\<close>

inductive runs :: "'a prog \<Rightarrow> event list \<Rightarrow> 'a outcome \<Rightarrow> bool" where
  runs_Done: "runs (Done x) [] (Ret x)"
| runs_Stop: "runs (Stop s) [] (Stopped s)"
| runs_Call: "runs (k a) tr r \<Longrightarrow> runs (Call c k) ((c, a) # tr) r"

inductive_simps runs_Done_iff [simp]: "runs (Done x) tr r"
inductive_simps runs_Stop_iff [simp]: "runs (Stop s) tr r"
inductive_simps runs_Call_iff: "runs (Call c k) tr r"
inductive_simps runs_Call_Cons [simp]: "runs (Call c k) (e # tr) r"
inductive_simps runs_Call_Nil [simp]: "runs (Call c k) [] r"

primrec interp :: "(event list \<Rightarrow> call \<Rightarrow> answer) \<Rightarrow> event list \<Rightarrow> 'a prog \<Rightarrow> event list \<times> 'a outcome"
where
  "interp env h (Done x) = ([], Ret x)"
| "interp env h (Stop s) = ([], Stopped s)"
| "interp env h (Call c k) =
     (let a = env h c; (t, r) = interp env (h @ [(c, a)]) (k a) in ((c, a) # t, r))"

lemma interp_runs: "interp env h p = (tr, r) \<Longrightarrow> runs p tr r"
  by (induction p arbitrary: h tr) (auto simp: Let_def runs_Call split: prod.splits)

lemma runs_interp_ext:
  "runs p tr r \<Longrightarrow>
   (\<And>i. i < length tr \<Longrightarrow> env (h @ take i tr) (fst (tr ! i)) = snd (tr ! i)) \<Longrightarrow>
   interp env h p = (tr, r)"
proof (induction arbitrary: h rule: runs.induct)
  case (runs_Call k a tr r c)
  from runs_Call.prems [of 0] have a: "env h c = a" by simp
  have "interp env (h @ [(c, a)]) (k a) = (tr, r)"
  proof (rule runs_Call.IH)
    fix i assume "i < length tr"
    then show "env ((h @ [(c, a)]) @ take i tr) (fst (tr ! i)) = snd (tr ! i)"
      using runs_Call.prems [of "Suc i"] by simp
  qed
  with a show ?case by (simp add: Let_def)
qed simp_all

text \<open>The runs are exactly what the interpreter can be made to do.\<close>

lemma runs_iff_interp: "runs p tr r \<longleftrightarrow> (\<exists>env. interp env [] p = (tr, r))"
proof
  assume "runs p tr r"
  then have "interp (\<lambda>h c. snd (tr ! length h)) [] p = (tr, r)"
    by (rule runs_interp_ext) simp
  then show "\<exists>env. interp env [] p = (tr, r)" by blast
qed (blast intro: interp_runs)

lemma runs_total: "\<exists>tr r. runs p tr r"
  using interp_runs [of "\<lambda>_ _. ans 0" "[]" p] by (metis surj_pair)

subsection \<open>Composition\<close>

lemma pbind_assoc: "pbind (pbind p f) g = pbind p (\<lambda>x. pbind (f x) g)"
  by (induction p) simp_all

lemma pbind_Done [simp]: "pbind p Done = p"
  by (induction p) simp_all

lemma runs_pbind_Ret:
  "runs p t1 (Ret x) \<Longrightarrow> runs (f x) t2 r \<Longrightarrow> runs (pbind p f) (t1 @ t2) r"
  by (induction p t1 "Ret x :: 'a outcome" rule: runs.induct) (auto intro: runs_Call)

lemma runs_pbind_Stopped: "runs p tr (Stopped s) \<Longrightarrow> runs (pbind p f) tr (Stopped s)"
  by (induction p tr "Stopped s :: 'a outcome" rule: runs.induct) (auto intro: runs_Call)

lemma runs_pbindD:
  "runs (pbind p f) tr r \<Longrightarrow>
   (\<exists>x t1 t2. runs p t1 (Ret x) \<and> runs (f x) t2 r \<and> tr = t1 @ t2) \<or>
   (\<exists>s. r = Stopped s \<and> runs p tr (Stopped s))"
proof (induction p arbitrary: tr)
  case (Done x)
  then show ?case by (metis pbind.simps(1) runs_Done append_Nil)
next
  case (Stop s)
  then show ?case by auto
next
  case (Call c k)
  from Call.prems obtain a t where tr: "tr = (c, a) # t" and k: "runs (pbind (k a) f) t r"
    by (auto simp: runs_Call_iff)
  from Call.IH [OF rangeI k] show ?case
  proof (elim disjE exE conjE)
    fix x t1 t2 assume "runs (k a) t1 (Ret x)" "runs (f x) t2 r" "t = t1 @ t2"
    then have "runs (Call c k) ((c, a) # t1) (Ret x)" "tr = ((c, a) # t1) @ t2"
      by (auto intro: runs_Call simp: tr)
    with \<open>runs (f x) t2 r\<close> show ?thesis by blast
  next
    fix s assume "r = Stopped s" "runs (k a) t (Stopped s)"
    then show ?thesis by (auto intro: runs_Call simp: tr)
  qed
qed

lemma runs_pbind_iff:
  "runs (pbind p f) tr r \<longleftrightarrow>
   (\<exists>x t1 t2. runs p t1 (Ret x) \<and> runs (f x) t2 r \<and> tr = t1 @ t2) \<or>
   (\<exists>s. r = Stopped s \<and> runs p tr (Stopped s))"
proof
  assume "(\<exists>x t1 t2. runs p t1 (Ret x) \<and> runs (f x) t2 r \<and> tr = t1 @ t2) \<or>
    (\<exists>s. r = Stopped s \<and> runs p tr (Stopped s))"
  then show "runs (pbind p f) tr r"
    by (elim disjE exE conjE) (simp_all add: runs_pbind_Ret runs_pbind_Stopped)
qed (rule runs_pbindD)

lemma runs_pbind_RetE:
  assumes "runs (pbind p f) tr (Ret y)"
  obtains x t1 t2 where "runs p t1 (Ret x)" "runs (f x) t2 (Ret y)" "tr = t1 @ t2"
  using assms by (auto simp: runs_pbind_iff)

lemma runs_pcatch:
  "runs (pcatch p h) tr r \<Longrightarrow>
   (\<exists>x. r = Ret x \<and> runs p tr (Ret x)) \<or>
   (\<exists>s. r = Stopped s \<and> runs p tr (Stopped s) \<and> (\<forall>e. s \<noteq> Threw e)) \<or>
   (\<exists>e t1 t2. runs p t1 (Stopped (Threw e)) \<and> runs (h e) t2 r \<and> tr = t1 @ t2)"
proof (induction p arbitrary: tr)
  case (Done x)
  then show ?case by auto
next
  case (Stop s)
  then show ?case by (cases s) auto
next
  case (Call c k)
  from Call.prems obtain a t where tr: "tr = (c, a) # t" and k: "runs (pcatch (k a) h) t r"
    by (auto simp: runs_Call_iff)
  from Call.IH [OF rangeI k] show ?case
  proof (elim disjE exE conjE)
    fix e t1 t2
    assume "runs (k a) t1 (Stopped (Threw e))" "runs (h e) t2 r" "t = t1 @ t2"
    then have "runs (Call c k) ((c, a) # t1) (Stopped (Threw e))" "tr = ((c, a) # t1) @ t2"
      by (auto intro: runs_Call simp: tr)
    with \<open>runs (h e) t2 r\<close> show ?thesis by blast
  qed (auto intro: runs_Call simp: tr)
qed

text \<open>
  The outcome of a scope with a destructor: the body's, unless the destructor itself stops.
\<close>

definition scope_end :: "unit prog \<Rightarrow> 'a outcome \<Rightarrow> event list \<Rightarrow> 'a outcome \<Rightarrow> bool" where
  "scope_end d r0 t r \<longleftrightarrow>
     (case r0 of
        Ret _ \<Rightarrow> True
      | Stopped s \<Rightarrow> (\<exists>e. s = Threw e)) \<and>
     (runs d t (Ret ()) \<and> r = r0 \<or> (\<exists>s. runs d t (Stopped s) \<and> r = Stopped s))"

definition no_unwind :: "'a outcome \<Rightarrow> bool" where
  "no_unwind r \<longleftrightarrow> (\<exists>s. r = Stopped s \<and> (\<forall>e. s \<noteq> Threw e))"

lemma runs_pfinally:
  "runs (pfinally p d) tr r \<Longrightarrow>
   (\<exists>r0 t1 t2. runs p t1 r0 \<and> scope_end d r0 t2 r \<and> tr = t1 @ t2) \<or> no_unwind r \<and> runs p tr r"
proof (induction p arbitrary: tr)
  case (Done x)
  then have "scope_end d (Ret x) tr r"
    by (auto simp: runs_pbind_iff scope_end_def)
  then show ?case using runs_Done [of x] by force
next
  case (Stop s)
  show ?case
  proof (cases s)
    case (Threw e)
    with Stop have "scope_end d (Stopped (Threw e)) tr r"
      by (auto simp: runs_pbind_iff scope_end_def)
    then show ?thesis using Threw runs_Stop [of "Threw e"] by force
  qed (use Stop in \<open>auto simp: no_unwind_def\<close>)
next
  case (Call c k)
  from Call.prems obtain a t where tr: "tr = (c, a) # t" and k: "runs (pfinally (k a) d) t r"
    by (auto simp: runs_Call_iff)
  from Call.IH [OF rangeI k] show ?case
  proof (elim disjE exE conjE)
    fix r0 t1 t2
    assume "runs (k a) t1 r0" "scope_end d r0 t2 r" "t = t1 @ t2"
    then have "runs (Call c k) ((c, a) # t1) r0" "tr = ((c, a) # t1) @ t2"
      by (auto intro: runs_Call simp: tr)
    with \<open>scope_end d r0 t2 r\<close> show ?thesis by blast
  qed (auto intro: runs_Call simp: tr)
qed

lemma runs_pfinally_RetE:
  assumes "runs (pfinally p d) tr (Ret x)"
  obtains t1 t2 where "runs p t1 (Ret x)" "runs d t2 (Ret ())" "tr = t1 @ t2"
  using runs_pfinally [OF assms] by (auto simp: scope_end_def no_unwind_def)

subsection \<open>Sequences of statements\<close>

lemma block_append: "block (ps @ qs) = pbind (block ps) (\<lambda>_. block qs)"
  by (induction ps) (simp_all add: pbind_assoc)

lemma runs_block_Ret_iff:
  "runs (block ps) tr (Ret ()) \<longleftrightarrow>
   (\<exists>ts. tr = concat ts \<and> list_all2 (\<lambda>p t. runs p t (Ret ())) ps ts)"
proof (induction ps arbitrary: tr)
  case Nil
  then show ?case by auto
next
  case (Cons p ps)
  have "runs (block (p # ps)) tr (Ret ()) \<longleftrightarrow>
      (\<exists>t u. runs p t (Ret ()) \<and> runs (block ps) u (Ret ()) \<and> tr = t @ u)"
    by (auto simp: runs_pbind_iff)
  also have "\<dots> \<longleftrightarrow> (\<exists>ts. tr = concat ts \<and> list_all2 (\<lambda>p t. runs p t (Ret ())) (p # ps) ts)"
    unfolding Cons.IH list_all2_Cons1 by (auto; metis concat.simps(2))
  finally show ?case .
qed

lemma runs_block_Stopped:
  assumes "runs (block ps) tr (Stopped s)"
  shows "\<exists>qs p rs t u. ps = qs @ p # rs \<and> runs (block qs) t (Ret ()) \<and> runs p u (Stopped s) \<and> tr = t @ u"
  using assms
proof (induction ps arbitrary: tr)
  case Nil
  then show ?case by simp
next
  case (Cons p ps)
  then consider (here) "runs p tr (Stopped s)"
    | (later) t u where "runs p t (Ret ())" "runs (block ps) u (Stopped s)" "tr = t @ u"
    by (auto simp: runs_pbind_iff)
  then show ?case
  proof cases
    case here
    then have "p # ps = [] @ p # ps \<and> runs (block []) [] (Ret ()) \<and> runs p tr (Stopped s) \<and> tr = [] @ tr"
      by simp
    then show ?thesis by blast
  next
    case later
    from Cons.IH [OF later(2)] obtain qs q rs t' u' where
      "ps = qs @ q # rs" "runs (block qs) t' (Ret ())" "runs q u' (Stopped s)" "u = t' @ u'"
      by blast
    moreover from this(2) have "runs (block (p # qs)) (t @ t') (Ret ())"
      using later(1) by (auto intro: runs_pbind_Ret)
    ultimately have "p # ps = (p # qs) @ q # rs \<and> runs (block (p # qs)) (t @ t') (Ret ()) \<and>
        runs q u' (Stopped s) \<and> tr = (t @ t') @ u'"
      using later(3) by simp
    then show ?thesis by blast
  qed
qed

subsection \<open>Properties of all runs\<close>

text \<open>
  \<open>every C E R p\<close>: every call \<open>p\<close> can make satisfies \<open>C\<close>, every way it can stop satisfies
  \<open>E\<close>, every value it can return satisfies \<open>R\<close>, whatever the environment answers.
\<close>

primrec every :: "(call \<Rightarrow> bool) \<Rightarrow> (stop \<Rightarrow> bool) \<Rightarrow> ('a \<Rightarrow> bool) \<Rightarrow> 'a prog \<Rightarrow> bool" where
  "every C E R (Done x) = R x"
| "every C E R (Stop s) = E s"
| "every C E R (Call c k) = (C c \<and> (\<forall>a. every C E R (k a)))"

lemma every_calls: "runs p tr r \<Longrightarrow> every C E R p \<Longrightarrow> e \<in> set tr \<Longrightarrow> C (fst e)"
  by (induction rule: runs.induct) auto

lemma every_stops: "runs p tr (Stopped s) \<Longrightarrow> every C E R p \<Longrightarrow> E s"
  by (induction p tr "Stopped s :: 'a outcome" rule: runs.induct) auto

lemma every_rets: "runs p tr (Ret x) \<Longrightarrow> every C E R p \<Longrightarrow> R x"
  by (induction p tr "Ret x" rule: runs.induct) auto

lemma every_mono:
  "every C E R p \<Longrightarrow> (\<And>c. C c \<Longrightarrow> C' c) \<Longrightarrow> (\<And>s. E s \<Longrightarrow> E' s) \<Longrightarrow> (\<And>x. R x \<Longrightarrow> R' x) \<Longrightarrow>
   every C' E' R' p"
  by (induction p) auto

lemma every_pbind: "every C E R (pbind p f) = every C E (\<lambda>x. every C E R (f x)) p"
  by (induction p) simp_all

lemma every_unit_pbind:
  "every C E (\<lambda>_. True) p \<Longrightarrow> (\<And>x. every C E R (f x)) \<Longrightarrow> every C E R (pbind p f)"
  by (auto simp: every_pbind elim: every_mono)

lemma every_block:
  "list_all (every C E (\<lambda>_. True)) ps \<Longrightarrow> every C E (\<lambda>_. True) (block ps)"
  by (induction ps) (auto intro: every_unit_pbind)

lemma every_pcatch:
  "every C (\<lambda>s. case s of Threw e \<Rightarrow> every C E R (h e) | _ \<Rightarrow> E s) R p \<Longrightarrow> every C E R (pcatch p h)"
  by (induction p) (auto split: stop.splits)

lemma every_pfinally:
  "every C E R p \<Longrightarrow> every C E (\<lambda>_. True) d \<Longrightarrow> every C E R (pfinally p d)"
proof (induction p)
  case (Stop s)
  then show ?case by (cases s) (auto intro: every_unit_pbind)
qed (auto intro: every_unit_pbind)

lemma every_require [simp]:
  "every C E R (require c ok fail) \<longleftrightarrow>
   C c \<and> (\<forall>a. if ok a then R () else every C E R (fail a))"
  by (simp add: require_def if_distrib [of "every C E R"] cong: if_cong)

lemma every_emit [simp]: "every C E R (emit c) \<longleftrightarrow> C c \<and> R ()"
  by (simp add: emit_def)

lemma every_do_call [simp]: "every C E R (do_call c) \<longleftrightarrow> C c \<and> (\<forall>a. R a)"
  by (simp add: do_call_def)

lemma every_retry_eintr:
  "C c \<Longrightarrow> E Looping \<Longrightarrow> (\<And>a. \<not> (rv a = -1 \<and> er a = EINTR) \<Longrightarrow> R a) \<Longrightarrow> every C E R (retry_eintr n c)"
  by (induction n) auto

text \<open>
  Order: the calls that succeeded (did not return -1) in a run, and the calls a program must
  have made with success, in this order, before it can go on.
\<close>

definition oks :: "event list \<Rightarrow> call list" where
  "oks tr = map fst (filter (\<lambda>e. rv (snd e) \<noteq> -1) tr)"

lemma oks_simps [simp]:
  "oks [] = []"
  "oks ((c, a) # tr) = (if rv a \<noteq> -1 then c # oks tr else oks tr)"
  "oks (tr @ tr') = oks tr @ oks tr'"
  by (simp_all add: oks_def)

definition ensures :: "'a prog \<Rightarrow> call list \<Rightarrow> bool" where
  "ensures p cs \<longleftrightarrow> (\<forall>tr x. runs p tr (Ret x) \<longrightarrow> subseq cs (oks tr))"

lemma ensuresI: "(\<And>tr x. runs p tr (Ret x) \<Longrightarrow> subseq cs (oks tr)) \<Longrightarrow> ensures p cs"
  by (simp add: ensures_def)

lemma ensuresD: "ensures p cs \<Longrightarrow> runs p tr (Ret x) \<Longrightarrow> subseq cs (oks tr)"
  unfolding ensures_def by blast

lemma ensures_Nil [simp, intro]: "ensures p []"
  by (simp add: ensures_def)

lemma ensures_pbind:
  "ensures p cs \<Longrightarrow> (\<And>x. ensures (f x) ds) \<Longrightarrow> ensures (pbind p f) (cs @ ds)"
  by (rule ensuresI) (metis ensuresD list_emb_append_mono oks_simps(3) runs_pbind_RetE)

lemma ensures_pbind1: "ensures p cs \<Longrightarrow> ensures (pbind p f) cs"
  using ensures_pbind [of p cs f "[]"] by simp

lemma ensures_block:
  "list_all2 ensures ps css \<Longrightarrow> ensures (block ps) (concat css)"
  by (induction ps css rule: list_all2_induct) (auto intro: ensures_pbind)

definition aborts :: "'a prog \<Rightarrow> bool" where
  "aborts p \<longleftrightarrow> every (\<lambda>_. True) (\<lambda>_. True) (\<lambda>_. False) p"

lemma aborts_no_Ret: "aborts p \<Longrightarrow> \<not> runs p tr (Ret x)"
  by (auto simp: aborts_def dest: every_rets)

lemma ensures_aborts: "aborts p \<Longrightarrow> ensures p cs"
  by (auto simp: ensures_def aborts_no_Ret)

lemma runs_require_Ret:
  "runs (require c ok fail) tr (Ret x) \<longleftrightarrow>
   (\<exists>a. ok a \<and> tr = [(c, a)]) \<or> (\<exists>a t. \<not> ok a \<and> tr = (c, a) # t \<and> runs (fail a) t (Ret x))"
  by (auto simp: require_def runs_Call_iff split: if_splits)

lemma ensures_require:
  assumes "\<And>a. ok a \<Longrightarrow> rv a \<noteq> -1" "\<And>a. aborts (fail a)"
  shows "ensures (require c ok fail) [c]"
  using assms(1) aborts_no_Ret [OF assms(2)]
  by (auto intro!: ensuresI simp: runs_require_Ret)

text \<open>Some environment lets the program return.\<close>

definition can_return :: "'a prog \<Rightarrow> bool" where
  "can_return p \<longleftrightarrow> (\<exists>tr x. runs p tr (Ret x))"

lemma can_return_Done [simp]: "can_return (Done x)"
  unfolding can_return_def by (metis runs_Done)

lemma can_return_Call: "can_return (k a) \<Longrightarrow> can_return (Call c k)"
  unfolding can_return_def by (metis runs_Call)

lemma can_return_pbind:
  "can_return p \<Longrightarrow> (\<And>x. can_return (f x)) \<Longrightarrow> can_return (pbind p f)"
  unfolding can_return_def by (metis runs_pbind_Ret)

lemma can_return_block: "list_all can_return ps \<Longrightarrow> can_return (block ps)"
  by (induction ps) (auto intro: can_return_pbind)

lemma can_return_require: "ok a \<Longrightarrow> can_return (require c ok fail)"
  unfolding require_def by (rule can_return_Call [where a = a]) simp

lemma can_return_require_0 [simp]:
  "can_return (require c (\<lambda>a. rv a = 0) fail)"
  "can_return (require c (\<lambda>a. rv a \<noteq> 0) fail)"
  "can_return (require c (\<lambda>a. rv a \<noteq> -1) fail)"
  "can_return (require c (\<lambda>a. rv a = -1 \<longrightarrow> er a = n) fail)"
  by (rule can_return_require [where a = "ans 0"], simp)
    (rule can_return_require [where a = "ans 1"], simp)+

lemma can_return_emit [simp]: "can_return (emit c)"
  unfolding emit_def by (rule can_return_Call) simp

lemma can_return_stops:
  "can_return p \<Longrightarrow> (\<And>x. \<exists>tr. runs (f x) tr r) \<Longrightarrow> \<exists>t1 x t2. runs p t1 (Ret x) \<and> runs (f x) t2 r \<and> runs (pbind p f) (t1 @ t2) r"
  unfolding can_return_def by (metis runs_pbind_Ret)

end
