(* ===== verification/Guards.thy ===== *)
theory Guards
  imports System_Calls
begin

text \<open>
  The scope guards of \<^verbatim>\<open>src/core/worker/sandbox.cpp\<close>: \<^verbatim>\<open>ProcessGuard\<close> (kills and reaps a child),
  \<^verbatim>\<open>AutoCloseFd\<close> and \<^verbatim>\<open>DirectoryGuard\<close> (removes a request directory unless it was committed).

  The interface \<open>scope_guard\<close> says what C++ code relies on when it moves such an object around:
  destroying an object that owns nothing does nothing, and a move hands the ownership over. Its
  clients learn that the cleanup happens exactly once, however often the guard was moved;
  \<open>assignable_guard\<close> adds move assignment, which first cleans up what the target owned.
\<close>

subsection \<open>The interface\<close>

text \<open>The objects that exist after \<open>n\<close> moves, the last target first.\<close>

fun moves :: "('g \<Rightarrow> 'g \<times> 'g) \<Rightarrow> nat \<Rightarrow> 'g \<Rightarrow> 'g list" where
  "moves move 0 g = [g]"
| "moves move (Suc n) g = moves move n (fst (move g)) @ [snd (move g)]"

locale scope_guard =
  fixes owns :: "'g \<Rightarrow> bool"
    and dtor :: "'g \<Rightarrow> unit prog"
    and move :: "'g \<Rightarrow> 'g \<times> 'g"
  assumes dtor_not_owner: "\<not> owns g \<Longrightarrow> dtor g = Done ()"
    and move_target: "dtor (fst (move g)) = dtor g" "owns (fst (move g)) = owns g"
    and move_source: "\<not> owns (snd (move g))"
begin

lemma move_cleans_once:
  "pbind (dtor (fst (move g))) (\<lambda>_. dtor (snd (move g))) = dtor g"
  using dtor_not_owner [OF move_source] move_target by (simp add: unit_eq)

lemma moves_clean_once: "block (map dtor (moves move n g)) = dtor g"
proof (induction n arbitrary: g)
  case (Suc n)
  have "block (map dtor (moves move (Suc n) g)) = pbind (dtor (fst (move g))) (\<lambda>_. dtor (snd (move g)))"
    by (simp add: block_append Suc)
  then show ?case by (simp add: move_cleans_once)
qed simp

lemma moves_one_owner:
  "length (filter owns (moves move n g)) = (if owns g then 1 else 0)"
  by (induction n arbitrary: g) (simp_all add: move_target move_source)

end

locale assignable_guard = scope_guard owns dtor move
  for owns :: "'g \<Rightarrow> bool" and dtor move +
  fixes assign :: "'g \<Rightarrow> 'g \<Rightarrow> ('g \<times> 'g) prog"
  assumes assign_cleans: "assign a b = pbind (dtor a) (\<lambda>_. Done (move b))"
begin

text \<open>Assigning and then destroying both objects cleans up what each owned, in this order.\<close>

lemma assign_cleans_both:
  "pbind (assign a b) (\<lambda>(x, y). pbind (dtor x) (\<lambda>_. dtor y)) = pbind (dtor a) (\<lambda>_. dtor b)"
  using move_cleans_once [of b] by (simp add: assign_cleans pbind_assoc case_prod_beta)

end

subsection \<open>ProcessGuard\<close>

abbreviation (input) WNOHANG :: int where "WNOHANG \<equiv> 1"
abbreviation (input) SIGKILL :: int where "SIGKILL \<equiv> 9"

record ProcessGuard =
  guard_pid :: int
  released :: bool

definition process_guard :: "int \<Rightarrow> ProcessGuard" where
  "process_guard pid = \<lparr>guard_pid = pid, released = False\<rparr>"

text \<open>The four wait operations; \<open>n\<close> bounds the retries after \<^verbatim>\<open>EINTR\<close>.\<close>

definition guard_wait :: "nat \<Rightarrow> (int \<Rightarrow> call) \<Rightarrow> ProcessGuard \<Rightarrow> answer prog" where
  "guard_wait n c g = (if guard_pid g \<le> 0 then Done (ans (-1)) else retry_eintr n (c (guard_pid g)))"

definition wait_nonblock :: "nat \<Rightarrow> ProcessGuard \<Rightarrow> answer prog" where
  "wait_nonblock n g = guard_wait n (\<lambda>pid. Waitpid pid WNOHANG) g"

definition wait_nonblock_rusage :: "nat \<Rightarrow> ProcessGuard \<Rightarrow> answer prog" where
  "wait_nonblock_rusage n g = guard_wait n (\<lambda>pid. Wait4 pid WNOHANG) g"

definition wait_block :: "nat \<Rightarrow> ProcessGuard \<Rightarrow> answer prog" where
  "wait_block n g = guard_wait n (\<lambda>pid. Waitpid pid 0) g"

definition wait_rusage :: "nat \<Rightarrow> ProcessGuard \<Rightarrow> answer prog" where
  "wait_rusage n g = guard_wait n (\<lambda>pid. Wait4 pid 0) g"

definition guard_kill :: "ProcessGuard \<Rightarrow> bool prog" where
  "guard_kill g =
     (if guard_pid g \<le> 0 then Done False else Call (Kill (guard_pid g) SIGKILL) (\<lambda>a. Done (rv a = 0)))"

definition release :: "ProcessGuard \<Rightarrow> ProcessGuard" where
  "release g = g\<lparr>released := True, guard_pid := -1\<rparr>"

definition process_cleanup :: "nat \<Rightarrow> ProcessGuard \<Rightarrow> unit prog" where
  "process_cleanup n g =
     (if released g \<or> guard_pid g \<le> 0 then Done ()
      else pbind (retry_eintr n (Waitpid (guard_pid g) WNOHANG)) (\<lambda>w.
        if rv w = 0 then
          block [emit (Kill (guard_pid g) SIGKILL),
                 pbind (retry_eintr n (Waitpid (guard_pid g) 0)) (\<lambda>_. Done ())]
        else Done ()))"

definition process_move :: "ProcessGuard \<Rightarrow> ProcessGuard \<times> ProcessGuard" where
  "process_move other =
     (\<lparr>guard_pid = guard_pid other, released = released other\<rparr>, other\<lparr>guard_pid := -1, released := True\<rparr>)"

text \<open>Move assignment between two distinct objects; the guard \<^verbatim>\<open>this != &other\<close> skips the rest.\<close>

definition process_assign :: "nat \<Rightarrow> ProcessGuard \<Rightarrow> ProcessGuard \<Rightarrow> (ProcessGuard \<times> ProcessGuard) prog" where
  "process_assign n this other =
     pbind (process_cleanup n this) (\<lambda>_.
       Done (this\<lparr>guard_pid := guard_pid other, released := released other\<rparr>,
             other\<lparr>guard_pid := -1, released := True\<rparr>))"

definition process_owns :: "ProcessGuard \<Rightarrow> bool" where
  "process_owns g \<longleftrightarrow> \<not> released g \<and> 0 < guard_pid g"

lemma process_move_eq: "process_move g = (g, g\<lparr>guard_pid := -1, released := True\<rparr>)"
  by (cases g) (simp add: process_move_def)

lemma process_assign_eq: "process_assign n a b = pbind (process_cleanup n a) (\<lambda>_. Done (process_move b))"
  by (cases a; cases b) (simp add: process_assign_def process_move_def)

interpretation pg: assignable_guard process_owns "process_cleanup n" process_move "process_assign n" for n
  by unfold_locales (auto simp: process_move_eq process_assign_eq process_owns_def process_cleanup_def)

subsection \<open>AutoCloseFd and DirectoryGuard\<close>

text \<open>\<^verbatim>\<open>AutoCloseFd\<close> can be neither copied nor moved; it is the descriptor it holds.\<close>

definition auto_close :: "int \<Rightarrow> unit prog" where
  "auto_close fd = (if 0 \<le> fd then emit (Close fd) else Done ())"

record DirectoryGuard =
  guard_path :: string
  committed :: bool

definition directory_guard :: "string \<Rightarrow> DirectoryGuard" where
  "directory_guard p = \<lparr>guard_path = p, committed = False\<rparr>"

definition commit :: "DirectoryGuard \<Rightarrow> DirectoryGuard" where
  "commit g = g\<lparr>committed := True\<rparr>"

definition directory_move :: "DirectoryGuard \<Rightarrow> DirectoryGuard \<times> DirectoryGuard" where
  "directory_move other =
     (\<lparr>guard_path = guard_path other, committed = committed other\<rparr>, other\<lparr>guard_path := [], committed := True\<rparr>)"

definition directory_cleanup :: "DirectoryGuard \<Rightarrow> unit prog" where
  "directory_cleanup g =
     (if committed g then Done ()
      else Call (Fs_Exists (guard_path g)) (\<lambda>a. if rv a \<noteq> 0 then emit (Fs_Remove_All (guard_path g)) else Done ()))"

lemma directory_move_eq: "directory_move g = (g, g\<lparr>guard_path := [], committed := True\<rparr>)"
  by (cases g) (simp add: directory_move_def)

interpretation dg: scope_guard "\<lambda>g. \<not> committed g" directory_cleanup directory_move
  by unfold_locales (simp_all add: directory_move_eq directory_cleanup_def)

subsection \<open>What the destructors do\<close>

lemma retry_eintr_returns:
  "runs (retry_eintr n c) tr (Ret a) \<Longrightarrow>
   \<exists>t. tr = t @ [(c, a)] \<and> \<not> (rv a = -1 \<and> er a = EINTR) \<and>
       list_all (\<lambda>e. fst e = c \<and> rv (snd e) = -1 \<and> er (snd e) = EINTR) t"
proof (induction n arbitrary: tr)
  case (Suc n)
  then obtain b u where tr: "tr = (c, b) # u"
    and u: "runs (if rv b = -1 \<and> er b = EINTR then retry_eintr n c else Done b) u (Ret a)"
    by (auto simp: runs_Call_iff)
  show ?case
  proof (cases "rv b = -1 \<and> er b = EINTR")
    case True
    with Suc.IH [of u] u obtain t where "u = t @ [(c, a)]" "\<not> (rv a = -1 \<and> er a = EINTR)"
      "list_all (\<lambda>e. fst e = c \<and> rv (snd e) = -1 \<and> er (snd e) = EINTR) t" by auto
    with True tr show ?thesis by (intro exI [of _ "(c, b) # t"]) simp
  qed (use tr u in auto)
qed simp

text \<open>Enough retries: if the environment interrupts fewer than \<open>n\<close> times, the loop returns.\<close>

lemma retry_eintr_enough:
  assumes "\<not> (rv a = -1 \<and> er a = EINTR)" "length t < n"
    "list_all (\<lambda>e. fst e = c \<and> rv (snd e) = -1 \<and> er (snd e) = EINTR) t"
  shows "runs (retry_eintr n c) (t @ [(c, a)]) (Ret a)"
  using assms(2,3)
proof (induction n arbitrary: t)
  case (Suc n)
  show ?case
  proof (cases t)
    case Nil
    with assms(1) show ?thesis by auto
  next
    case (Cons e u)
    with Suc show ?thesis by (cases e) auto
  qed
qed simp

lemma retry_eintr_calls:
  assumes "runs (retry_eintr n c) tr r" "e \<in> set tr" shows "fst e = c"
proof -
  have "every (\<lambda>d. d = c) (\<lambda>_. True) (\<lambda>_. True) (retry_eintr n c)"
    by (rule every_retry_eintr) simp_all
  from every_calls [OF assms(1) this assms(2)] show ?thesis .
qed

abbreviation interrupted :: "call \<Rightarrow> event list \<Rightarrow> bool" where
  "interrupted c t \<equiv> list_all (\<lambda>e. fst e = c \<and> rv (snd e) = -1 \<and> er (snd e) = EINTR) t"

abbreviation answered :: "answer \<Rightarrow> bool" where
  "answered a \<equiv> \<not> (rv a = -1 \<and> er a = EINTR)"

lemma process_cleanup_returns:
  assumes "process_owns g" "runs (process_cleanup n g) tr (Ret ())"
  shows "\<exists>t w u. interrupted (Waitpid (guard_pid g) WNOHANG) t \<and> answered w \<and>
    tr = t @ (Waitpid (guard_pid g) WNOHANG, w) # u \<and>
    (if rv w = 0
     then \<exists>ka v r. interrupted (Waitpid (guard_pid g) 0) v \<and> answered r \<and>
            u = (Kill (guard_pid g) SIGKILL, ka) # v @ [(Waitpid (guard_pid g) 0, r)]
     else u = [])"
proof -
  let ?p = "guard_pid g"
  from assms obtain w t1 t2 where tr: "tr = t1 @ t2"
    and w: "runs (retry_eintr n (Waitpid ?p WNOHANG)) t1 (Ret w)"
    and rest: "runs (if rv w = 0 then block [emit (Kill ?p SIGKILL),
        pbind (retry_eintr n (Waitpid ?p 0)) (\<lambda>_. Done ())] else Done ()) t2 (Ret ())"
    by (auto simp: process_cleanup_def process_owns_def elim!: runs_pbind_RetE)
  from retry_eintr_returns [OF w] obtain t where t: "t1 = t @ [(Waitpid ?p WNOHANG, w)]" "answered w"
    "interrupted (Waitpid ?p WNOHANG) t" by auto
  have "if rv w = 0
     then \<exists>ka v r. interrupted (Waitpid ?p 0) v \<and> answered r \<and>
            t2 = (Kill ?p SIGKILL, ka) # v @ [(Waitpid ?p 0, r)]
     else t2 = []"
  proof (cases "rv w = 0")
    case True
    with rest obtain ka v r where "t2 = (Kill ?p SIGKILL, ka) # v"
      and v: "runs (retry_eintr n (Waitpid ?p 0)) v (Ret r)"
      by (auto simp: emit_def runs_Call_iff elim!: runs_pbind_RetE)
    with True retry_eintr_returns [OF v] show ?thesis by auto
  qed (use rest in simp)
  then show ?thesis
    using t(2,3) by (intro exI [of _ t] exI [of _ w] exI [of _ t2] conjI) (simp_all add: tr t(1))
qed

text \<open>
  C12. A process guard that owns a child and was moved any number of times: destroying all the objects
  polls the child once (repeating interrupted calls), and when it is still running kills it with
  \<^verbatim>\<open>SIGKILL\<close> and waits for it. So the child is reaped exactly once, whichever objects are destroyed
  in between, and nothing else is waited for or killed.
\<close>

theorem process_guard_reaps_once:
  assumes "process_owns g"
    and "runs (block (map (process_cleanup n) (moves process_move k g))) tr (Ret ())"
  shows "\<exists>t w u. interrupted (Waitpid (guard_pid g) WNOHANG) t \<and> answered w \<and>
    tr = t @ (Waitpid (guard_pid g) WNOHANG, w) # u \<and>
    (if rv w = 0
     then \<exists>ka v r. interrupted (Waitpid (guard_pid g) 0) v \<and> answered r \<and>
            u = (Kill (guard_pid g) SIGKILL, ka) # v @ [(Waitpid (guard_pid g) 0, r)]
     else u = [])"
  using assms process_cleanup_returns by (simp only: pg.moves_clean_once)

theorem process_guard_reaps_once_witness:
  "let g = process_guard 42; c = Waitpid 42 WNOHANG; d = Waitpid 42 0;
       tr = [(c, (ans (-1))\<lparr>er := EINTR\<rparr>), (c, ans 0), (Kill 42 SIGKILL, ans 0), (d, ans 42)]
   in process_owns g \<and> runs (block (map (process_cleanup 2) (moves process_move 3 g))) tr (Ret ()) \<and>
      (\<exists>t w u. interrupted c t \<and> answered w \<and> tr = t @ (c, w) # u)"
proof -
  let ?g = "process_guard 42"
  let ?tr = "[(Waitpid 42 WNOHANG, (ans (-1))\<lparr>er := EINTR\<rparr>), (Waitpid 42 WNOHANG, ans 0),
      (Kill 42 SIGKILL, ans 0), (Waitpid 42 0, ans 42)]"
  have own: "process_owns ?g" by (simp add: process_owns_def process_guard_def)
  have run: "runs (block (map (process_cleanup 2) (moves process_move 3 ?g))) ?tr (Ret ())"
    unfolding pg.moves_clean_once
    by (simp add: process_cleanup_def process_guard_def emit_def numeral_2_eq_2)
  show ?thesis
    using own run process_guard_reaps_once [OF own run] by (auto simp: process_guard_def Let_def)
qed

end
