(* ===== verification/Machine_Floats.thy ===== *)
theory Machine_Floats
  imports Prelude Complex_Main "HOL-Library.Log_Nat"
begin

text \<open>
  The \<^verbatim>\<open>double\<close> arithmetic of the judge core. A finite double is the rational number it
  denotes, and an operation is the exact rational result rounded to 53 significant bits, ties to
  even (\<open>fl\<close>), as IEEE 754 prescribes for values in the normal range; the quantities the program
  computes (milliseconds, kibibytes, quota in microseconds) are far from overflow and underflow.

  What the rest of the development relies on is the interface \<open>rounding\<close>: rounding is monotone,
  exact on integers up to \<open>2^53\<close> and has a relative error of at most \<open>2^-53\<close>.
\<close>

subsection \<open>Rounding\<close>

definition round_half_even :: "rat \<Rightarrow> int" where
  "round_half_even x =
     (let n = \<lfloor>x\<rfloor>; d = x - of_int n
      in if d < 1 / 2 then n else if 1 / 2 < d then n + 1 else if even n then n else n + 1)"

text \<open>The binary exponent of a positive rational: \<open>2^e \<le> x < 2^(e + 1)\<close>.\<close>

definition exponent :: "rat \<Rightarrow> int" where
  "exponent x =
     (case quotient_of x of (a, b) \<Rightarrow>
        let k = bitlen a - bitlen b in if 2 powi k \<le> x then k else k - 1)"

definition ulp :: "rat \<Rightarrow> rat" where
  "ulp x = 2 powi (exponent x - 52)"

definition fl_pos :: "rat \<Rightarrow> rat" where
  "fl_pos x = of_int (round_half_even (x / ulp x)) * ulp x"

definition fl :: "rat \<Rightarrow> rat" where
  "fl x = (if x = 0 then 0 else if 0 < x then fl_pos x else - fl_pos (- x))"

text \<open>\<^verbatim>\<open>std::llround\<close>: half away from zero.\<close>

definition llround :: "rat \<Rightarrow> int" where
  "llround x = (if 0 \<le> x then \<lfloor>x + 1 / 2\<rfloor> else - \<lfloor>1 / 2 - x\<rfloor>)"

subsection \<open>Laws\<close>

lemma round_half_even_bounds: "\<lfloor>x\<rfloor> \<le> round_half_even x" "round_half_even x \<le> \<lfloor>x\<rfloor> + 1"
  by (simp_all add: round_half_even_def Let_def)

lemma round_half_even_of_int [simp]: "round_half_even (of_int n) = n"
  by (simp add: round_half_even_def)

lemma round_half_even_mono:
  assumes "x \<le> y" shows "round_half_even x \<le> round_half_even y"
proof (cases "\<lfloor>x\<rfloor> = \<lfloor>y\<rfloor>")
  case True
  then show ?thesis using assms by (simp add: round_half_even_def Let_def)
next
  case False
  with floor_mono [OF assms] show ?thesis
    using round_half_even_bounds [of x] round_half_even_bounds [of y] by linarith
qed

lemma round_half_even_error: "\<bar>of_int (round_half_even x) - x\<bar> \<le> 1 / 2"
  by (simp add: round_half_even_def Let_def abs_if) (linarith)

lemma two_powi_nat: "2 powi (int n) = (2 ^ n :: rat)"
  by simp

lemma exponent_bounds:
  assumes "0 < x" shows "2 powi exponent x \<le> x" "x < 2 powi (exponent x + 1)"
proof -
  obtain a b where q: "quotient_of x = (a, b)" by (cases "quotient_of x")
  from q assms have b: "0 < b" and x: "x = of_int a / of_int b"
    using quotient_of_denom_pos quotient_of_div by blast+
  with assms have a: "0 < a" by (simp add: zero_less_divide_iff)
  define m n where "m = bitlen a" and "n = bitlen b"
  have m: "2 ^ nat (m - 1) \<le> a" "a < 2 ^ nat m" "1 \<le> m"
    using bitlen_bounds [OF a] bitlen_eq_zero_iff [of a] bitlen_nonneg [of a] a by (auto simp: m_def)
  have n: "2 ^ nat (n - 1) \<le> b" "b < 2 ^ nat n" "1 \<le> n"
    using bitlen_bounds [OF b] bitlen_eq_zero_iff [of b] bitlen_nonneg [of b] b by (auto simp: n_def)
  have "(of_int (2 ^ nat (m - 1)) :: rat) \<le> of_int a" "(of_int a :: rat) < of_int (2 ^ nat m)"
    "(of_int (2 ^ nat (n - 1)) :: rat) \<le> of_int b" "(of_int b :: rat) < of_int (2 ^ nat n)"
    using m n by (simp_all only: of_int_le_iff of_int_less_iff)
  then have r: "2 powi (m - 1) \<le> (of_int a :: rat)" "(of_int a :: rat) < 2 powi m"
    "2 powi (n - 1) \<le> (of_int b :: rat)" "(of_int b :: rat) < 2 powi n"
    using m(3) n(3) by (simp_all add: power_int_def)
  have p: "(0 :: rat) < 2 powi i" for i by simp
  have lo: "2 powi (m - n - 1) \<le> x"
  proof -
    have "2 powi (m - n - 1) * of_int b \<le> 2 powi (m - n - 1) * (2 powi n :: rat)"
      using r(4) p by (intro mult_left_mono) auto
    also have "\<dots> = 2 powi (m - 1)" by (simp flip: power_int_add)
    finally show ?thesis using r(1) b by (simp add: x field_simps)
  qed
  have hi: "x < 2 powi (m - n + 1)"
  proof -
    have "(2 powi m :: rat) = 2 powi (m - n + 1) * 2 powi (n - 1)" by (simp flip: power_int_add)
    also have "\<dots> \<le> 2 powi (m - n + 1) * of_int b"
      using r(3) p by (intro mult_left_mono) auto
    finally show ?thesis using r(2) b by (simp add: x field_simps)
  qed
  show "2 powi exponent x \<le> x" "x < 2 powi (exponent x + 1)"
    using lo hi by (auto simp: exponent_def q m_def n_def Let_def)
qed

lemma ulp_pos [simp]: "0 < ulp x" "ulp x \<noteq> 0" "0 \<le> ulp x" "\<bar>ulp x\<bar> = ulp x"
  by (simp_all add: ulp_def)

lemma scaled_bounds:
  assumes "0 < x"
  shows "2 ^ 52 \<le> x / ulp x" "x / ulp x < 2 ^ 53"
proof -
  have "(2 powi exponent x :: rat) = 2 ^ 52 * ulp x" "(2 powi (exponent x + 1) :: rat) = 2 ^ 53 * ulp x"
    by (simp_all add: ulp_def power_int_diff power_int_add)
  with exponent_bounds [OF assms] show "2 ^ 52 \<le> x / ulp x" "x / ulp x < 2 ^ 53"
    by (simp_all add: pos_le_divide_eq pos_divide_less_eq)
qed

lemma fl_pos_range:
  assumes "0 < x"
  shows "2 powi exponent x \<le> fl_pos x" "fl_pos x \<le> 2 powi (exponent x + 1)"
proof -
  have "round_half_even (of_int (2 ^ 52)) \<le> round_half_even (x / ulp x)"
    "round_half_even (x / ulp x) \<le> round_half_even (of_int (2 ^ 53))"
    using scaled_bounds [OF assms] by (auto intro!: round_half_even_mono)
  then have "(2 :: int) ^ 52 \<le> round_half_even (x / ulp x)" "round_half_even (x / ulp x) \<le> 2 ^ 53"
    by (simp_all only: round_half_even_of_int)
  then have "(of_int (2 ^ 52) :: rat) \<le> of_int (round_half_even (x / ulp x))"
    "(of_int (round_half_even (x / ulp x)) :: rat) \<le> of_int (2 ^ 53)"
    by (simp_all only: of_int_le_iff)
  then have "2 ^ 52 * ulp x \<le> fl_pos x" "fl_pos x \<le> 2 ^ 53 * ulp x"
    unfolding fl_pos_def by (simp_all add: mult_right_mono)
  then show "2 powi exponent x \<le> fl_pos x" "fl_pos x \<le> 2 powi (exponent x + 1)"
    by (simp_all add: ulp_def power_int_diff power_int_add)
qed

lemma powi_less_iff: "(2 :: rat) powi i < 2 powi j \<longleftrightarrow> i < j"
  by (metis linorder_not_less one_le_numeral one_less_numeral_iff power_int_increasing
      power_int_strict_increasing semiring_norm(76))

lemma fl_pos_mono:
  assumes "0 < x" "x \<le> y" shows "fl_pos x \<le> fl_pos y"
proof (cases "exponent x = exponent y")
  case True
  then have "ulp x = ulp y" by (simp add: ulp_def)
  then show ?thesis
    using assms by (auto simp: fl_pos_def intro!: mult_right_mono round_half_even_mono divide_right_mono)
next
  case False
  have "(2 :: rat) powi exponent x < 2 powi (exponent y + 1)"
    using exponent_bounds [of x] exponent_bounds [of y] assms by linarith
  then have "exponent x + 1 \<le> exponent y" using False by (simp add: powi_less_iff)
  then have "(2 :: rat) powi (exponent x + 1) \<le> 2 powi exponent y"
    by (intro power_int_increasing) simp_all
  then show ?thesis using fl_pos_range [of x] fl_pos_range [of y] assms by linarith
qed

lemma fl_pos_nonneg: "0 < x \<Longrightarrow> 0 < fl_pos x"
  using fl_pos_range(1) [of x] zero_less_power_int [of "2::rat"] by (metis less_le_trans zero_less_numeral)

lemma fl_mono: "x \<le> y \<Longrightarrow> fl x \<le> fl y"
  using fl_pos_mono [of x y] fl_pos_mono [of "- y" "- x"] fl_pos_nonneg [of y] fl_pos_nonneg [of "- x"]
  by (auto simp: fl_def)

lemma fl_pos_error:
  assumes "0 < x" shows "\<bar>fl_pos x - x\<bar> \<le> x / 2 ^ 53"
proof -
  have "fl_pos x - x = (of_int (round_half_even (x / ulp x)) - x / ulp x) * ulp x"
    by (simp add: fl_pos_def algebra_simps)
  then have "\<bar>fl_pos x - x\<bar> = \<bar>of_int (round_half_even (x / ulp x)) - x / ulp x\<bar> * ulp x"
    by (simp add: abs_mult)
  also have "\<dots> \<le> 1 / 2 * ulp x"
    using round_half_even_error by (rule mult_right_mono) simp
  also have "\<dots> \<le> x / 2 ^ 53"
    using scaled_bounds(1) [OF assms] by (simp add: pos_le_divide_eq)
  finally show ?thesis .
qed

lemma fl_error: "\<bar>fl x - x\<bar> \<le> \<bar>x\<bar> / 2 ^ 53"
proof (cases "0 < x \<or> x = 0")
  case True
  then show ?thesis using fl_pos_error [of x] by (auto simp: fl_def)
next
  case False
  then have "\<bar>fl x - x\<bar> = \<bar>fl_pos (- x) - (- x)\<bar>" by (simp add: fl_def abs_minus_commute)
  also have "\<dots> \<le> \<bar>x\<bar> / 2 ^ 53" using fl_pos_error [of "- x"] False by simp
  finally show ?thesis .
qed

lemma exponent_less:
  assumes "0 < x" "x < 2 ^ n" shows "exponent x < int n"
proof -
  have "(2 :: rat) powi exponent x < 2 powi int n"
    using exponent_bounds(1) [OF assms(1)] assms(2) by simp
  then show ?thesis by (simp only: powi_less_iff)
qed

lemma fl_pos_of_int:
  assumes "0 < n" "n < 2 ^ 53" shows "fl_pos (of_int n) = of_int n"
proof -
  have "exponent (of_int n) < int 53"
  proof (rule exponent_less)
    have "(of_int n :: rat) < of_int (2 ^ 53)" using assms(2) by (simp only: of_int_less_iff)
    then show "(of_int n :: rat) < 2 ^ 53" by simp
  qed (use assms in simp)
  then have "1 / ulp (of_int n) = of_int (2 ^ nat (52 - exponent (of_int n)))"
    by (simp add: ulp_def power_int_def divide_simps nat_diff_distrib power_inverse)
  then have "of_int n / ulp (of_int n) = of_int (n * 2 ^ nat (52 - exponent (of_int n)))"
    by (simp add: divide_simps)
  then have "of_int (round_half_even (of_int n / ulp (of_int n))) = of_int n / ulp (of_int n)"
    by (simp only: round_half_even_of_int)
  then show ?thesis by (simp add: fl_pos_def)
qed

lemma fl_of_int: "\<bar>n\<bar> < 2 ^ 53 \<Longrightarrow> fl (of_int n) = of_int n"
  using fl_pos_of_int [of n] fl_pos_of_int [of "- n"] by (auto simp: fl_def)

subsection \<open>The interface of rounded arithmetic\<close>

locale rounding =
  fixes rnd :: "rat \<Rightarrow> rat"
  assumes rnd_mono: "x \<le> y \<Longrightarrow> rnd x \<le> rnd y"
    and rnd_of_int: "\<bar>n\<bar> < 2 ^ 53 \<Longrightarrow> rnd (of_int n) = of_int n"
    and rnd_error: "\<bar>rnd x - x\<bar> \<le> \<bar>x\<bar> / 2 ^ 53"
begin

lemma rnd_le_int: "x \<le> of_int n \<Longrightarrow> \<bar>n\<bar> < 2 ^ 53 \<Longrightarrow> rnd x \<le> of_int n"
  using rnd_mono rnd_of_int by metis

lemma rnd_ge_int: "of_int n \<le> x \<Longrightarrow> \<bar>n\<bar> < 2 ^ 53 \<Longrightarrow> of_int n \<le> rnd x"
  using rnd_mono rnd_of_int by metis

lemma rnd_nonneg: "0 \<le> x \<Longrightarrow> 0 \<le> rnd x"
  using rnd_ge_int [of 0 x] by simp

lemma rnd_close: "\<bar>x\<bar> \<le> b \<Longrightarrow> \<bar>rnd x - x\<bar> \<le> b / 2 ^ 53"
  using rnd_error [of x] by (rule order_trans) (simp add: divide_right_mono)

text \<open>
  Rounding up a value that was computed with a small error, when the exact value is a multiple of
  \<open>1/k\<close>: the ceiling is never too small, and too large by one at most when the exact value is an
  integer.
\<close>

lemma ceiling_perturbed:
  fixes x y :: rat
  assumes "\<bar>y - x\<bar> < 1 / of_int k" "x = of_int i / of_int k" "0 < k"
  shows "\<lceil>x\<rceil> \<le> \<lceil>y\<rceil>" "\<lceil>y\<rceil> \<le> \<lceil>x\<rceil> + (if i mod k = 0 then 1 else 0)"
proof -
  define n where "n = \<lceil>x\<rceil>"
  have x: "x * of_int k = of_int i" using assms by simp
  have "of_int n - 1 < x" "x \<le> of_int n" by (simp_all add: n_def) linarith
  then have "(of_int n - 1) * of_int k < (of_int i :: rat)" "(of_int i :: rat) \<le> of_int n * of_int k"
    using assms(3) unfolding x [symmetric] by (simp_all add: mult_strict_right_mono mult_right_mono)
  then have "(of_int ((n - 1) * k) :: rat) < of_int i" "(of_int i :: rat) \<le> of_int (n * k)"
    by simp_all
  then have i: "(n - 1) * k + 1 \<le> i" "i \<le> n * k"
    by (simp_all only: of_int_less_iff of_int_le_iff)
  have y: "x * of_int k - 1 < y * of_int k" "y * of_int k < x * of_int k + 1"
    using assms(1,3) by (auto simp: abs_less_iff field_simps)
  have "(of_int ((n - 1) * k) :: rat) \<le> of_int (i - 1)" using i(1) by (simp only: of_int_le_iff)
  then have "(of_int n - 1) * of_int k < y * of_int k" using y(1) x by simp
  then have "of_int n - 1 < y" using assms(3) by (simp add: mult_less_cancel_right)
  then show "\<lceil>x\<rceil> \<le> \<lceil>y\<rceil>" unfolding n_def [symmetric] by linarith
  show "\<lceil>y\<rceil> \<le> \<lceil>x\<rceil> + (if i mod k = 0 then 1 else 0)"
  proof (cases "i mod k = 0")
    case True
    have "1 / of_int k \<le> (1 :: rat)" using assms(3) by simp
    with assms(1) have "y < x + 1" by linarith
    then show ?thesis using True by simp linarith
  next
    case False
    then have "i \<noteq> n * k" by auto
    then have "(of_int (i + 1) :: rat) \<le> of_int (n * k)" using i(2) by (simp only: of_int_le_iff)
    then have "y * of_int k < of_int n * of_int k" using y(2) x by simp
    then have "y < of_int n" using assms(3) by (simp add: mult_less_cancel_right)
    then show ?thesis using False by (simp add: n_def [symmetric] ceiling_le_iff less_imp_le)
  qed
qed

end

interpretation ieee: rounding fl
  by unfold_locales (fact fl_mono fl_of_int fl_error)+

end
