(* ===== verification/Cgroup_Manager.thy ===== *)
theory Cgroup_Manager
  imports Guards Machine_Floats
begin

unbundle bit_operations_syntax

text \<open>
  \<^verbatim>\<open>src/core/worker/cgroup_manager.cpp\<close> and \<^verbatim>\<open>.h\<close>: the cgroup v2 directory of one run. The object is
  the record \<open>CgroupManager\<close>; every operation is a program that returns its result together with
  the updated object where it changes it. Control files are written through a \<^verbatim>\<open>std::ofstream\<close>
  (\<open>Ofs_Open\<close>, \<open>Ofs_Put\<close>, then \<open>Ofs_Close\<close> in the destructor of the stream) and only the first line
  of a file is ever read.
\<close>

subsection \<open>The object and its life cycle\<close>

record CgroupManager =
  cgroup_root :: string
  job_id :: string
  cgroup_path :: string
  created :: bool

definition new_cgroup :: "string \<Rightarrow> string \<Rightarrow> CgroupManager" where
  "new_cgroup dir jid =
     \<lparr>cgroup_root = dir, job_id = jid, cgroup_path = dir @ ''/'' @ jid, created = False\<rparr>"

text \<open>A moved-from \<^verbatim>\<open>std::string\<close> is empty.\<close>

definition cgroup_move :: "CgroupManager \<Rightarrow> CgroupManager \<times> CgroupManager" where
  "cgroup_move other =
     (\<lparr>cgroup_root = cgroup_root other, job_id = job_id other, cgroup_path = cgroup_path other,
       created = created other\<rparr>,
      other\<lparr>cgroup_root := [], job_id := [], cgroup_path := [], created := False\<rparr>)"

subsection \<open>Files\<close>

definition WriteToFile :: "string \<Rightarrow> string \<Rightarrow> bool prog" where
  "WriteToFile path value =
     Call (Ofs_Open path) (\<lambda>a.
       if rv a = 0 then Done False
       else Call (Ofs_Put path value) (\<lambda>b.
         Call (Ofs_Close path) (\<lambda>_. Done (rv b \<noteq> 0))))"

text \<open>\<^verbatim>\<open>std::getline\<close>: everything before the first newline.\<close>

definition first_line :: "string \<Rightarrow> string" where
  "first_line s = takeWhile (\<lambda>c. c \<noteq> CHR 0x0A) s"

definition ReadFromFile :: "string \<Rightarrow> string prog" where
  "ReadFromFile path =
     Call (Read_File path) (\<lambda>a. case body a of None \<Rightarrow> Done [] | Some content \<Rightarrow> Done (first_line content))"

subsection \<open>Mount point\<close>

abbreviation (input) CGROUP2_SUPER_MAGIC :: int where "CGROUP2_SUPER_MAGIC \<equiv> 0x63677270"

text \<open>\<^verbatim>\<open>fs::exists(p)\<close> without an error code throws when the status cannot be read.\<close>

definition fs_exists_throwing :: "string \<Rightarrow> bool prog" where
  "fs_exists_throwing p =
     Call (Fs_Exists p) (\<lambda>a. if er a \<noteq> 0 then Stop (Threw Filesystem_Error) else Done (rv a \<noteq> 0))"

fun first_cgroup2_root :: "string list \<Rightarrow> string prog" where
  "first_cgroup2_root [] = Done []"
| "first_cgroup2_root (mnt # rest) =
     Call (Statfs mnt) (\<lambda>a.
       if rv a \<noteq> 0 then first_cgroup2_root rest
       else if out a \<noteq> CGROUP2_SUPER_MAGIC then first_cgroup2_root rest
       else pbind (fs_exists_throwing (mnt @ ''/cgroup.controllers''))
         (\<lambda>found. if \<not> found then first_cgroup2_root rest else Done mnt))"

definition GetCgroup2MountRoot :: "string prog" where
  "GetCgroup2MountRoot = first_cgroup2_root [''/sys/fs/cgroup/unified'', ''/sys/fs/cgroup'']"

definition IsSupported :: "bool prog" where
  "IsSupported = pbind GetCgroup2MountRoot (\<lambda>r. Done (r \<noteq> []))"

subsection \<open>Creation\<close>

text \<open>\<^verbatim>\<open>std::string::find\<close> of a controller name: a substring anywhere.\<close>

fun contains :: "string \<Rightarrow> string \<Rightarrow> bool" where
  "contains raw w = (prefix w raw \<or> (case raw of [] \<Rightarrow> False | _ # cs \<Rightarrow> contains cs w))"

declare contains.simps [simp del]

definition wanted_controllers :: "string list" where
  "wanted_controllers = [''memory'', ''pids'', ''cpu'', ''io'']"

definition buildControllerEnableList :: "string \<Rightarrow> string" where
  "buildControllerEnableList raw =
     foldl (\<lambda>out controller.
       if \<not> contains raw controller then out
       else (if out \<noteq> [] then out @ '' '' else out) @ ''+'' @ controller) [] wanted_controllers"

text \<open>\<^verbatim>\<open>fs::path::parent_path\<close> of a path of the form the program builds.\<close>

definition strip_slashes :: "string \<Rightarrow> string" where
  "strip_slashes s = rev (dropWhile (\<lambda>c. c = slash) (rev s))"

definition parent_path :: "string \<Rightarrow> string" where
  "parent_path p =
     (case strrchr p slash of
        None \<Rightarrow> []
      | Some (a, _) \<Rightarrow> (let t = strip_slashes a in if t = [] then ''/'' else t))"

definition enable_controllers :: "CgroupManager \<Rightarrow> bool prog" where
  "enable_controllers m =
     (let parent = parent_path (cgroup_root m) in
      pbind (ReadFromFile (parent @ ''/cgroup.controllers'')) (\<lambda>parentControllers.
      let enableParent = buildControllerEnableList parentControllers in
      pbind (if enableParent \<noteq> [] then WriteToFile (parent @ ''/cgroup.subtree_control'') enableParent
             else Done True) (\<lambda>_.
      pbind (ReadFromFile (cgroup_root m @ ''/cgroup.controllers'')) (\<lambda>ourControllers.
      let enableOur = buildControllerEnableList ourControllers in
      if enableOur = [] then Done False
      else WriteToFile (cgroup_root m @ ''/cgroup.subtree_control'') enableOur))))"

definition EnsureParentReady :: "CgroupManager \<Rightarrow> bool prog" where
  "EnsureParentReady m =
     Call (Fs_Exists (cgroup_root m)) (\<lambda>a.
       if rv a = 0 then
         Call (Fs_Create_Directories (cgroup_root m)) (\<lambda>b.
           if rv b = 0 then Done False else enable_controllers m)
       else enable_controllers m)"

definition cgroup_Create :: "CgroupManager \<Rightarrow> (bool \<times> CgroupManager) prog" where
  "cgroup_Create m =
     (if created m then Done (True, m)
      else pbind (EnsureParentReady m) (\<lambda>ready.
        if \<not> ready then Done (False, m)
        else Call (Fs_Create_Directories (cgroup_path m)) (\<lambda>a.
          if rv a = 0 \<and> er a \<noteq> 0 then Done (False, m)
          else Done (True, m\<lparr>created := True\<rparr>))))"

subsection \<open>Limits\<close>

definition SetMemoryLimit :: "CgroupManager \<Rightarrow> 64 word \<Rightarrow> bool \<Rightarrow> bool prog" where
  "SetMemoryLimit m nbytes disable_swap =
     (if \<not> created m then Done False
      else pbind (WriteToFile (cgroup_path m @ ''/memory.max'') (dec_int (uint nbytes))) (\<lambda>good.
        if \<not> good then Done False
        else if disable_swap then pbind (WriteToFile (cgroup_path m @ ''/memory.swap.max'') ''0'') (\<lambda>_. Done True)
        else Done True))"

definition SetPidsLimit :: "CgroupManager \<Rightarrow> int \<Rightarrow> bool prog" where
  "SetPidsLimit m max_pids =
     (if \<not> created m then Done False
      else WriteToFile (cgroup_path m @ ''/pids.max'') (dec_int max_pids))"

abbreviation (input) period_us :: int where "period_us \<equiv> 100000"

definition quota_us :: "rat \<Rightarrow> int" where
  "quota_us max_cores =
     (let q = llround (fl (max_cores * of_int period_us)) in if q < 1000 then 1000 else q)"

definition SetCPULimit :: "CgroupManager \<Rightarrow> rat \<Rightarrow> bool prog" where
  "SetCPULimit m max_cores =
     (if \<not> created m then Done False
      else if max_cores \<le> 0 then Done False
      else WriteToFile (cgroup_path m @ ''/cpu.max'') (dec_int (quota_us max_cores) @ '' '' @ dec_int period_us))"

text \<open>The macros \<^verbatim>\<open>major\<close> and \<^verbatim>\<open>minor\<close> of \<^verbatim>\<open>sys/sysmacros.h\<close>.\<close>

definition dev_major :: "64 word \<Rightarrow> 32 word" where
  "dev_major d = ucast (drop_bit 8 (d AND 0xFFF00) OR drop_bit 32 (d AND 0xFFFFF00000000000))"

definition dev_minor :: "64 word \<Rightarrow> 32 word" where
  "dev_minor d = ucast (d AND 0xFF OR drop_bit 12 (d AND 0xFFFFFF00000))"

definition io_max_line :: "64 word \<Rightarrow> int \<Rightarrow> int \<Rightarrow> string" where
  "io_max_line dev read_bps write_bps =
     dec_int (uint (dev_major dev)) @ '':'' @ dec_int (uint (dev_minor dev))
     @ (if 0 < read_bps then '' rbps='' @ dec_int read_bps else [])
     @ (if 0 < write_bps then '' wbps='' @ dec_int write_bps else [])"

definition SetIOLimit :: "CgroupManager \<Rightarrow> int \<Rightarrow> int \<Rightarrow> string \<Rightarrow> bool prog" where
  "SetIOLimit m read_bps write_bps target_path =
     (if \<not> created m then Done False
      else if read_bps \<le> 0 \<and> write_bps \<le> 0 then Done True
      else Call (Stat target_path) (\<lambda>a.
        if rv a \<noteq> 0 then Done False
        else WriteToFile (cgroup_path m @ ''/io.max'') (io_max_line (word_of_int (out a)) read_bps write_bps)))"

definition AddProcess :: "CgroupManager \<Rightarrow> int \<Rightarrow> bool prog" where
  "AddProcess m pid =
     (if \<not> created m then Done False
      else WriteToFile (cgroup_path m @ ''/cgroup.procs'') (dec_int pid))"

subsection \<open>Accounting\<close>

definition GetMemoryCurrent :: "CgroupManager \<Rightarrow> 64 word prog" where
  "GetMemoryCurrent m =
     (if \<not> created m then Done 0
      else pbind (ReadFromFile (cgroup_path m @ ''/memory.current'')) (\<lambda>val.
        if val \<noteq> [] then (case stoull val of Inr v \<Rightarrow> Done v | Inl _ \<Rightarrow> Done 0) else Done 0))"

definition GetMemoryPeak :: "CgroupManager \<Rightarrow> 64 word prog" where
  "GetMemoryPeak m =
     (if \<not> created m then Done 0
      else pbind (ReadFromFile (cgroup_path m @ ''/memory.peak'')) (\<lambda>val.
        if val \<noteq> [] then (case stoull val of Inr v \<Rightarrow> Done v | Inl _ \<Rightarrow> GetMemoryCurrent m)
        else GetMemoryCurrent m))"

subsection \<open>Destruction\<close>

lemma scan_int_shorter: "scan_int s = Some (neg, m, t) \<Longrightarrow> length t < length s"
proof -
  assume a: "scan_int s = Some (neg, m, t)"
  let ?r = "snd (scan_sign (dropWhile isspace s))"
  have "length ?r \<le> length (dropWhile isspace s)"
    by (auto simp: scan_sign_def split: list.splits)
  also have "\<dots> \<le> length s" by (rule length_dropWhile_le)
  finally have r: "length ?r \<le> length s" .
  from a have "takeWhile isdigit ?r \<noteq> []" "t = dropWhile isdigit ?r"
    by (auto simp: scan_int_def scan_digits_def split: prod.splits option.splits if_splits)
  moreover have "length (takeWhile isdigit ?r) + length (dropWhile isdigit ?r) = length ?r"
    by (metis length_append takeWhile_dropWhile_id)
  ultimately show "length t < length s" using r by (cases "takeWhile isdigit ?r") auto
qed

text \<open>\<^verbatim>\<open>while (iss >> pid)\<close>: the numbers that can be extracted, up to the first failure.\<close>

function stream_ints :: "string \<Rightarrow> int list" where
  "stream_ints s =
     (case scan_int s of
        None \<Rightarrow> []
      | Some (neg, m, t) \<Rightarrow>
          (let v = signed_val neg m
           in if - (2 ^ 31) \<le> v \<and> v < 2 ^ 31 then v # stream_ints t else []))"
  by pat_completeness auto
termination
  by (relation "measure length") (auto dest: scan_int_shorter)

declare stream_ints.simps [simp del]

definition KillAllProcesses :: "CgroupManager \<Rightarrow> unit prog" where
  "KillAllProcesses m =
     pbind (ReadFromFile (cgroup_path m @ ''/cgroup.procs'')) (\<lambda>procs.
       if procs = [] then Done ()
       else block (map (\<lambda>pid. emit (Kill pid SIGKILL)) (filter (\<lambda>pid. 0 < pid) (stream_ints procs))))"

definition cgroup_Destroy :: "CgroupManager \<Rightarrow> CgroupManager prog" where
  "cgroup_Destroy m =
     (if \<not> created m then Done m
      else pbind (block [KillAllProcesses m, emit (Usleep 50000), KillAllProcesses m, emit (Usleep 10000)]) (\<lambda>_.
        Call (Fs_Remove (cgroup_path m)) (\<lambda>a.
          pbind (if rv a \<noteq> 0 then Done ()
                 else block [emit (Usleep 100000), KillAllProcesses m, emit (Usleep 50000),
                             emit (Fs_Remove (cgroup_path m))])
            (\<lambda>_. Done (m\<lparr>created := False\<rparr>)))))"

definition cgroup_dtor :: "CgroupManager \<Rightarrow> unit prog" where
  "cgroup_dtor m = (if created m then pbind (cgroup_Destroy m) (\<lambda>_. Done ()) else Done ())"

definition cgroup_assign :: "CgroupManager \<Rightarrow> CgroupManager \<Rightarrow> (CgroupManager \<times> CgroupManager) prog" where
  "cgroup_assign this other =
     pbind (if created this then cgroup_Destroy this else Done this) (\<lambda>this.
       Done (this\<lparr>cgroup_root := cgroup_root other, job_id := job_id other,
                  cgroup_path := cgroup_path other, created := created other\<rparr>,
             other\<lparr>cgroup_root := [], job_id := [], cgroup_path := [], created := False\<rparr>))"

lemmas cgroup_defs [prog_defs] =
  WriteToFile_def ReadFromFile_def fs_exists_throwing_def GetCgroup2MountRoot_def
  enable_controllers_def EnsureParentReady_def cgroup_Create_def SetMemoryLimit_def SetPidsLimit_def
  SetCPULimit_def SetIOLimit_def AddProcess_def GetMemoryCurrent_def GetMemoryPeak_def
  KillAllProcesses_def cgroup_Destroy_def cgroup_dtor_def

subsection \<open>Ownership\<close>

lemma cgroup_move_eq:
  "cgroup_move m = (m, m\<lparr>cgroup_root := [], job_id := [], cgroup_path := [], created := False\<rparr>)"
  by (cases m) (simp add: cgroup_move_def)

lemma cgroup_assign_eq: "cgroup_assign a b = pbind (cgroup_dtor a) (\<lambda>_. Done (cgroup_move b))"
proof -
  have upd: "x\<lparr>cgroup_root := cgroup_root b, job_id := job_id b, cgroup_path := cgroup_path b, created := created b\<rparr> = b"
    for x :: CgroupManager
    by (cases x; cases b) simp
  show ?thesis by (simp add: cgroup_assign_def cgroup_dtor_def cgroup_move_eq pbind_assoc upd)
qed

interpretation cm: assignable_guard created cgroup_dtor cgroup_move cgroup_assign
  by unfold_locales (auto simp: cgroup_move_eq cgroup_assign_eq cgroup_dtor_def)

lemma not_created_eq: "\<not> created m \<Longrightarrow> m\<lparr>created := False\<rparr> = (m :: CgroupManager)"
  by (cases m) simp

lemma cgroup_Destroy_Ret:
  assumes "runs (cgroup_Destroy m) tr (Ret m')" shows "m' = m\<lparr>created := False\<rparr>"
proof -
  have t: "every (\<lambda>_. True) (\<lambda>_. True) (\<lambda>_. True) p" for p :: "'b prog" by (induction p) simp_all
  have "every (\<lambda>_. True) (\<lambda>_. True) (\<lambda>m'. m' = m\<lparr>created := False\<rparr>) (cgroup_Destroy m)"
    unfolding cgroup_Destroy_def by (auto intro!: every_unit_pbind t simp: not_created_eq)
  from every_rets [OF assms this] show ?thesis .
qed

lemma cgroup_Create_Ret:
  assumes "\<not> created m" "runs (cgroup_Create m) tr (Ret (b, m'))"
  shows "m' = m\<lparr>created := b\<rparr>"
proof -
  have t: "every (\<lambda>_. True) (\<lambda>_. True) (\<lambda>_. True) p" for p :: "'b prog" by (induction p) simp_all
  have "every (\<lambda>_. True) (\<lambda>_. True) (\<lambda>(b, m'). m' = m\<lparr>created := b\<rparr>) (cgroup_Create m)"
    unfolding cgroup_Create_def using assms(1) by (auto intro!: every_unit_pbind t simp: not_created_eq)
  from every_rets [OF assms(2) this] show ?thesis by simp
qed

subsection \<open>Files that are touched\<close>

definition in_dir :: "string \<Rightarrow> string \<Rightarrow> bool" where
  "in_dir d p \<longleftrightarrow> prefix (d @ ''/'') p"

lemma in_dir_append [simp]: "in_dir d (d @ CHR ''/'' # s)"
  by (simp add: in_dir_def)

fun call_path :: "call \<Rightarrow> string option" where
  "call_path (Ofs_Open p) = Some p"
| "call_path (Ofs_Put p _) = Some p"
| "call_path (Ofs_Close p) = Some p"
| "call_path (Read_File p) = Some p"
| "call_path (Fs_Exists p) = Some p"
| "call_path (Fs_Create_Directories p) = Some p"
| "call_path (Fs_Remove p) = Some p"
| "call_path (Fs_Remove_All p) = Some p"
| "call_path (Fs_File_Size p) = Some p"
| "call_path _ = None"

text \<open>The calls of a manager whose files are those in \<open>P\<close>; it also kills, sleeps and asks for device numbers.\<close>

definition manager_call :: "(string \<Rightarrow> bool) \<Rightarrow> call \<Rightarrow> bool" where
  "manager_call P c \<longleftrightarrow>
     (case call_path c of
        Some p \<Rightarrow> P p
      | None \<Rightarrow> (case c of Kill pid s \<Rightarrow> 0 < pid \<and> s = SIGKILL | Usleep _ \<Rightarrow> True | Stat _ \<Rightarrow> True | _ \<Rightarrow> False))"

lemma manager_call_simps [simp]:
  "manager_call P (Ofs_Open p) = P p" "manager_call P (Ofs_Put p v) = P p"
  "manager_call P (Ofs_Close p) = P p" "manager_call P (Read_File p) = P p"
  "manager_call P (Fs_Exists p) = P p" "manager_call P (Fs_Create_Directories p) = P p"
  "manager_call P (Fs_Remove p) = P p" "manager_call P (Usleep n)" "manager_call P (Stat q)"
  "manager_call P (Kill pid s) \<longleftrightarrow> 0 < pid \<and> s = SIGKILL"
  by (simp_all add: manager_call_def)

lemma every_WriteToFile [simp]:
  "every (manager_call P) E (\<lambda>_. True) (WriteToFile p v) \<longleftrightarrow> P p"
  by (auto simp: WriteToFile_def)

lemma every_ReadFromFile [simp]:
  "every (manager_call P) E (\<lambda>_. True) (ReadFromFile p) \<longleftrightarrow> P p"
  by (auto simp: ReadFromFile_def split: option.split)

lemma every_KillAll:
  "P (cgroup_path m @ ''/cgroup.procs'') \<Longrightarrow> every (manager_call P) E (\<lambda>_. True) (KillAllProcesses m)"
  unfolding KillAllProcesses_def
  by (intro every_unit_pbind) (auto simp: list_all_iff intro!: every_block)

abbreviation manages :: "(string \<Rightarrow> bool) \<Rightarrow> 'a prog \<Rightarrow> bool" where
  "manages P \<equiv> every (manager_call P) (\<lambda>_. False) (\<lambda>_. True)"

lemma manages_setters:
  assumes "\<And>s. P (cgroup_path m @ CHR ''/'' # s)"
  shows "manages P (SetMemoryLimit m b sw)" "manages P (SetPidsLimit m k)" "manages P (SetCPULimit m c)"
    "manages P (SetIOLimit m r w t)" "manages P (AddProcess m pid)"
  using assms
  by (auto simp: SetMemoryLimit_def SetPidsLimit_def SetCPULimit_def SetIOLimit_def AddProcess_def
      intro!: every_unit_pbind)

lemma manages_current:
  assumes "\<And>s. P (cgroup_path m @ CHR ''/'' # s)" shows "manages P (GetMemoryCurrent m)"
  using assms by (auto simp: GetMemoryCurrent_def intro!: every_unit_pbind split: sum.split)

lemma manages_peak:
  assumes "\<And>s. P (cgroup_path m @ CHR ''/'' # s)" shows "manages P (GetMemoryPeak m)"
proof -
  have "manages P (GetMemoryCurrent m)" by (rule manages_current) (rule assms)
  with assms show ?thesis
    by (auto simp: GetMemoryPeak_def intro!: every_unit_pbind split: sum.split)
qed

lemma manages_destroy:
  assumes "P (cgroup_path m @ ''/cgroup.procs'')" "P (cgroup_path m)"
  shows "manages P (cgroup_Destroy m)" "manages P (cgroup_dtor m)"
proof -
  have k: "every (manager_call P) E (\<lambda>_. True) (KillAllProcesses m)" for E
    by (rule every_KillAll) (rule assms)
  show d: "manages P (cgroup_Destroy m)"
    unfolding cgroup_Destroy_def using assms k
    by (auto intro!: every_unit_pbind every_block)
  then show "manages P (cgroup_dtor m)"
    unfolding cgroup_dtor_def by (auto intro!: every_unit_pbind)
qed

lemma manages_create:
  assumes "P (cgroup_root m @ ''/cgroup.controllers'')" "P (cgroup_root m @ ''/cgroup.subtree_control'')"
    "P (cgroup_root m)" "P (cgroup_path m)"
    "P (parent_path (cgroup_root m) @ ''/cgroup.controllers'')"
    "P (parent_path (cgroup_root m) @ ''/cgroup.subtree_control'')"
  shows "manages P (cgroup_Create m)"
proof -
  have "manages P (enable_controllers m)"
    unfolding enable_controllers_def Let_def using assms
    by (auto intro!: every_unit_pbind)
  then have "manages P (EnsureParentReady m)"
    using assms by (auto simp: EnsureParentReady_def)
  then show ?thesis unfolding cgroup_Create_def using assms by (auto intro!: every_unit_pbind)
qed

text \<open>The same with the files each operation names: a path \<open>f\<close> directly of the cgroup.\<close>

definition cgroup_files :: "CgroupManager \<Rightarrow> string list \<Rightarrow> string \<Rightarrow> bool" where
  "cgroup_files m names p \<longleftrightarrow> p \<in> (\<lambda>f. cgroup_path m @ ''/'' @ f) ` set names"

lemma cgroup_files_simps [simp]:
  "cgroup_files m [] p \<longleftrightarrow> False"
  "cgroup_files m (f # fs) p \<longleftrightarrow> p = cgroup_path m @ ''/'' @ f \<or> cgroup_files m fs p"
  by (auto simp: cgroup_files_def)

lemma manages_files:
  "manages (cgroup_files m [''memory.max'', ''memory.swap.max'']) (SetMemoryLimit m b sw)"
  "manages (cgroup_files m [''pids.max'']) (SetPidsLimit m k)"
  "manages (cgroup_files m [''cpu.max'']) (SetCPULimit m c)"
  "manages (cgroup_files m [''io.max'']) (SetIOLimit m r w t)"
  "manages (cgroup_files m [''cgroup.procs'']) (AddProcess m pid)"
  "manages (cgroup_files m [''memory.peak'', ''memory.current'']) (GetMemoryPeak m)"
  by (auto simp: SetMemoryLimit_def SetPidsLimit_def SetCPULimit_def SetIOLimit_def AddProcess_def
      GetMemoryPeak_def GetMemoryCurrent_def intro!: every_unit_pbind split: sum.split)

text \<open>
  C13. Every path a manager for job \<open>jid\<close> below \<open>dir\<close> touches is one of a fixed list. \<open>Create\<close> looks at
  \<open>dir\<close>, its own cgroup \<open>dir/jid\<close> and the two controller files of \<open>dir\<close> and of the parent of \<open>dir\<close>, and
  nothing else, so no cgroup of another job. The limits, the membership and the accounting use the
  control file of their name directly in the own cgroup, and the destruction its \<^verbatim>\<open>cgroup.procs\<close> and the
  directory itself. A manager signals positive process ids only (never a process group), only with
  \<^verbatim>\<open>SIGKILL\<close>, and none of these operations throws.
\<close>

theorem cgroup_stays_in_its_directory:
  "let m = new_cgroup dir jid; own = dir @ ''/'' @ jid;
       files = (\<lambda>names p. p \<in> (\<lambda>f. own @ ''/'' @ f) ` set names)
   in manages (\<lambda>p. p \<in> {dir, own, dir @ ''/cgroup.controllers'', dir @ ''/cgroup.subtree_control'',
          parent_path dir @ ''/cgroup.controllers'', parent_path dir @ ''/cgroup.subtree_control''})
        (cgroup_Create m) \<and>
      manages (files [''memory.max'', ''memory.swap.max'']) (SetMemoryLimit (m\<lparr>created := v\<rparr>) b sw) \<and>
      manages (files [''pids.max'']) (SetPidsLimit (m\<lparr>created := v\<rparr>) k) \<and>
      manages (files [''cpu.max'']) (SetCPULimit (m\<lparr>created := v\<rparr>) c) \<and>
      manages (files [''io.max'']) (SetIOLimit (m\<lparr>created := v\<rparr>) r w t) \<and>
      manages (files [''cgroup.procs'']) (AddProcess (m\<lparr>created := v\<rparr>) pid) \<and>
      manages (files [''memory.peak'', ''memory.current'']) (GetMemoryPeak (m\<lparr>created := v\<rparr>)) \<and>
      manages (\<lambda>p. p = own \<or> p = own @ ''/cgroup.procs'') (cgroup_Destroy (m\<lparr>created := v\<rparr>)) \<and>
      manages (\<lambda>p. p = own \<or> p = own @ ''/cgroup.procs'') (cgroup_dtor (m\<lparr>created := v\<rparr>))"
proof -
  define m where "m = new_cgroup dir jid"
  have path: "cgroup_path (m\<lparr>created := v\<rparr>) = dir @ ''/'' @ jid" by (simp add: m_def new_cgroup_def)
  have at_path: "cgroup_files (m\<lparr>created := v\<rparr>) names = (\<lambda>p. p \<in> (\<lambda>f. (dir @ ''/'' @ jid) @ ''/'' @ f) ` set names)" for names
    by (simp only: cgroup_files_def [abs_def] path)
  have c: "manages (\<lambda>p. p \<in> {dir, dir @ ''/'' @ jid, dir @ ''/cgroup.controllers'', dir @ ''/cgroup.subtree_control'',
          parent_path dir @ ''/cgroup.controllers'', parent_path dir @ ''/cgroup.subtree_control''}) (cgroup_Create m)"
    by (rule manages_create) (simp_all add: m_def new_cgroup_def)
  let ?Q = "\<lambda>p. p = dir @ ''/'' @ jid \<or> p = (dir @ ''/'' @ jid) @ ''/cgroup.procs''"
  have d: "manages ?Q (cgroup_Destroy (m\<lparr>created := v\<rparr>))" "manages ?Q (cgroup_dtor (m\<lparr>created := v\<rparr>))"
    by (rule manages_destroy; simp only: path; simp)+
  show ?thesis
    unfolding Let_def m_def [symmetric]
    using c d manages_files [where m = "m\<lparr>created := v\<rparr>", unfolded at_path] by blast
qed

subsection \<open>Control lines\<close>

fun words_of :: "string \<Rightarrow> string list" where
  "words_of [] = [[]]"
| "words_of (c # cs) =
     (if c = CHR '' '' then [] # words_of cs
      else (case words_of cs of [] \<Rightarrow> [[c]] | w # ws \<Rightarrow> (c # w) # ws))"

lemma contains_iff: "contains raw w \<longleftrightarrow> sublist w raw"
proof (induction raw)
  case Nil
  then show ?case by (simp add: contains.simps [of "[]"])
next
  case (Cons c cs)
  then show ?case by (simp add: contains.simps [of "c # cs"] sublist_Cons_right)
qed

text \<open>
  What is enabled: the line written to \<^verbatim>\<open>cgroup.subtree_control\<close> consists of the word
  \<open>+c\<close> for exactly those of memory, pids, cpu and io, in this order, that occur in the list of
  available controllers, and it is empty when none does. "Occurs" is occurrence as a substring, so a
  kernel that offers only \<^verbatim>\<open>cpuset\<close> is asked for \<^verbatim>\<open>+cpu\<close>.
\<close>

theorem enabled_controllers:
  "(let available = filter (\<lambda>c. sublist c raw) [''memory'', ''pids'', ''cpu'', ''io''];
        line = buildControllerEnableList raw
    in (available = [] \<longleftrightarrow> line = []) \<and>
       filter (\<lambda>w. w \<noteq> []) (words_of line) = map (\<lambda>c. ''+'' @ c) available) \<and>
   buildControllerEnableList ''cpuset'' = ''+cpu''"
proof
  have k: "contains ''cpuset'' w \<longleftrightarrow> sublist w ''cpuset''" for w by (rule contains_iff)
  have "contains ''cpuset'' ''cpu'' \<and> \<not> contains ''cpuset'' ''memory'' \<and>
      \<not> contains ''cpuset'' ''pids'' \<and> \<not> contains ''cpuset'' ''io''"
    by (simp add: contains.simps)
  then show "buildControllerEnableList ''cpuset'' = ''+cpu''"
    by (simp add: buildControllerEnableList_def wanted_controllers_def)
  show "let available = filter (\<lambda>c. sublist c raw) [''memory'', ''pids'', ''cpu'', ''io''];
        line = buildControllerEnableList raw
    in (available = [] \<longleftrightarrow> line = []) \<and>
       filter (\<lambda>w. w \<noteq> []) (words_of line) = map (\<lambda>c. ''+'' @ c) available"
    unfolding buildControllerEnableList_def wanted_controllers_def contains_iff Let_def
    by (cases "sublist ''memory'' raw"; cases "sublist ''pids'' raw"; cases "sublist ''cpu'' raw";
        cases "sublist ''io'' raw") simp_all
qed

text \<open>
  C16. The CPU quota of a configured number of cores: at least one millisecond per period, exactly
  \<open>100000\<close> microseconds per core for a whole number of cores, and for any number that is not
  below a hundredth of a core within one microsecond of the exact value.
\<close>

theorem cpu_quota_exact:
  assumes "0 < cores" "cores \<le> 2 ^ 20"
  shows "1000 \<le> quota_us cores \<and>
    (\<forall>n. cores = of_int n \<longrightarrow> quota_us cores = 100000 * n) \<and>
    (1 / 100 \<le> cores \<longrightarrow> \<bar>of_int (quota_us cores) - 100000 * cores\<bar> < 1)"
proof (intro conjI allI impI)
  show "1000 \<le> quota_us cores" by (simp add: quota_us_def Let_def)
next
  fix n assume n: "cores = of_int n"
  then have b: "0 < n" "n \<le> 2 ^ 20" using assms by simp_all
  then have "fl (of_int (n * 100000)) = of_int (n * 100000)" by (intro fl_of_int) simp
  then have "llround (fl (cores * of_int 100000)) = \<lfloor>of_int (n * 100000) + 1 / 2 :: rat\<rfloor>"
    using b by (simp add: n llround_def)
  also have "\<dots> = n * 100000" by linarith
  finally show "quota_us cores = 100000 * n" using b by (simp add: quota_us_def Let_def)
next
  assume lo: "1 / 100 \<le> cores"
  define x where "x = fl (cores * of_int 100000)"
  have "\<bar>x - cores * of_int 100000\<bar> \<le> 2 ^ 37 / 2 ^ 53"
    unfolding x_def using assms by (intro ieee.rnd_close) simp
  moreover have "(2 :: rat) ^ 37 / 2 ^ 53 < 1 / 4" by simp
  ultimately have e: "\<bar>x - 100000 * cores\<bar> < 1 / 4" by (simp only: mult.commute of_int_numeral)
  have "(of_int 1000 :: rat) \<le> x"
    unfolding x_def using lo by (intro ieee.rnd_ge_int) simp_all
  then have q: "quota_us cores = \<lfloor>x + 1 / 2\<rfloor>" "0 \<le> x"
    by (simp_all add: quota_us_def Let_def x_def llround_def le_floor_iff)
  show "\<bar>of_int (quota_us cores) - 100000 * cores\<bar> < 1"
    unfolding q using e by linarith
qed

theorem cpu_quota_exact_witness:
  "quota_us (5 / 2) \<ge> 1000 \<and> quota_us 2 = 200000 \<and> \<bar>of_int (quota_us (5 / 2)) - (250000 :: rat)\<bar> < 1"
proof -
  have "quota_us 2 = 100000 * 2" using cpu_quota_exact [of 2] by (auto elim: allE [of _ 2])
  then show ?thesis using cpu_quota_exact [of "5 / 2"] by simp
qed

subsection \<open>Accounting and clean-up\<close>

text \<open>The number a control file answers with, when there is one.\<close>

definition reading :: "answer \<Rightarrow> 64 word option" where
  "reading a = Option.bind (body a) (\<lambda>s. ok_of (stoull (first_line s)))"

lemma stoull_Nil [simp]: "stoull [] = Inl Invalid_Argument"
  by (simp add: scan_eval)

lemma first_line_append: "CHR 0x0A \<notin> set s \<Longrightarrow> first_line (s @ CHR 0x0A # t) = s"
  by (simp add: first_line_def takeWhile_append)

lemma newline_not_dec: "CHR 0x0A \<notin> set (dec_int i)"
proof -
  have "c \<noteq> CHR 0x0A" if "isdigit c" for c
    using that by (auto simp: isdigit_def byte_of_def)
  then have "CHR 0x0A \<notin> set (dec_nat n)" for n
    using dec_nat_digits [of n] by (auto simp: list_all_iff)
  then show ?thesis by (simp add: dec_int_def)
qed

lemma stoull_dec: "n < 2 ^ 64 \<Longrightarrow> stoull (dec_int (int n)) = Inr (word_of_int (int n))"
  using scan_int_dec_int [of "[]" "int n"] by (simp add: stoull_def signed_val_def)

lemma reading_dec:
  "n < 2 ^ 64 \<Longrightarrow> body a = Some (dec_int (int n) @ CHR 0x0A # t) \<Longrightarrow> reading a = Some (word_of_int (int n))"
  by (simp add: reading_def first_line_append newline_not_dec stoull_dec)

lemma runs_ReadFromFile:
  "runs (pbind (ReadFromFile p) f) tr r \<longleftrightarrow>
   (\<exists>a t. tr = (Read_File p, a) # t \<and> runs (f (case body a of None \<Rightarrow> [] | Some s \<Rightarrow> first_line s)) t r)"
  by (auto simp: ReadFromFile_def runs_Call_iff split: option.splits)

lemma reading_text:
  "reading a = ok_of (stoull (case body a of None \<Rightarrow> [] | Some s \<Rightarrow> first_line s))"
  by (simp add: reading_def split: option.split)

text \<open>The empty text is not a number, so the tests for it are covered by the failing conversion.\<close>

lemma number_or:
  "(if s \<noteq> [] then (case stoull s of Inr v \<Rightarrow> Done v | Inl _ \<Rightarrow> p) else p) =
   (case ok_of (stoull s) of Some v \<Rightarrow> Done v | None \<Rightarrow> p)"
  by (auto simp: ok_of_def split: sum.split)

lemma runs_GetMemoryCurrent:
  assumes "created m" "runs (GetMemoryCurrent m) tr (Ret v)"
  shows "\<exists>a. tr = [(Read_File (cgroup_path m @ ''/memory.current''), a)] \<and>
       v = (case reading a of Some n \<Rightarrow> n | None \<Rightarrow> 0)"
proof -
  from assms obtain a t where tr: "tr = (Read_File (cgroup_path m @ ''/memory.current''), a) # t"
    and t: "runs (case reading a of Some n \<Rightarrow> Done n | None \<Rightarrow> Done 0) t (Ret v)"
    unfolding GetMemoryCurrent_def number_or by (auto simp: runs_ReadFromFile reading_text)
  then show ?thesis by (cases "reading a") auto
qed

lemma runs_GetMemoryPeak:
  assumes "created m" "runs (GetMemoryPeak m) tr r"
  obtains a t where "tr = (Read_File (cgroup_path m @ ''/memory.peak''), a) # t"
    "runs (case reading a of Some n \<Rightarrow> Done n | None \<Rightarrow> GetMemoryCurrent m) t r"
  using assms unfolding GetMemoryPeak_def number_or by (auto simp: runs_ReadFromFile reading_text)

text \<open>
  C15. Memory accounting of a created cgroup never fails: the result is the number in the first line
  of \<^verbatim>\<open>memory.peak\<close>; when there is none (the file is missing, empty or not a number below
  \<open>2^64\<close>) it is the number in \<^verbatim>\<open>memory.current\<close>, and 0 when that has none either. The kernel's decimal
  line for any number below \<open>2^64\<close> is read back as this number.
\<close>

theorem memory_peak_reading:
  assumes "created m" "runs (GetMemoryPeak m) tr r"
  shows "\<exists>a t v. r = Ret v \<and> tr = (Read_File (cgroup_path m @ ''/memory.peak''), a) # t \<and>
     (\<forall>n rest. n < 2 ^ 64 \<and> body a = Some (dec_int (int n) @ CHR 0x0A # rest) \<longrightarrow> v = word_of_int (int n)) \<and>
     (case reading a of
        Some n \<Rightarrow> v = n \<and> t = []
      | None \<Rightarrow> (\<exists>b. t = [(Read_File (cgroup_path m @ ''/memory.current''), b)] \<and>
                   v = (case reading b of Some n \<Rightarrow> n | None \<Rightarrow> 0)))"
proof -
  have "manages (\<lambda>_. True) (GetMemoryPeak m)" by (rule manages_peak) simp
  then obtain v where r: "r = Ret v"
    using assms(2) every_stops by (cases r) fastforce+
  from assms obtain a t where tr: "tr = (Read_File (cgroup_path m @ ''/memory.peak''), a) # t"
    and rest: "runs (case reading a of Some n \<Rightarrow> Done n | None \<Rightarrow> GetMemoryCurrent m) t (Ret v)"
    unfolding r by (rule runs_GetMemoryPeak)
  have "case reading a of
        Some n \<Rightarrow> v = n \<and> t = []
      | None \<Rightarrow> (\<exists>b. t = [(Read_File (cgroup_path m @ ''/memory.current''), b)] \<and>
                   v = (case reading b of Some n \<Rightarrow> n | None \<Rightarrow> 0))"
  proof (cases "reading a")
    case None
    with rest have "runs (GetMemoryCurrent m) t (Ret v)" by simp
    from runs_GetMemoryCurrent [OF assms(1) this] show ?thesis by (simp only: None option.case)
  qed (use rest in simp)
  then show ?thesis using r tr reading_dec by (intro exI [of _ a] exI [of _ t] exI [of _ v]) auto
qed

theorem memory_peak_reading_witness:
  "let m = (new_cgroup ''/c'' ''run_7'')\<lparr>created := True\<rparr>;
       tr = [(Read_File ''/c/run_7/memory.peak'', (ans 0)\<lparr>body := Some (dec_int 4096 @ [CHR 0x0A])\<rparr>)]
   in created m \<and> runs (GetMemoryPeak m) tr (Ret 4096)"
proof -
  let ?m = "(new_cgroup ''/c'' ''run_7'')\<lparr>created := True\<rparr>"
  let ?a = "(ans 0)\<lparr>body := Some (dec_int 4096 @ [CHR 0x0A])\<rparr>"
  have rd: "reading ?a = Some 4096" using reading_dec [of 4096 ?a "[]"] by simp
  have run: "runs (GetMemoryPeak ?m) [(Read_File ''/c/run_7/memory.peak'', ?a)] (Ret 4096)"
    using rd unfolding GetMemoryPeak_def number_or
    by (simp add: runs_ReadFromFile new_cgroup_def reading_text)
  have "created ?m" by simp
  with run memory_peak_reading [OF this run] show ?thesis by (simp only: Let_def)
qed

lemma stream_ints_Nil [simp]: "stream_ints [] = []"
  by (subst stream_ints.simps) (simp add: scan_int_def scan_sign_def scan_digits_def)

lemma stream_ints_dec:
  assumes "- (2 ^ 31) \<le> i" "i < 2 ^ 31" "t = [] \<or> \<not> isdigit (hd t)"
  shows "stream_ints (dec_int i @ t) = i # stream_ints t"
  using scan_int_dec_int [OF assms(3), of i] assms(1,2)
  by (subst stream_ints.simps) (auto simp: signed_val_def Let_def)

lemma block_emits:
  "runs (block (map emit cs)) tr r \<longleftrightarrow> r = Ret () \<and> map fst tr = cs"
proof (induction cs arbitrary: tr)
  case Nil
  then show ?case by auto
next
  case (Cons c cs)
  have "runs (block (map emit (c # cs))) tr r \<longleftrightarrow> (\<exists>a t. tr = (c, a) # t \<and> runs (block (map emit cs)) t r)"
    by (auto simp: emit_def runs_Call_iff)
  then show ?case by (auto simp: Cons map_eq_Cons_conv)
qed

lemma runs_KillAll:
  "runs (KillAllProcesses m) tr r \<longleftrightarrow>
   (\<exists>a t. tr = (Read_File (cgroup_path m @ ''/cgroup.procs''), a) # t \<and> r = Ret () \<and>
      map fst t = map (\<lambda>pid. Kill pid SIGKILL)
        (filter (\<lambda>pid. 0 < pid) (stream_ints (case body a of None \<Rightarrow> [] | Some s \<Rightarrow> first_line s))))"
proof -
  have e: "(if s = [] then Done () else block (map (\<lambda>pid. emit (Kill pid SIGKILL)) (filter (\<lambda>pid. 0 < pid) (stream_ints s))))
      = block (map emit (map (\<lambda>pid. Kill pid SIGKILL) (filter (\<lambda>pid. 0 < pid) (stream_ints s))))" for s
    by (simp add: comp_def)
  show ?thesis by (simp only: KillAllProcesses_def e runs_ReadFromFile block_emits)
qed

text \<open>
  Killing the processes of a cgroup: the signals sent are exactly one \<^verbatim>\<open>SIGKILL\<close> for every
  positive number of the first line of \<^verbatim>\<open>cgroup.procs\<close>, in order. The kernel lists one process per line, so
  of the processes \<open>p # ps\<close> of a cgroup only the first is signalled by a call, although the interface
  promises to signal all of them.
\<close>

theorem kill_signals_first_process:
  assumes "runs (KillAllProcesses m) ((c, a) # t) r"
    and "body a = Some (concat (map (\<lambda>p. dec_int p @ [CHR 0x0A]) (p # ps)))" "0 < p" "p < 2 ^ 31"
  shows "c = Read_File (cgroup_path m @ ''/cgroup.procs'') \<and> r = Ret () \<and> map fst t = [Kill p SIGKILL]"
proof -
  have "first_line (concat (map (\<lambda>p. dec_int p @ [CHR 0x0A]) (p # ps))) = dec_int p"
    using first_line_append [OF newline_not_dec] by simp
  moreover have "stream_ints (dec_int p) = [p]"
    using stream_ints_dec [of p "[]"] assms(3,4) by simp
  ultimately show ?thesis using assms(1-3) by (simp add: runs_KillAll)
qed

theorem kill_signals_first_process_witness:
  "let m = new_cgroup ''/c'' ''run_7''; a = (ans 0)\<lparr>body := Some (concat (map (\<lambda>p. dec_int p @ [CHR 0x0A]) [12, 13]))\<rparr>
   in runs (KillAllProcesses m) [(Read_File ''/c/run_7/cgroup.procs'', a), (Kill 12 SIGKILL, ans 0)] (Ret ()) \<and>
      (\<forall>c t r. runs (KillAllProcesses m) ((c, a) # t) r \<longrightarrow> map fst t = [Kill 12 SIGKILL])"
proof -
  let ?a = "(ans 0)\<lparr>body := Some (concat (map (\<lambda>p. dec_int p @ [CHR 0x0A]) [12, 13]))\<rparr>"
  have "first_line (concat (map (\<lambda>p. dec_int p @ [CHR 0x0A]) [12, 13])) = dec_int 12"
    using first_line_append [OF newline_not_dec] by simp
  moreover have "stream_ints (dec_int 12) = [12]" using stream_ints_dec [of 12 "[]"] by simp
  ultimately show ?thesis
    using kill_signals_first_process [where m = "new_cgroup ''/c'' ''run_7''" and a = ?a and p = 12 and ps = "[13]"]
    by (simp add: runs_KillAll new_cgroup_def)
qed

lemma cgroup_Destroy_removes:
  assumes "created m" "runs (cgroup_Destroy m) t (Ret m')"
  shows "\<exists>u a w. t = u @ (Fs_Remove (cgroup_path m), a) # w"
proof -
  have "cgroup_Destroy m = pbind (block [KillAllProcesses m, emit (Usleep 50000), KillAllProcesses m, emit (Usleep 10000)]) (\<lambda>_.
        Call (Fs_Remove (cgroup_path m)) (\<lambda>a.
          pbind (if rv a \<noteq> 0 then Done ()
                 else block [emit (Usleep 100000), KillAllProcesses m, emit (Usleep 50000),
                             emit (Fs_Remove (cgroup_path m))])
            (\<lambda>_. Done (m\<lparr>created := False\<rparr>))))"
    unfolding cgroup_Destroy_def by (rule if_not_P) (simp add: assms(1))
  from assms(2) [unfolded this] obtain x u v where "t = u @ v" and v: "runs (Call (Fs_Remove (cgroup_path m)) (\<lambda>a.
          pbind (if rv a \<noteq> 0 then Done ()
                 else block [emit (Usleep 100000), KillAllProcesses m, emit (Usleep 50000),
                             emit (Fs_Remove (cgroup_path m))])
            (\<lambda>_. Done (m\<lparr>created := False\<rparr>)))) v (Ret m')"
    by (rule runs_pbind_RetE)
  moreover from v obtain a w where "v = (Fs_Remove (cgroup_path m), a) # w"
    unfolding runs_Call_iff by blast
  ultimately show ?thesis by blast
qed

text \<open>
  C14. A cgroup directory is destroyed exactly once. Whatever \<open>Create\<close> did and however often the
  manager was moved afterwards, destroying all the objects runs \<open>Destroy\<close> once if the directory had been
  created and does nothing otherwise; \<open>Destroy\<close> tries to remove the directory and leaves an object
  whose destructor does nothing.
\<close>

theorem cgroup_destroyed_once:
  assumes "\<not> created m" "runs (cgroup_Create m) tr (Ret (b, m'))"
  shows "block (map cgroup_dtor (moves cgroup_move k m')) =
           (if b then pbind (cgroup_Destroy m') (\<lambda>_. Done ()) else Done ()) \<and>
         cgroup_path m' = cgroup_path m \<and>
         (\<forall>t m''. b \<and> runs (cgroup_Destroy m') t (Ret m'') \<longrightarrow>
            Fs_Remove (cgroup_path m) \<in> fst ` set t \<and> cgroup_dtor m'' = Done ())"
proof -
  have m': "m' = m\<lparr>created := b\<rparr>" by (rule cgroup_Create_Ret) (rule assms)+
  have "Fs_Remove (cgroup_path m) \<in> fst ` set t" if "b" "runs (cgroup_Destroy m') t (Ret m'')" for t m''
  proof -
    have "created m'" using that(1) by (simp add: m')
    from cgroup_Destroy_removes [OF this that(2)] show ?thesis by (auto simp: m')
  qed
  moreover have "cgroup_dtor m'' = Done ()" if "runs (cgroup_Destroy m') t (Ret m'')" for t m''
    using cgroup_Destroy_Ret [OF that] by (simp add: cgroup_dtor_def)
  ultimately show ?thesis
    by (auto simp: m' cm.moves_clean_once cgroup_dtor_def)
qed

theorem cgroup_destroyed_once_witness:
  "let m = new_cgroup ''/g/deep_oj'' ''run_7''; m' = m\<lparr>created := True\<rparr>;
       ctl = (ans 0)\<lparr>body := Some ''memory pids''\<rparr>;
       tr = [(Fs_Exists ''/g/deep_oj'', ans 1), (Read_File ''/g/cgroup.controllers'', ans 0),
             (Read_File ''/g/deep_oj/cgroup.controllers'', ctl),
             (Ofs_Open ''/g/deep_oj/cgroup.subtree_control'', ans 1),
             (Ofs_Put ''/g/deep_oj/cgroup.subtree_control'' ''+memory +pids'', ans 1),
             (Ofs_Close ''/g/deep_oj/cgroup.subtree_control'', ans 0),
             (Fs_Create_Directories ''/g/deep_oj/run_7'', ans 1)]
   in runs (cgroup_Create m) tr (Ret (True, m')) \<and>
      block (map cgroup_dtor (moves cgroup_move 2 m')) = pbind (cgroup_Destroy m') (\<lambda>_. Done ())"
proof -
  let ?m = "new_cgroup ''/g/deep_oj'' ''run_7''"
  have parent: "parent_path ''/g/deep_oj'' = ''/g''" by code_simp
  have lines: "buildControllerEnableList ''memory pids'' = ''+memory +pids''"
    "buildControllerEnableList [] = []" "first_line ''memory pids'' = ''memory pids''"
    by code_simp+
  have run: "runs (cgroup_Create ?m)
      [(Fs_Exists ''/g/deep_oj'', ans 1), (Read_File ''/g/cgroup.controllers'', ans 0),
             (Read_File ''/g/deep_oj/cgroup.controllers'', (ans 0)\<lparr>body := Some ''memory pids''\<rparr>),
             (Ofs_Open ''/g/deep_oj/cgroup.subtree_control'', ans 1),
             (Ofs_Put ''/g/deep_oj/cgroup.subtree_control'' ''+memory +pids'', ans 1),
             (Ofs_Close ''/g/deep_oj/cgroup.subtree_control'', ans 0),
             (Fs_Create_Directories ''/g/deep_oj/run_7'', ans 1)] (Ret (True, ?m\<lparr>created := True\<rparr>))"
    by (simp add: cgroup_Create_def EnsureParentReady_def enable_controllers_def new_cgroup_def
        ReadFromFile_def WriteToFile_def parent lines Let_def)
  have "\<not> created ?m" by (simp add: new_cgroup_def)
  from run cgroup_destroyed_once [OF this run] show ?thesis by (simp add: Let_def)
qed

end
