(* ===== verification/Seccomp_Rules.thy ===== *)
theory Seccomp_Rules
  imports System_Calls
begin

unbundle bit_operations_syntax

text \<open>
  \<^verbatim>\<open>src/core/worker/seccomp_rules.cpp\<close>: the system-call filter of the run phase (a white
  list) and of the compile phase (a black list).

  libseccomp is not part of the repository. What the code asks of it are calls
  (\<open>Seccomp_Init\<close>, \<open>Seccomp_Rule_Add\<close>, \<open>Seccomp_Load\<close>, \<open>Seccomp_Release\<close>), and what a loaded
  filter decides is a parameter with the documented laws of libseccomp, the locale
  \<open>seccomp_semantics\<close>.
\<close>

subsection \<open>Loading the filters\<close>

definition ShouldEnableRunSeccomp :: "bool prog" where
  "ShouldEnableRunSeccomp =
     Call (Getenv ''JUDGE_RUN_SECCOMP_MODE'') (\<lambda>a.
       case body a of
         None \<Rightarrow> Done True
       | Some mode \<Rightarrow> if mode = [] then Done True else Done (mode \<noteq> ''off''))"

abbreviation (input) O_WRONLY :: "64 word" where "O_WRONLY \<equiv> 1"
abbreviation (input) O_RDWR :: "64 word" where "O_RDWR \<equiv> 2"

type_synonym scmp_rule = "scmp_action \<times> string \<times> scmp_cmp list"

definition scmp_fail :: "unit prog" where
  "scmp_fail = block [emit Seccomp_Release, Stop (Exited ERR_SANDBOX_EXCEPTION)]"

definition add_syscall_rule :: "scmp_rule \<Rightarrow> unit prog" where
  "add_syscall_rule r =
     (case r of (act, name, cmps) \<Rightarrow>
        require (Seccomp_Rule_Add act name cmps) (\<lambda>a. rv a = 0) (\<lambda>_. scmp_fail))"

text \<open>\<^verbatim>\<open>ALLOW_SYSCALL(name)\<close> of the run phase and \<^verbatim>\<open>DENY_SYSCALL(name)\<close> of the compile phase.\<close>

definition allow_syscalls :: "string list" where
  "allow_syscalls =
     [''read'', ''write'', ''close'', ''fstat'', ''lseek'', ''brk'', ''mmap'', ''munmap'',
      ''mprotect'', ''exit'', ''exit_group'', ''uname'', ''access'', ''readlink'',
      ''gettimeofday'', ''clock_gettime'', ''rt_sigaction'', ''rt_sigprocmask'',
      ''rt_sigreturn'', ''sigaltstack'', ''getpid'', ''getppid'', ''gettid'', ''getuid'',
      ''geteuid'', ''getgid'', ''getegid'', ''fcntl'', ''statx'', ''statfs'', ''fstatfs'',
      ''ioctl'', ''madvise'', ''sched_getaffinity'',
      ''prlimit64'', ''rseq'', ''getrandom'', ''futex'', ''newfstatat'', ''faccessat'',
      ''pread64'', ''arch_prctl'', ''set_tid_address'', ''set_robust_list'']"

definition deny_syscalls :: "string list" where
  "deny_syscalls =
     [''ptrace'', ''mount'', ''umount2'', ''reboot'', ''swapon'', ''swapoff'', ''kexec_load'',
      ''init_module'', ''finit_module'', ''delete_module'']"

definition run_rules :: "scmp_rule list" where
  "run_rules =
     [(SCMP_ACT_ALLOW, ''open'', [MASKED_EQ 1 (O_WRONLY OR O_RDWR) 0]),
      (SCMP_ACT_ALLOW, ''openat'', [MASKED_EQ 2 (O_WRONLY OR O_RDWR) 0]),
      (SCMP_ACT_ALLOW, ''execve'', []),
      (SCMP_ACT_ALLOW, ''execveat'', [])]
     @ map (\<lambda>n. (SCMP_ACT_ALLOW, n, [])) allow_syscalls"

definition compile_rules :: "scmp_rule list" where
  "compile_rules = map (\<lambda>n. (SCMP_ACT_KILL, n, [])) deny_syscalls"

definition load_filter :: "scmp_action \<Rightarrow> scmp_rule list \<Rightarrow> unit prog" where
  "load_filter dflt rules =
     block
       ([require (Seccomp_Init dflt) (\<lambda>a. rv a \<noteq> 0) (\<lambda>_. Stop (Exited ERR_SANDBOX_EXCEPTION))]
        @ map add_syscall_rule rules
        @ [require Seccomp_Load (\<lambda>a. rv a = 0) (\<lambda>_. scmp_fail),
           emit Seccomp_Release])"

definition LoadSeccompRules :: "string \<Rightarrow> unit prog" where
  "LoadSeccompRules exe_path = load_filter SCMP_ACT_KILL run_rules"

definition LoadCompileSeccompRules :: "unit prog" where
  "LoadCompileSeccompRules = load_filter SCMP_ACT_ALLOW compile_rules"

lemmas seccomp_defs [prog_defs] =
  ShouldEnableRunSeccomp_def scmp_fail_def add_syscall_rule_def load_filter_def LoadSeccompRules_def
  LoadCompileSeccompRules_def

subsection \<open>What loading guarantees\<close>

definition rule_call :: "scmp_rule \<Rightarrow> call" where
  "rule_call r = (case r of (act, name, cmps) \<Rightarrow> Seccomp_Rule_Add act name cmps)"

lemma aborts_scmp_fail [simp]: "aborts scmp_fail"
  by (simp add: aborts_def scmp_fail_def every_pbind)

lemma aborts_Stop [simp]: "aborts (Stop s)"
  by (simp add: aborts_def)

lemma runs_require_abort:
  assumes "\<And>a. aborts (fail a)"
  shows "runs (require c ok fail) tr (Ret x) \<longleftrightarrow> (\<exists>a. ok a \<and> tr = [(c, a)])"
  using aborts_no_Ret [OF assms] by (auto simp: runs_require_Ret)

lemma runs_add_syscall_rule:
  "runs (add_syscall_rule r) tr (Ret x) \<longleftrightarrow> (\<exists>a. rv a = 0 \<and> tr = [(rule_call r, a)])"
  by (cases r) (simp add: add_syscall_rule_def rule_call_def runs_require_abort)

lemma runs_add_rules:
  "list_all2 (\<lambda>p t. runs p t (Ret ())) (map add_syscall_rule rs) ts \<Longrightarrow>
   map fst (concat ts) = map rule_call rs \<and> list_all (\<lambda>e. rv (snd e) = 0) (concat ts)"
  by (induction rs arbitrary: ts) (auto simp: list_all2_Cons1 runs_add_syscall_rule)

text \<open>
  If loading a filter returns, the calls made are exactly: create a context with the default
  action, add every rule in order, load, release; and every one that can fail succeeded.
\<close>

lemma load_filter_calls:
  assumes "runs (load_filter d rs) tr (Ret ())"
  shows "map fst tr = Seccomp_Init d # map rule_call rs @ [Seccomp_Load, Seccomp_Release]"
    and "list_all (\<lambda>e. rv (snd e) = 0) (butlast (tl tr))"
proof -
  from assms obtain a ts b c where
    tr: "tr = (Seccomp_Init d, a) # concat ts @ [(Seccomp_Load, b), (Seccomp_Release, c)]"
    and ts: "list_all2 (\<lambda>p t. runs p t (Ret ())) (map add_syscall_rule rs) ts" and b: "rv b = 0"
    by (auto simp: load_filter_def block_append runs_pbind_iff runs_require_abort
        runs_block_Ret_iff emit_def runs_Call_iff)
  from runs_add_rules [OF ts] b show
    "map fst tr = Seccomp_Init d # map rule_call rs @ [Seccomp_Load, Seccomp_Release]"
    "list_all (\<lambda>e. rv (snd e) = 0) (butlast (tl tr))"
    by (simp_all add: tr butlast_append)
qed

text \<open>Otherwise the process ends with the code for a failed sandbox set-up.\<close>

lemma load_filter_every:
  assumes "C (Seccomp_Init d)" "C Seccomp_Load" "C Seccomp_Release"
    and "\<And>r. r \<in> set rs \<Longrightarrow> C (rule_call r)" and "E (Exited ERR_SANDBOX_EXCEPTION)"
  shows "every C E (\<lambda>_. True) (load_filter d rs)"
  unfolding load_filter_def
  using assms by (intro every_block) (auto simp: list_all_iff add_syscall_rule_def scmp_fail_def rule_call_def every_pbind)

subsection \<open>What the filters decide\<close>















end
