(* ===== verification/Sandbox_Isolation.thy ===== *)
theory Sandbox_Isolation
  imports Seccomp_Rules
begin

unbundle bit_operations_syntax

text \<open>
  \<^verbatim>\<open>src/core/worker/sandbox_isolation.cpp\<close>: what the two cloned children do between
  \<^verbatim>\<open>clone\<close> and \<^verbatim>\<open>exec\<close>. Every system call is in the model, in the order of the code, with
  the check on its result and the exit code of the failing branch. The configuration, a
  global of the program that the children only read, is the argument \<open>cfg\<close>.
\<close>

subsection \<open>Constants of the kernel interface\<close>

abbreviation (input) MS_RDONLY :: nat where "MS_RDONLY \<equiv> 1"
abbreviation (input) MS_NOSUID :: nat where "MS_NOSUID \<equiv> 2"
abbreviation (input) MS_NODEV :: nat where "MS_NODEV \<equiv> 4"
abbreviation (input) MS_NOEXEC :: nat where "MS_NOEXEC \<equiv> 8"
abbreviation (input) MS_REMOUNT :: nat where "MS_REMOUNT \<equiv> 32"
abbreviation (input) MS_BIND :: nat where "MS_BIND \<equiv> 4096"
abbreviation (input) MS_REC :: nat where "MS_REC \<equiv> 16384"
abbreviation (input) MS_PRIVATE :: nat where "MS_PRIVATE \<equiv> 262144"
abbreviation (input) MNT_DETACH :: int where "MNT_DETACH \<equiv> 2"

abbreviation (input) RLIMIT_CPU :: nat where "RLIMIT_CPU \<equiv> 0"
abbreviation (input) RLIMIT_FSIZE :: nat where "RLIMIT_FSIZE \<equiv> 1"
abbreviation (input) RLIMIT_STACK :: nat where "RLIMIT_STACK \<equiv> 3"
abbreviation (input) RLIMIT_NPROC :: nat where "RLIMIT_NPROC \<equiv> 6"
abbreviation (input) RLIMIT_AS :: nat where "RLIMIT_AS \<equiv> 9"
abbreviation (input) RLIM_INFINITY :: rlim where "RLIM_INFINITY \<equiv> - 1"

text \<open>\<^verbatim>\<open>open\<close> flags: \<open>O_CREAT|O_RDWR\<close> = 66, \<open>O_WRONLY|O_CREAT|O_TRUNC\<close> = 577, plus \<open>O_CLOEXEC\<close> = 524865.\<close>

abbreviation (input) F_OK :: int where "F_OK \<equiv> 0"
abbreviation (input) STDERR_FILENO :: int where "STDERR_FILENO \<equiv> 2"

subsection \<open>Failure exits\<close>

text \<open>One \<^verbatim>\<open>snprintf\<close> onto the end of a message buffer of 1536 bytes: the text so far and the length
  that was asked for.\<close>

definition append_piece :: "string \<times> nat \<Rightarrow> string \<Rightarrow> string \<times> nat" where
  "append_piece m piece =
     (case m of (buf, n) \<Rightarrow>
        if n < 1536 then (take 1535 (buf @ piece), n + length piece) else (buf, n))"

definition optional_piece :: "string \<Rightarrow> string \<Rightarrow> string \<times> nat \<Rightarrow> string \<times> nat" where
  "optional_piece label s m = (if s = [] then m else append_piece m (label @ s))"

definition setup_error_message ::
  "int \<Rightarrow> int \<Rightarrow> string \<Rightarrow> string \<Rightarrow> int \<Rightarrow> int \<Rightarrow> int \<Rightarrow> int \<Rightarrow> string \<Rightarrow> string \<Rightarrow> string \<Rightarrow> string \<Rightarrow> string"
where
  "setup_error_message err code step errtext uid gid euid egid work_dir src target extra =
     (let m0 = append_piece ([], 0)
          (''[sandbox][setup_rootfs] step='' @ step @ '' code='' @ dec_int code @ '' errno='' @
           dec_int err @ ''('' @ errtext @ '') uid='' @ dec_int uid @ '' gid='' @ dec_int gid @
           '' euid='' @ dec_int euid @ '' egid='' @ dec_int egid @ '' work_dir='' @ work_dir);
          m1 = optional_piece '' src='' src m0;
          m2 = optional_piece '' target='' target m1;
          m3 = optional_piece '' '' extra m2
      in fst m3 @ [CHR 0x0A])"

text \<open>\<^verbatim>\<open>nullptr\<close> and the empty string are treated alike by the code and are both \<open>[]\<close> here.\<close>

definition ExitSetupError ::
  "int \<Rightarrow> int \<Rightarrow> string \<Rightarrow> string \<Rightarrow> string \<Rightarrow> string \<Rightarrow> string \<Rightarrow> unit prog"
where
  "ExitSetupError err code step work_dir src target extra =
     pbind (do_call (Strerror err)) (\<lambda>t.
     pbind (do_call Getuid) (\<lambda>u.
     pbind (do_call Getgid) (\<lambda>g.
     pbind (do_call Geteuid) (\<lambda>eu.
     pbind (do_call Getegid) (\<lambda>eg.
     block
       [emit (Write STDERR_FILENO
          (setup_error_message err code step (text_of t) (rv u) (rv g) (rv eu) (rv eg)
             work_dir src target extra)),
        Stop (Exited code)])))))"

definition ExitRunExecError :: "int \<Rightarrow> string \<Rightarrow> unit prog" where
  "ExitRunExecError err exe_path =
     pbind (do_call (Strerror err)) (\<lambda>t.
     block
       [emit (Write STDERR_FILENO
          (take 1023 (''[sandbox][run_exec_failed] errno='' @ dec_int err @ ''('' @ text_of t @
             '') exe='' @ exe_path) @ [CHR 0x0A])),
        Stop (Exited ERR_EXEC_FAILED)])"

text \<open>\<^verbatim>\<open>if (c == -1) _exit(code);\<close>\<close>

definition or_exit :: "call \<Rightarrow> int \<Rightarrow> unit prog" where
  "or_exit c code = require c (\<lambda>a. rv a \<noteq> -1) (\<lambda>_. Stop (Exited code))"

text \<open>\<^verbatim>\<open>if (c == -1 && errno != EEXIST) _exit(code);\<close>\<close>

definition or_exit_exist :: "call \<Rightarrow> int \<Rightarrow> unit prog" where
  "or_exit_exist c code =
     require c (\<lambda>a. rv a \<noteq> -1 \<or> er a = EEXIST) (\<lambda>_. Stop (Exited code))"

text \<open>\<^verbatim>\<open>if (c != 0) _exit(code);\<close>\<close>

definition or_exit_nz :: "call \<Rightarrow> int \<Rightarrow> unit prog" where
  "or_exit_nz c code = require c (\<lambda>a. rv a = 0) (\<lambda>_. Stop (Exited code))"

subsection \<open>Building the root file system\<close>

definition EnsureParentDir :: "string \<Rightarrow> string \<Rightarrow> unit prog" where
  "EnsureParentDir path base =
     (case strrchr (strncpy_z 511 path) slash of
        None \<Rightarrow> Done ()
      | Some (tmp, _) \<Rightarrow>
          if length base = 0 then Done ()
          else if take (length base) tmp \<noteq> base then Done ()
          else block
            (map (\<lambda>i. require (Mkdir (take i tmp) 493)
                   (\<lambda>a. rv a \<noteq> -1 \<or> er a = EEXIST)
                   (\<lambda>a. ExitSetupError (er a) ERR_MKDIR_FAILED ''mkdir_parent'' base [] (take i tmp) []))
              (filter (\<lambda>i. i = length tmp \<or> tmp ! i = slash) [length base + 1 ..< length tmp + 1])))"

definition mount_target :: "string \<Rightarrow> string \<Rightarrow> string" where
  "mount_target work_dir src = snprintf_z 512 (work_dir @ src)"

definition setup_mount_dir :: "string \<Rightarrow> string \<Rightarrow> unit prog" where
  "setup_mount_dir work_dir src =
     block
       [require (Access src F_OK) (\<lambda>a. rv a = 0)
          (\<lambda>a. ExitSetupError (er a) ERR_MOUNT_BIND_LIB ''mount_dir_not_found'' work_dir src [] []),
        (if length (work_dir @ src) \<ge> 512
         then ExitSetupError ENAMETOOLONG ERR_MKDIR_FAILED ''mount_dir_target_too_long'' work_dir src
                (mount_target work_dir src) []
         else Done ()),
        EnsureParentDir (mount_target work_dir src) work_dir,
        require (Mkdir (mount_target work_dir src) 493) (\<lambda>a. rv a \<noteq> -1 \<or> er a = EEXIST)
          (\<lambda>a. ExitSetupError (er a) ERR_MKDIR_FAILED ''mkdir_mount_dir'' work_dir src
                 (mount_target work_dir src) []),
        require (Mount (Some src) (mount_target work_dir src) None (MS_BIND OR MS_REC) None)
          (\<lambda>a. rv a \<noteq> -1)
          (\<lambda>a. ExitSetupError (er a) ERR_MOUNT_BIND_LIB ''mount_bind_dir'' work_dir src
                 (mount_target work_dir src) []),
        require (Mount (Some src) (mount_target work_dir src) None
                   (MS_BIND OR MS_REC OR MS_RDONLY OR MS_REMOUNT) None)
          (\<lambda>a. rv a \<noteq> -1)
          (\<lambda>a. ExitSetupError (er a) ERR_REMOUNT_RO ''mount_remount_dir_ro'' work_dir src
                 (mount_target work_dir src) [])]"

definition setup_mount_file :: "string \<Rightarrow> string \<Rightarrow> unit prog" where
  "setup_mount_file work_dir src =
     block
       [require (Access src F_OK) (\<lambda>a. rv a = 0)
          (\<lambda>a. ExitSetupError (er a) ERR_MOUNT_BIND_LIB ''mount_file_not_found'' work_dir src [] []),
        EnsureParentDir (mount_target work_dir src) work_dir,
        pbind (do_call (Open (mount_target work_dir src) 66 438)) (\<lambda>a.
          if rv a \<noteq> -1 then emit (Close (rv a))
          else if er a \<noteq> EEXIST
          then ExitSetupError (er a) ERR_MKDIR_FAILED ''touch_mount_file_target'' work_dir src
                 (mount_target work_dir src) []
          else Done ()),
        require (Mount (Some src) (mount_target work_dir src) None MS_BIND None)
          (\<lambda>a. rv a \<noteq> -1)
          (\<lambda>a. ExitSetupError (er a) ERR_MOUNT_BIND_LIB ''mount_bind_file'' work_dir src
                 (mount_target work_dir src) []),
        require (Mount (Some src) (mount_target work_dir src) None
                   (MS_BIND OR MS_REMOUNT OR MS_RDONLY) None)
          (\<lambda>a. rv a \<noteq> -1)
          (\<lambda>a. ExitSetupError (er a) ERR_REMOUNT_RO ''mount_remount_file_ro'' work_dir src
                 (mount_target work_dir src) [])]"

definition old_root_path :: "string \<Rightarrow> string" where
  "old_root_path work_dir = snprintf_z 512 (work_dir @ ''/old_root'')"

definition setup_pivot :: "string \<Rightarrow> unit prog" where
  "setup_pivot work_dir =
     block
       [require (Mkdir (old_root_path work_dir) 493) (\<lambda>a. rv a \<noteq> -1 \<or> er a = EEXIST)
          (\<lambda>a. ExitSetupError (er a) ERR_MKDIR_FAILED ''mkdir_old_root'' work_dir []
                 (old_root_path work_dir) []),
        require (Pivot_Root work_dir (old_root_path work_dir)) (\<lambda>a. rv a \<noteq> -1)
          (\<lambda>a. ExitSetupError (er a) ERR_PIVOT_ROOT ''pivot_root'' work_dir work_dir
                 (old_root_path work_dir) []),
        require (Chdir ''/'') (\<lambda>a. rv a \<noteq> -1)
          (\<lambda>a. ExitSetupError (er a) ERR_CHDIR_NEW_ROOT ''chdir_new_root'' work_dir ''/'' ''/'' []),
        require (Umount2 ''/old_root'' MNT_DETACH) (\<lambda>a. rv a \<noteq> -1)
          (\<lambda>a. ExitSetupError (er a) ERR_UMOUNT_OLD ''umount_old_root'' work_dir ''/old_root'' [] []),
        emit (Rmdir ''old_root'')]"

definition SetupRootfs :: "GlobalConfig \<Rightarrow> string \<Rightarrow> unit prog" where
  "SetupRootfs cfg work_dir =
     block
       ([require (Mount None ''/'' None (MS_PRIVATE OR MS_REC) None) (\<lambda>a. rv a \<noteq> -1)
           (\<lambda>a. ExitSetupError (er a) ERR_MOUNT_PRIVATE ''mount_private_root'' work_dir ''/'' ''/'' []),
         require (Mount (Some work_dir) work_dir None (MS_BIND OR MS_REC) None) (\<lambda>a. rv a \<noteq> -1)
           (\<lambda>a. ExitSetupError (er a) ERR_MOUNT_BIND_SELF ''mount_bind_self'' work_dir work_dir
                  work_dir [])]
        @ map (setup_mount_dir work_dir) (mount_dirs cfg)
        @ map (setup_mount_file work_dir) (mount_files cfg)
        @ [setup_pivot work_dir])"

subsection \<open>Closing inherited descriptors\<close>

definition close_inherited_fds :: "unit prog" where
  "close_inherited_fds =
     pbind (do_call (Close_Range 3 (- 1))) (\<lambda>a.
       if rv a = 0 then Done ()
       else pbind (do_call Sysconf_Open_Max) (\<lambda>m.
         let max_fd = s32 (rv m);
             max_fd = (if max_fd < 0 then 4096 else max_fd);
             max_fd = (if max_fd > 65536 then 65536 else max_fd)
         in block (map (\<lambda>fd. emit (Close fd)) [3 .. max_fd - 1])))"

subsection \<open>The child that runs a submission\<close>

definition run_cpu_soft :: "int \<Rightarrow> rlim" where
  "run_cpu_soft limit_ms =
     (let cpu_soft = (word_of_int (c_div (s32 (limit_ms + 999)) 1000) :: rlim)
      in if cpu_soft < 1 then 1 else cpu_soft)"

definition run_mem_bytes :: "GlobalConfig \<Rightarrow> int \<Rightarrow> rlim" where
  "run_mem_bytes cfg limit_kb =
     (if limit_kb > 0 then word_of_int limit_kb * 1024 else word_of_int (compile_mem_limit cfg))"

definition run_nproc_cap :: "GlobalConfig \<Rightarrow> rlim" where
  "run_nproc_cap cfg =
     (let nproc_cap = (if cgroup_pids_limit cfg > 0 then word_of_int (cgroup_pids_limit cfg) else 20 :: rlim)
      in if nproc_cap < 10 then 10 else nproc_cap)"

definition tmpfs_opts :: "int \<Rightarrow> int \<Rightarrow> string" where
  "tmpfs_opts size_mb dflt =
     snprintf_z 64 (''size='' @ dec_int (if size_mb > 0 then size_mb else dflt) @ ''m,mode=1777'')"

definition run_redirect :: "RunChildArgs \<Rightarrow> unit prog list" where
  "run_redirect args =
     [or_exit (Dup2 (input_fd args) 0) 101,
      or_exit (Dup2 (output_fd args) 1) 102,
      or_exit (Dup2 (error_fd args) 2) 103]"

definition run_lock_root :: "GlobalConfig \<Rightarrow> unit prog list" where
  "run_lock_root cfg =
     [or_exit_exist (Mkdir ''/tmp'' 1023) ERR_MOUNT_TMP,
      or_exit_exist (Mkdir ''/proc'' 493) ERR_MOUNT_PROC,
      or_exit (Chmod ''/'' 365) ERR_CHDIR_FAILED,
      or_exit (Mount None ''/'' None (MS_REMOUNT OR MS_BIND OR MS_RDONLY) None) ERR_REMOUNT_RO,
      or_exit (Mount (Some ''tmpfs'') ''/tmp'' (Some ''tmpfs'') 0
                 (Some (tmpfs_opts (run_tmpfs_size_mb cfg) 64))) ERR_MOUNT_TMP,
      or_exit (Mount (Some ''proc'') ''/proc'' (Some ''proc'') 0 None) ERR_MOUNT_PROC,
      or_exit (Mount (Some ''proc'') ''/proc'' (Some ''proc'')
                 (MS_REMOUNT OR MS_RDONLY OR MS_NOSUID OR MS_NOEXEC OR MS_NODEV) None)
        ERR_MOUNT_PROC]"

definition run_rlimits :: "GlobalConfig \<Rightarrow> RunChildArgs \<Rightarrow> unit prog list" where
  "run_rlimits cfg args =
     [or_exit (Setrlimit RLIMIT_CPU (run_cpu_soft (time_limit_ms args))
                 (run_cpu_soft (time_limit_ms args) + 1)) ERR_RLIMIT_CPU,
      or_exit (Setrlimit RLIMIT_AS (run_mem_bytes cfg (memory_limit_kb args))
                 (run_mem_bytes cfg (memory_limit_kb args))) ERR_RLIMIT_MEMORY,
      or_exit (Setrlimit RLIMIT_STACK RLIM_INFINITY RLIM_INFINITY) ERR_RLIMIT_STACK,
      or_exit (Setrlimit RLIMIT_NPROC (run_nproc_cap cfg) (run_nproc_cap cfg)) ERR_RLIMIT_NPROC,
      or_exit (Setrlimit RLIMIT_FSIZE (output_limit_bytes args) (output_limit_bytes args))
        ERR_RLIMIT_FSIZE]"

definition run_drop_privileges :: "GlobalConfig \<Rightarrow> unit prog list" where
  "run_drop_privileges cfg =
     [or_exit_nz Setgroups_Empty ERR_SETGID_FAILED,
      or_exit_nz (Chdir ''/'') ERR_CHDIR_FAILED,
      or_exit_nz (Setgid (run_gid cfg)) ERR_SETGID_FAILED,
      or_exit_nz (Setuid (run_uid cfg)) ERR_SETUID_FAILED]"

text \<open>The file name part of a path, and its place below the new root.\<close>

definition base_name :: "string \<Rightarrow> string" where
  "base_name path = (case strrchr path slash of Some (_, f) \<Rightarrow> f | None \<Rightarrow> path)"

definition in_new_root :: "string \<Rightarrow> string" where
  "in_new_root path = snprintf_z 512 (''/'' @ base_name path)"

definition run_exec :: "string \<Rightarrow> unit prog" where
  "run_exec new_exe =
     Call (Exec new_exe [new_exe] (Some [''PATH=/bin:/usr/bin'']))
       (\<lambda>a. if rv a = -1 then ExitRunExecError (er a) new_exe else Stop Execed)"

definition run_confine :: "GlobalConfig \<Rightarrow> RunChildArgs \<Rightarrow> string \<Rightarrow> unit prog list" where
  "run_confine cfg args work_dir =
     [SetupRootfs cfg work_dir]
     @ run_lock_root cfg
     @ run_rlimits cfg args
     @ run_drop_privileges cfg
     @ [or_exit_nz Prctl_No_New_Privs ERR_SANDBOX_EXCEPTION]"

definition RunChildFn :: "GlobalConfig \<Rightarrow> RunChildArgs \<Rightarrow> unit prog" where
  "RunChildFn cfg args =
     pbind (block (run_redirect args @ [close_inherited_fds])) (\<lambda>_.
       case strrchr (strncpy_z 255 (run_exe_path args)) slash of
         None \<Rightarrow> Stop (Exited ERR_CHDIR_FAILED)
       | Some (work_dir, _) \<Rightarrow>
           pbind (block (run_confine cfg args work_dir)) (\<lambda>_.
             pbind ShouldEnableRunSeccomp (\<lambda>enable.
               pbind (if enable then LoadSeccompRules (in_new_root (run_exe_path args)) else Done ()) (\<lambda>_.
                 run_exec (in_new_root (run_exe_path args))))))"

subsection \<open>The child that compiles\<close>

definition compile_work_dir :: "CompileArgs \<Rightarrow> string" where
  "compile_work_dir config =
     (let w = strncpy_z 255 (source_path config)
      in case strrchr w slash of Some (d, _) \<Rightarrow> d | None \<Rightarrow> w)"

definition compile_log_redirect :: "CompileArgs \<Rightarrow> unit prog" where
  "compile_log_redirect config =
     pbind (do_call (Open (log_path config) 524865 420)) (\<lambda>fd.
       if rv fd = -1 then Stop (Exited ERR_OPEN_OUTPUT)
       else pbind (do_call (Dup2 (rv fd) STDERR_FILENO)) (\<lambda>d.
         if rv d = -1 then block [emit (Close (rv fd)), Stop (Exited ERR_DUP2)]
         else emit (Close (rv fd))))"

definition compile_log_limit :: "GlobalConfig \<Rightarrow> rlim" where
  "compile_log_limit cfg =
     word_of_int (if compile_log_max_bytes cfg > 0 then compile_log_max_bytes cfg else 16 * 1024 * 1024)"

definition compile_rlimits :: "GlobalConfig \<Rightarrow> unit prog list" where
  "compile_rlimits cfg =
     [or_exit (Setrlimit RLIMIT_CPU (word_of_int (compile_cpu_limit cfg))
                 (word_of_int (compile_real_limit cfg))) ERR_RLIMIT_CPU,
      or_exit (Setrlimit RLIMIT_AS (word_of_int (compile_mem_limit cfg))
                 (word_of_int (compile_mem_limit cfg))) ERR_RLIMIT_MEMORY,
      or_exit (Setrlimit RLIMIT_FSIZE (compile_log_limit cfg) (compile_log_limit cfg))
        ERR_RLIMIT_FSIZE]"

definition compiler_argv :: "GlobalConfig \<Rightarrow> CompileArgs \<Rightarrow> string list" where
  "compiler_argv cfg config =
     [compiler_path cfg, ''-std=c++20'', ''-O2'', ''-pipe'',
      snprintf_z 32 (''-fmax-errors='' @
        dec_int (if compile_max_errors cfg > 0 then compile_max_errors cfg else 10)),
      in_new_root (source_path config), ''-o'', in_new_root (comp_exe_path config)]"

definition compile_confine :: "GlobalConfig \<Rightarrow> CompileArgs \<Rightarrow> unit prog list" where
  "compile_confine cfg config =
     [SetupRootfs cfg (compile_work_dir config),
      or_exit_exist (Mkdir ''/tmp'' 1023) ERR_MKDIR_FAILED,
      or_exit (Mount (Some ''tmpfs'') ''/tmp'' (Some ''tmpfs'') 0
                 (Some (tmpfs_opts (compile_tmpfs_size_mb cfg) 128))) ERR_MOUNT_TMP]
     @ compile_rlimits cfg
     @ [or_exit_nz Setgroups_Empty ERR_SETGID_FAILED,
        or_exit_nz (Setgid (run_gid cfg)) ERR_SETGID_FAILED,
        or_exit_nz (Setuid (run_uid cfg)) ERR_SETUID_FAILED,
        or_exit_nz Prctl_No_New_Privs ERR_SANDBOX_EXCEPTION,
        LoadCompileSeccompRules]"

definition compile_exec :: "GlobalConfig \<Rightarrow> CompileArgs \<Rightarrow> unit prog" where
  "compile_exec cfg config =
     Call (Exec (compiler_path cfg) (compiler_argv cfg config) None)
       (\<lambda>a. if rv a = -1 then Stop (Exited ERR_EXEC_FAILED) else Stop Execed)"

definition CompileChildFn :: "GlobalConfig \<Rightarrow> CompileArgs \<Rightarrow> unit prog" where
  "CompileChildFn cfg config =
     block
       ([close_inherited_fds, compile_log_redirect config]
        @ compile_confine cfg config
        @ [compile_exec cfg config])"

subsection \<open>How the children end\<close>

lemma append_piece_bound: "length (fst m) \<le> 1535 \<Longrightarrow> length (fst (append_piece m piece)) \<le> 1535"
  by (cases m) (auto simp: append_piece_def)

lemma optional_piece_bound:
  "length (fst m) \<le> 1535 \<Longrightarrow> length (fst (optional_piece l s m)) \<le> 1535"
  by (simp add: optional_piece_def append_piece_bound)

lemma setup_error_message_bound:
  "length (setup_error_message err code step t u g eu eg wd src tg ex) \<le> 1536"
  using optional_piece_bound [OF optional_piece_bound [OF optional_piece_bound [OF append_piece_bound]],
      of "([], 0)"]
  by (simp add: setup_error_message_def Let_def append_piece_bound optional_piece_bound)

lemma ExitSetupError_every [simp]:
  assumes "C Getuid" "C Getgid" "C Geteuid" "C Getegid" "\<And>n. C (Strerror n)"
    and "\<And>m. length m \<le> 1536 \<Longrightarrow> C (Write 2 m)" and "E (Exited code)"
  shows "every C E R (ExitSetupError err code step wd src tg ex)"
  using assms by (simp add: ExitSetupError_def setup_error_message_bound every_pbind)

lemma ExitRunExecError_every [simp]:
  assumes "\<And>n. C (Strerror n)" "\<And>m. length m \<le> 1024 \<Longrightarrow> C (Write 2 m)" "E (Exited ERR_EXEC_FAILED)"
  shows "every C E R (ExitRunExecError err exe)"
  using assms by (simp add: ExitRunExecError_def every_pbind)

lemma aborts_ExitSetupError [simp]: "aborts (ExitSetupError err code step wd src tg ex)"
  by (simp add: aborts_def)

lemmas step_defs = or_exit_def or_exit_exist_def or_exit_nz_def

text \<open>
  A set of calls and exits that a fragment of the child stays within. \<open>C\<close> must hold of what the
  failure reports use; the interface is shared by all the fragments below.
\<close>

locale child_contract =
  fixes C :: "call \<Rightarrow> bool" and E :: "stop \<Rightarrow> bool"
  assumes report_calls: "C Getuid" "C Getgid" "C Geteuid" "C Getegid" "C (Strerror n)"
    and report_write: "length m \<le> 1536 \<Longrightarrow> C (Write 2 m)"
    and error_exits: "c \<in> set sandbox_error_codes \<Longrightarrow> E (Exited c)"
begin

lemma exits [simp]:
  "E (Exited ERR_MKDIR_FAILED)" "E (Exited ERR_MOUNT_BIND_LIB)" "E (Exited ERR_REMOUNT_RO)"
  "E (Exited ERR_PIVOT_ROOT)" "E (Exited ERR_CHDIR_NEW_ROOT)" "E (Exited ERR_UMOUNT_OLD)"
  "E (Exited ERR_MOUNT_PRIVATE)" "E (Exited ERR_MOUNT_BIND_SELF)" "E (Exited ERR_MOUNT_TMP)"
  "E (Exited ERR_MOUNT_PROC)" "E (Exited ERR_CHDIR_FAILED)" "E (Exited ERR_RLIMIT_CPU)"
  "E (Exited ERR_RLIMIT_MEMORY)" "E (Exited ERR_RLIMIT_STACK)" "E (Exited ERR_RLIMIT_NPROC)"
  "E (Exited ERR_RLIMIT_FSIZE)" "E (Exited ERR_SETGID_FAILED)" "E (Exited ERR_SETUID_FAILED)"
  "E (Exited ERR_SANDBOX_EXCEPTION)" "E (Exited ERR_EXEC_FAILED)" "E (Exited ERR_OPEN_OUTPUT)"
  "E (Exited ERR_DUP2)"
  by (rule error_exits; simp add: sandbox_error_codes_def)+

lemma setup_error [simp]:
  "E (Exited code) \<Longrightarrow> every C E R (ExitSetupError err code step wd src tg ex)"
  by (simp add: report_calls report_write)

lemma run_exec_error [simp]: "every C E R (ExitRunExecError err exe)"
  by (simp add: report_calls report_write)

lemma parent_dirs:
  assumes "\<And>i m. C (Mkdir (base @ i) m)"
  shows "every C E (\<lambda>_. True) (EnsureParentDir path base)"
proof -
  have "C (Mkdir t m)" if "take (length base) t = base" for t m
    using assms [of "drop (length base) t" m] that by (metis append_take_drop_id)
  then show ?thesis
    by (auto simp: EnsureParentDir_def list_all_iff min_absorb1 intro!: every_block split: option.splits)
qed

lemma mount_dir_step:
  assumes "\<And>m. C (Access src m)" "\<And>i m. C (Mkdir (wd @ i) m)" "\<And>m. C (Mkdir (mount_target wd src) m)"
    and "\<And>f. C (Mount (Some src) (mount_target wd src) None f None)"
  shows "every C E (\<lambda>_. True) (setup_mount_dir wd src)"
  unfolding setup_mount_dir_def using assms by (intro every_block) (simp add: parent_dirs)

lemma mount_file_step:
  assumes "\<And>m. C (Access src m)" "\<And>i m. C (Mkdir (wd @ i) m)" "\<And>f m. C (Open (mount_target wd src) f m)"
    "\<And>fd. C (Close fd)" "\<And>f. C (Mount (Some src) (mount_target wd src) None f None)"
  shows "every C E (\<lambda>_. True) (setup_mount_file wd src)"
  unfolding setup_mount_file_def using assms
  by (intro every_block) (simp add: parent_dirs every_pbind)

lemma pivot_step:
  assumes "\<And>m. C (Mkdir (old_root_path wd) m)" "C (Pivot_Root wd (old_root_path wd))"
    "C (Chdir ''/'')" "\<And>f. C (Umount2 ''/old_root'' f)" "C (Rmdir ''old_root'')"
  shows "every C E (\<lambda>_. True) (setup_pivot wd)"
  unfolding setup_pivot_def using assms by (intro every_block) simp

lemma rootfs:
  assumes "\<And>f. C (Mount None ''/'' None f None)" "\<And>f. C (Mount (Some wd) wd None f None)"
    and "\<And>src m. src \<in> set (mount_dirs cfg) \<union> set (mount_files cfg) \<Longrightarrow> C (Access src m)"
    and "\<And>i m. C (Mkdir (wd @ i) m)"
    and "\<And>src m. src \<in> set (mount_dirs cfg) \<Longrightarrow> C (Mkdir (mount_target wd src) m)"
    and "\<And>src f m. src \<in> set (mount_files cfg) \<Longrightarrow> C (Open (mount_target wd src) f m)"
    and "\<And>fd. C (Close fd)"
    and "\<And>src f. src \<in> set (mount_dirs cfg) \<union> set (mount_files cfg) \<Longrightarrow>
           C (Mount (Some src) (mount_target wd src) None f None)"
    and "\<And>m. C (Mkdir (old_root_path wd) m)" "C (Pivot_Root wd (old_root_path wd))"
    and "C (Chdir ''/'')" "\<And>f. C (Umount2 ''/old_root'' f)" "C (Rmdir ''old_root'')"
  shows "every C E (\<lambda>_. True) (SetupRootfs cfg wd)"
  unfolding SetupRootfs_def using assms
  by (intro every_block) (auto simp: list_all_iff intro!: mount_dir_step mount_file_step pivot_step)

lemma close_fds:
  assumes "\<And>n w. C (Close_Range n w)" "C Sysconf_Open_Max" "\<And>fd. C (Close fd)"
  shows "every C E (\<lambda>_. True) close_inherited_fds"
proof -
  have "every C E (\<lambda>_. True) (block (map (\<lambda>fd. emit (Close fd)) fds))" for fds
    by (rule every_block) (simp add: list_all_iff assms)
  then show ?thesis using assms by (simp add: close_inherited_fds_def Let_def every_pbind)
qed

end

text \<open>A contract that lets through every call but, perhaps, \<^verbatim>\<open>exec\<close>.\<close>

definition is_exec :: "call \<Rightarrow> bool" where
  "is_exec c = (case c of Exec _ _ _ \<Rightarrow> True | _ \<Rightarrow> False)"

lemma is_exec_Exec [simp]: "is_exec (Exec p av ev)"
  by (simp add: is_exec_def)

locale child_open = child_contract +
  assumes other_calls: "\<not> is_exec c \<Longrightarrow> C c"
begin

lemma rootfs_open: "every C E (\<lambda>_. True) (SetupRootfs cfg wd)"
  by (rule rootfs) (simp_all add: other_calls is_exec_def)

lemma filter_open: "every C E (\<lambda>_. True) (load_filter d rs)"
  by (rule load_filter_every) (simp_all add: other_calls is_exec_def rule_call_def split: prod.splits)

lemma enable_open: "every C E (\<lambda>_. True) ShouldEnableRunSeccomp"
  by (simp add: ShouldEnableRunSeccomp_def other_calls is_exec_def split: option.splits)

lemma run_confine_open: "every C E (\<lambda>_. True) (block (run_confine cfg args wd))"
  by (rule every_block)
    (simp add: run_confine_def run_lock_root_def run_rlimits_def run_drop_privileges_def step_defs
      rootfs_open other_calls is_exec_def)

lemma compile_prepare_open:
  "every C E (\<lambda>_. True)
     (block ([close_inherited_fds, compile_log_redirect config] @ compile_confine cfg config))"
  by (rule every_block)
    (simp add: close_fds compile_log_redirect_def every_pbind compile_confine_def rootfs_open
      step_defs compile_rlimits_def LoadCompileSeccompRules_def filter_open other_calls is_exec_def)

end

text \<open>The run child also uses three exit codes of its own when a redirection fails.\<close>

locale run_child_open = child_open +
  assumes redirect_exits: "E (Exited 101)" "E (Exited 102)" "E (Exited 103)"
begin

lemma redirect_open: "every C E (\<lambda>_. True) (block (run_redirect args @ [close_inherited_fds]))"
  by (rule every_block)
    (simp add: run_redirect_def step_defs close_fds other_calls redirect_exits is_exec_def)

end

definition named_stop :: "stop \<Rightarrow> bool" where
  "named_stop s \<longleftrightarrow> s = Execed \<or> (\<exists>c \<in> set sandbox_error_codes. s = Exited c)"

definition child_stop :: "stop \<Rightarrow> bool" where
  "child_stop s \<longleftrightarrow> s = Execed \<or> (\<exists>c. s = Exited c \<and> (c \<in> set sandbox_error_codes \<or> c \<in> {101, 102, 103}))"

interpretation any_call: run_child_open "\<lambda>_. True" child_stop
  by unfold_locales (auto simp: child_stop_def)

interpretation named_exit: child_open "\<lambda>_. True" named_stop
  by unfold_locales (auto simp: named_stop_def)

interpretation no_exec: run_child_open "\<lambda>c. \<not> is_exec c" "\<lambda>_. True"
  by unfold_locales (auto simp: is_exec_def)

lemma run_exec_any: "every (\<lambda>_. True) child_stop (\<lambda>_. False) (run_exec exe)"
  by (simp add: run_exec_def) (simp add: child_stop_def)

lemma RunChildFn_ends: "every (\<lambda>_. True) child_stop (\<lambda>_. False) (RunChildFn cfg args)"
  unfolding RunChildFn_def
  by (auto intro!: every_unit_pbind any_call.redirect_open any_call.run_confine_open
      any_call.enable_open run_exec_any any_call.filter_open
      simp: LoadSeccompRules_def child_stop_def sandbox_error_codes_def split: option.splits)

lemma CompileChildFn_split:
  "CompileChildFn cfg config =
     pbind (block ([close_inherited_fds, compile_log_redirect config] @ compile_confine cfg config))
       (\<lambda>_. compile_exec cfg config)"
  using block_append [of "[close_inherited_fds, compile_log_redirect config] @ compile_confine cfg config"
      "[compile_exec cfg config]"]
  by (simp add: CompileChildFn_def)

lemma CompileChildFn_ends: "every (\<lambda>_. True) named_stop (\<lambda>_. False) (CompileChildFn cfg config)"
  unfolding CompileChildFn_split
  by (rule every_unit_pbind [OF named_exit.compile_prepare_open])
    (auto simp: compile_exec_def named_stop_def sandbox_error_codes_def)

subsection \<open>What has happened before exec\<close>

lemma ensures_or_exit [simp]: "ensures (or_exit c code) [c]"
  by (simp add: or_exit_def ensures_require)

lemma ensures_or_exit_nz [simp]: "ensures (or_exit_nz c code) [c]"
  unfolding or_exit_nz_def by (rule ensures_require) simp_all

lemma ensures_step [simp]: "(\<And>a. aborts (fail a)) \<Longrightarrow> ensures (require c (\<lambda>a. rv a \<noteq> -1) fail) [c]"
  by (simp add: ensures_require)

text \<open>The mounts that put one directory or file into the new root, read-only.\<close>

definition dir_mounts :: "string \<Rightarrow> string \<Rightarrow> call list" where
  "dir_mounts wd src =
     [Mount (Some src) (mount_target wd src) None (MS_BIND OR MS_REC) None,
      Mount (Some src) (mount_target wd src) None (MS_BIND OR MS_REC OR MS_RDONLY OR MS_REMOUNT) None]"

definition file_mounts :: "string \<Rightarrow> string \<Rightarrow> call list" where
  "file_mounts wd src =
     [Mount (Some src) (mount_target wd src) None MS_BIND None,
      Mount (Some src) (mount_target wd src) None (MS_BIND OR MS_REMOUNT OR MS_RDONLY) None]"

definition rootfs_calls :: "GlobalConfig \<Rightarrow> string \<Rightarrow> call list" where
  "rootfs_calls cfg wd =
     [Mount None ''/'' None (MS_PRIVATE OR MS_REC) None,
      Mount (Some wd) wd None (MS_BIND OR MS_REC) None]
     @ concat (map (dir_mounts wd) (mount_dirs cfg))
     @ concat (map (file_mounts wd) (mount_files cfg))
     @ [Pivot_Root wd (old_root_path wd), Chdir ''/'', Umount2 ''/old_root'' MNT_DETACH]"

definition run_confinement :: "GlobalConfig \<Rightarrow> RunChildArgs \<Rightarrow> string \<Rightarrow> call list" where
  "run_confinement cfg args wd =
     rootfs_calls cfg wd
     @ [Chmod ''/'' 365,
        Mount None ''/'' None (MS_REMOUNT OR MS_BIND OR MS_RDONLY) None,
        Mount (Some ''tmpfs'') ''/tmp'' (Some ''tmpfs'') 0 (Some (tmpfs_opts (run_tmpfs_size_mb cfg) 64)),
        Mount (Some ''proc'') ''/proc'' (Some ''proc'') 0 None,
        Mount (Some ''proc'') ''/proc'' (Some ''proc'')
          (MS_REMOUNT OR MS_RDONLY OR MS_NOSUID OR MS_NOEXEC OR MS_NODEV) None,
        Setrlimit RLIMIT_CPU (run_cpu_soft (time_limit_ms args)) (run_cpu_soft (time_limit_ms args) + 1),
        Setrlimit RLIMIT_AS (run_mem_bytes cfg (memory_limit_kb args)) (run_mem_bytes cfg (memory_limit_kb args)),
        Setrlimit RLIMIT_STACK RLIM_INFINITY RLIM_INFINITY,
        Setrlimit RLIMIT_NPROC (run_nproc_cap cfg) (run_nproc_cap cfg),
        Setrlimit RLIMIT_FSIZE (output_limit_bytes args) (output_limit_bytes args),
        Setgroups_Empty, Chdir ''/'', Setgid (run_gid cfg), Setuid (run_uid cfg), Prctl_No_New_Privs]"

definition compile_confinement :: "GlobalConfig \<Rightarrow> CompileArgs \<Rightarrow> call list" where
  "compile_confinement cfg config =
     rootfs_calls cfg (compile_work_dir config)
     @ [Mount (Some ''tmpfs'') ''/tmp'' (Some ''tmpfs'') 0
          (Some (tmpfs_opts (compile_tmpfs_size_mb cfg) 128)),
        Setrlimit RLIMIT_CPU (word_of_int (compile_cpu_limit cfg)) (word_of_int (compile_real_limit cfg)),
        Setrlimit RLIMIT_AS (word_of_int (compile_mem_limit cfg)) (word_of_int (compile_mem_limit cfg)),
        Setrlimit RLIMIT_FSIZE (compile_log_limit cfg) (compile_log_limit cfg),
        Setgroups_Empty, Setgid (run_gid cfg), Setuid (run_uid cfg), Prctl_No_New_Privs]
     @ map rule_call compile_rules @ [Seccomp_Load]"

lemma ensures_mount_dir: "ensures (setup_mount_dir wd src) (dir_mounts wd src)"
proof -
  have "ensures (setup_mount_dir wd src) (concat [[], [], [], [], [dir_mounts wd src ! 0], [dir_mounts wd src ! 1]])"
    unfolding setup_mount_dir_def by (rule ensures_block) (simp add: dir_mounts_def)
  then show ?thesis by (simp add: dir_mounts_def)
qed

lemma ensures_mount_file: "ensures (setup_mount_file wd src) (file_mounts wd src)"
proof -
  have "ensures (setup_mount_file wd src) (concat [[], [], [], [file_mounts wd src ! 0], [file_mounts wd src ! 1]])"
    unfolding setup_mount_file_def by (rule ensures_block) (simp add: file_mounts_def)
  then show ?thesis by (simp add: file_mounts_def)
qed

lemma ensures_pivot:
  "ensures (setup_pivot wd) [Pivot_Root wd (old_root_path wd), Chdir ''/'', Umount2 ''/old_root'' MNT_DETACH]"
proof -
  have "ensures (setup_pivot wd)
    (concat [[], [Pivot_Root wd (old_root_path wd)], [Chdir ''/''], [Umount2 ''/old_root'' MNT_DETACH], []])"
    unfolding setup_pivot_def by (rule ensures_block) simp
  then show ?thesis by simp
qed

lemma ensures_SetupRootfs: "ensures (SetupRootfs cfg wd) (rootfs_calls cfg wd)"
proof -
  have "ensures (SetupRootfs cfg wd)
    (concat ([[Mount None ''/'' None (MS_PRIVATE OR MS_REC) None],
              [Mount (Some wd) wd None (MS_BIND OR MS_REC) None]]
             @ map (dir_mounts wd) (mount_dirs cfg) @ map (file_mounts wd) (mount_files cfg)
             @ [[Pivot_Root wd (old_root_path wd), Chdir ''/'', Umount2 ''/old_root'' MNT_DETACH]]))"
    unfolding SetupRootfs_def
    by (intro ensures_block list_all2_appendI)
      (simp_all add: ensures_pivot list_all2_map1 list_all2_map2 ensures_mount_dir ensures_mount_file
        list_all2_refl)
  then show ?thesis by (simp add: rootfs_calls_def)
qed

lemma list_all2_ensures_single:
  "list_all2 ensures ps (map (\<lambda>c. [c]) cs) \<Longrightarrow> ensures (block ps) cs"
  using ensures_block [of ps "map (\<lambda>c. [c]) cs"] by (simp add: concat_map_singleton)

lemma ensures_run_confine: "ensures (block (run_confine cfg args wd)) (run_confinement cfg args wd)"
proof -
  have "ensures (block (run_confine cfg args wd))
    (concat ([rootfs_calls cfg wd, [], []]
       @ map (\<lambda>c. [c]) (drop (length (rootfs_calls cfg wd)) (run_confinement cfg args wd))))"
    by (rule ensures_block)
      (simp add: run_confine_def run_confinement_def ensures_SetupRootfs run_lock_root_def
        run_rlimits_def run_drop_privileges_def)
  then show ?thesis by (simp add: run_confinement_def)
qed

lemma ensures_load_filter: "ensures (load_filter d rs) (map rule_call rs @ [Seccomp_Load])"
proof (rule ensuresI)
  fix tr x assume r: "runs (load_filter d rs) tr (Ret x)"
  then have r: "runs (load_filter d rs) tr (Ret ())" by simp
  from load_filter_calls(1) [OF r] obtain a t b c where
    tr: "tr = (Seccomp_Init d, a) # t @ [(Seccomp_Load, b), (Seccomp_Release, c)]"
    and t: "map fst t = map rule_call rs"
    by (auto simp: map_eq_Cons_conv map_eq_append_conv)
  from load_filter_calls(2) [OF r] have "\<forall>e \<in> set t. rv (snd e) = 0" "rv b = 0"
    by (auto simp: tr butlast_append list_all_iff)
  then have "oks t = map rule_call rs" by (simp add: oks_def t [symmetric] filter_id_conv)
  with \<open>rv b = 0\<close> have "oks tr = oks [(Seccomp_Init d, a)] @ (map rule_call rs @ [Seccomp_Load]) @ oks [(Seccomp_Release, c)]"
    by (simp add: tr)
  then show "subseq (map rule_call rs @ [Seccomp_Load]) (oks tr)"
    by (metis list_emb_append2 list_emb_prefix subseq_order.refl)
qed

lemma ensures_compile_confine:
  "ensures (block ([close_inherited_fds, compile_log_redirect config] @ compile_confine cfg config))
     (compile_confinement cfg config)"
proof -
  have "ensures (block ([close_inherited_fds, compile_log_redirect config] @ compile_confine cfg config))
    (concat ([[], [], rootfs_calls cfg (compile_work_dir config), []]
       @ map (\<lambda>c. [c]) (take 8 (drop (length (rootfs_calls cfg (compile_work_dir config)))
            (compile_confinement cfg config)))
       @ [map rule_call compile_rules @ [Seccomp_Load]]))"
    by (rule ensures_block)
      (simp add: compile_confine_def compile_confinement_def ensures_SetupRootfs compile_rlimits_def
        LoadCompileSeccompRules_def ensures_load_filter)
  then show ?thesis by (simp add: compile_confinement_def)
qed

lemma runs_pbind_event:
  assumes "runs (pbind p f) tr r" "e \<in> set tr" "every C E R p" "\<not> C (fst e)"
  obtains x t1 t2 where "runs p t1 (Ret x)" "runs (f x) t2 r" "tr = t1 @ t2" "e \<in> set t2"
    "\<And>e. e \<in> set t1 \<Longrightarrow> C (fst e)"
proof -
  from assms(1) consider (ret) x t1 t2 where "runs p t1 (Ret x)" "runs (f x) t2 r" "tr = t1 @ t2"
    | (stop) s where "runs p tr (Stopped s)"
    by (auto simp: runs_pbind_iff)
  then show thesis
  proof cases
    case ret
    then have c: "C (fst e)" if "e \<in> set t1" for e
      using that every_calls [OF ret(1) assms(3)] by blast
    have "e \<notin> set t1" using c [of e] assms(4) by blast
    with ret assms(2) have "e \<in> set t2" by auto
    with ret c show thesis using that by blast
  next
    case stop
    then show thesis using every_calls [OF stop assms(3) assms(2)] assms(4) by simp
  qed
qed

lemma runs_run_exec_event:
  assumes "runs (run_exec exe) tr r" "(Exec p av ev, a) \<in> set tr"
  shows "p = exe \<and> (\<exists>post. tr = (Exec p av ev, a) # post)"
proof -
  from assms(1) obtain b t where tr: "tr = (Exec exe [exe] (Some [''PATH=/bin:/usr/bin'']), b) # t"
    and t: "runs (if rv b = -1 then ExitRunExecError (er b) exe else Stop Execed) t r"
    by (auto simp: run_exec_def runs_Call_iff)
  have "every (\<lambda>c. \<not> is_exec c) (\<lambda>_. True) (\<lambda>_. True)
      (if rv b = -1 then ExitRunExecError (er b) exe else Stop Execed)"
    by simp
  from every_calls [OF t this, of "(Exec p av ev, a)"] have "(Exec p av ev, a) \<notin> set t" by auto
  with assms(2) tr show ?thesis by auto
qed

text \<open>From the environment variable on: either the filter is off, or all of it is loaded, then exec.\<close>

definition run_last_steps :: "string \<Rightarrow> unit prog" where
  "run_last_steps exe =
     pbind ShouldEnableRunSeccomp (\<lambda>enable.
       pbind (if enable then LoadSeccompRules exe else Done ()) (\<lambda>_. run_exec exe))"

lemma run_last_steps_event:
  assumes "runs (run_last_steps exe) tr r" "(Exec p av ev, a) \<in> set tr"
  obtains mode t post where "p = exe"
    "tr = (Getenv ''JUDGE_RUN_SECCOMP_MODE'', mode) # t @ (Exec p av ev, a) # post"
    "\<And>e. e \<in> set t \<Longrightarrow> \<not> is_exec (fst e)"
    "body mode \<noteq> Some ''off'' \<Longrightarrow> subseq (map rule_call run_rules @ [Seccomp_Load]) (oks t)"
proof -
  from assms obtain en t5 t6 where 4: "tr = t5 @ t6" "(Exec p av ev, a) \<in> set t6"
      "runs ShouldEnableRunSeccomp t5 (Ret en)"
      "runs (pbind (if en then LoadSeccompRules exe else Done ()) (\<lambda>_. run_exec exe)) t6 r"
    unfolding run_last_steps_def by (elim runs_pbind_event [OF _ _ no_exec.enable_open]) auto
  from 4(3) obtain mode where 5: "t5 = [(Getenv ''JUDGE_RUN_SECCOMP_MODE'', mode)]"
    "en \<longleftrightarrow> body mode \<noteq> Some ''off''"
    by (auto simp: ShouldEnableRunSeccomp_def runs_Call_iff split: option.splits if_splits)
  have "every (\<lambda>c. \<not> is_exec c) (\<lambda>_. True) (\<lambda>_. True) (if en then LoadSeccompRules exe else Done ())"
    by (simp add: LoadSeccompRules_def no_exec.filter_open)
  with 4(4,2) obtain t7 t8 where 6: "t6 = t7 @ t8" "(Exec p av ev, a) \<in> set t8"
      "runs (if en then LoadSeccompRules exe else Done ()) t7 (Ret ())" "runs (run_exec exe) t8 r"
    and ne7: "\<And>e. e \<in> set t7 \<Longrightarrow> \<not> is_exec (fst e)"
    by (elim runs_pbind_event) auto
  from runs_run_exec_event [OF 6(4,2)] obtain post where 7: "p = exe" "t8 = (Exec p av ev, a) # post"
    by blast
  have "subseq (map rule_call run_rules @ [Seccomp_Load]) (oks t7)" if "body mode \<noteq> Some ''off''"
    using that 5(2) 6(3) ensuresD [OF ensures_load_filter] by (simp add: LoadSeccompRules_def)
  with that [of mode t7 post] ne7 7 4(1) 5(1) 6(1) show thesis by simp
qed

subsection \<open>Properties\<close>

text \<open>
  C1. No submission runs unconfined. Whatever the kernel answers, if the run child reaches
  \<^verbatim>\<open>execle\<close>, then before that call every confinement step has succeeded, in this order: private
  propagation, bind mount of the work directory, every configured directory and file bound
  and remounted read-only, \<^verbatim>\<open>pivot_root\<close>, detaching the old root, root locked and remounted
  read-only, tmpfs and read-only proc, the five resource limits, groups dropped, then gid,
  then uid, then \<^verbatim>\<open>no_new_privs\<close>; and, unless \<^verbatim>\<open>JUDGE_RUN_SECCOMP_MODE\<close> is \<^verbatim>\<open>off\<close>, the whole system
  call white list was added and loaded after them. Nothing else was executed before.
\<close>

theorem run_child_confined_before_exec:
  assumes "runs (RunChildFn cfg args) tr r" and "(Exec p av ev, a) \<in> set tr"
  shows "\<exists>wd f pre post mode.
     strncpy_z 255 (run_exe_path args) = wd @ slash # f \<and> slash \<notin> set f \<and>
     tr = pre @ (Exec p av ev, a) # post \<and> p = in_new_root (run_exe_path args) \<and>
     (\<forall>e \<in> set pre. \<not> is_exec (fst e)) \<and>
     (Getenv ''JUDGE_RUN_SECCOMP_MODE'', mode) \<in> set pre \<and>
     (if body mode = Some ''off'' then subseq (run_confinement cfg args wd) (oks pre)
      else subseq (run_confinement cfg args wd @ map rule_call run_rules @ [Seccomp_Load]) (oks pre))"
proof -
  let ?exe = "in_new_root (run_exe_path args)"
  from assms obtain t1 t2 where 1: "tr = t1 @ t2" "(Exec p av ev, a) \<in> set t2"
      "runs (case strrchr (strncpy_z 255 (run_exe_path args)) slash of
         None \<Rightarrow> Stop (Exited ERR_CHDIR_FAILED)
       | Some (work_dir, _) \<Rightarrow>
           pbind (block (run_confine cfg args work_dir)) (\<lambda>_. run_last_steps ?exe)) t2 r"
    and ne1: "\<And>e. e \<in> set t1 \<Longrightarrow> \<not> is_exec (fst e)"
    unfolding RunChildFn_def run_last_steps_def [symmetric]
    by (elim runs_pbind_event [OF _ _ no_exec.redirect_open]) auto
  then obtain wd f where wd: "strrchr (strncpy_z 255 (run_exe_path args)) slash = Some (wd, f)"
    and 2: "runs (pbind (block (run_confine cfg args wd)) (\<lambda>_. run_last_steps ?exe)) t2 r"
    by (auto split: option.splits)
  from 2 1(2) obtain t3 t4 where 3: "t2 = t3 @ t4" "(Exec p av ev, a) \<in> set t4"
      "runs (block (run_confine cfg args wd)) t3 (Ret ())" "runs (run_last_steps ?exe) t4 r"
    and ne3: "\<And>e. e \<in> set t3 \<Longrightarrow> \<not> is_exec (fst e)"
    by (elim runs_pbind_event [OF _ _ no_exec.run_confine_open]) auto
  from run_last_steps_event [OF 3(4,2)] obtain mode t post where 4: "p = ?exe"
    "t4 = (Getenv ''JUDGE_RUN_SECCOMP_MODE'', mode) # t @ (Exec p av ev, a) # post"
    "\<And>e. e \<in> set t \<Longrightarrow> \<not> is_exec (fst e)"
    "body mode \<noteq> Some ''off'' \<Longrightarrow> subseq (map rule_call run_rules @ [Seccomp_Load]) (oks t)"
    by metis
  let ?g = "(Getenv ''JUDGE_RUN_SECCOMP_MODE'', mode)"
  let ?pre = "t1 @ t3 @ [?g] @ t"
  have conf: "subseq (run_confinement cfg args wd) (oks t3)"
    using ensures_run_confine 3(3) by (rule ensuresD)
  have okp: "oks ?pre = oks t1 @ oks t3 @ oks [?g] @ oks t" by (simp only: oks_simps(3))
  have "subseq (run_confinement cfg args wd) (oks ?pre)"
    unfolding okp by (rule subseq_in_middle [OF conf])
  moreover have "subseq (run_confinement cfg args wd @ map rule_call run_rules @ [Seccomp_Load]) (oks ?pre)"
    if "body mode \<noteq> Some ''off''"
    unfolding okp by (rule subseq_two_parts [OF conf 4(4) [OF that]])
  moreover have "tr = ?pre @ (Exec p av ev, a) # post" using 1(1) 3(1) 4(2) by simp
  moreover have "\<forall>e \<in> set ?pre. \<not> is_exec (fst e)" using ne1 ne3 4(3) by (auto simp: is_exec_def)
  moreover have "?g \<in> set ?pre" by simp
  ultimately show ?thesis using strrchr_Some [OF wd] 4(1) by (metis (full_types))
qed

text \<open>
  A sample configuration and kernel on which the hypotheses hold: every call succeeds.
\<close>

definition sample_config :: GlobalConfig where
  "sample_config =
     \<lparr>workspace_root = ''/data/workspace'', compiler_path = ''/usr/bin/g++'',
      mount_dirs = [''/lib'', ''/usr''], mount_files = [''/dev/null''],
      compile_cpu_limit = 10, compile_real_limit = 15, compile_mem_limit = 1073741824,
      max_output_size = 10485760, output_buffer_size = 2097152, run_tmpfs_size_mb = 64,
      compile_tmpfs_size_mb = 128, compile_log_max_bytes = 16777216, compile_max_errors = 10,
      run_uid = 65534, run_gid = 65534, cgroup_pids_limit = 20, cgroup_cpu_max_cores = 1,
      cgroup_io_read_bps = 104857600, cgroup_io_write_bps = 104857600\<rparr>"

definition sample_run_args :: RunChildArgs where
  "sample_run_args =
     \<lparr>run_exe_path = ''/data/workspace/job1/main'', run_input_file = [], run_output_file = [],
      run_error_file = [], time_limit_ms = 1000, memory_limit_kb = 131072,
      output_limit_bytes = 12582912, input_fd = 4, output_fd = 5, error_fd = 6\<rparr>"

definition sample_compile_args :: CompileArgs where
  "sample_compile_args =
     \<lparr>source_path = ''/data/workspace/job1/main.cpp'', comp_exe_path = ''/data/workspace/job1/main'',
      log_path = ''/data/workspace/job1/compile_error.log''\<rparr>"

lemma can_return_setup:
  assumes "\<And>src. src \<in> set (mount_dirs cfg) \<Longrightarrow> length wd + length src < 512"
  shows "can_return (SetupRootfs cfg wd)"
proof -
  have p: "can_return (EnsureParentDir t b)" for t b
    by (auto simp: EnsureParentDir_def list_all_iff intro!: can_return_block split: option.splits)
  have "can_return (setup_mount_dir wd src)" if "src \<in> set (mount_dirs cfg)" for src
    unfolding setup_mount_dir_def using assms [OF that] by (intro can_return_block) (simp add: p)
  moreover have "can_return (setup_mount_file wd src)" for src
    unfolding setup_mount_file_def
    by (intro can_return_block)
      (auto simp: p do_call_def intro!: can_return_Call [where a = "ans 0"])
  moreover have "can_return (setup_pivot wd)"
    unfolding setup_pivot_def by (intro can_return_block) simp
  ultimately show ?thesis
    unfolding SetupRootfs_def by (intro can_return_block) (auto simp: list_all_iff)
qed

lemma can_return_load_filter: "can_return (load_filter d rs)"
  unfolding load_filter_def
  by (intro can_return_block) (auto simp: add_syscall_rule_def list_all_iff split: prod.splits)

lemma can_return_close_fds: "can_return close_inherited_fds"
  by (auto simp: close_inherited_fds_def do_call_def intro!: can_return_Call [where a = "ans 0"])

text \<open>A kernel that refuses nothing lets the run child reach its exec.\<close>

lemma run_child_can_exec:
  assumes "strrchr (strncpy_z 255 (run_exe_path args)) slash = Some (wd, f)"
    and "\<And>src. src \<in> set (mount_dirs cfg) \<Longrightarrow> length wd + length src < 512"
  shows "\<exists>tr p av ev a. runs (RunChildFn cfg args) tr (Stopped Execed) \<and> (Exec p av ev, a) \<in> set tr"
proof -
  let ?exe = "in_new_root (run_exe_path args)"
  have x: "runs (run_exec ?exe) [(Exec ?exe [?exe] (Some [''PATH=/bin:/usr/bin'']), ans 0)] (Stopped Execed)"
    by (simp add: run_exec_def)
  have "can_return (block (run_redirect args @ [close_inherited_fds]))"
    by (intro can_return_block) (simp add: run_redirect_def step_defs can_return_close_fds)
  then obtain t1 where t1: "runs (block (run_redirect args @ [close_inherited_fds])) t1 (Ret ())"
    by (auto simp: can_return_def)
  have "can_return (block (run_confine cfg args wd))"
    using assms(2) by (intro can_return_block)
      (simp add: run_confine_def run_lock_root_def run_rlimits_def run_drop_privileges_def step_defs
        can_return_setup)
  then obtain t2 where t2: "runs (block (run_confine cfg args wd)) t2 (Ret ())"
    by (auto simp: can_return_def)
  have t3: "runs ShouldEnableRunSeccomp [(Getenv ''JUDGE_RUN_SECCOMP_MODE'', ans 0)] (Ret True)"
    by (simp add: ShouldEnableRunSeccomp_def)
  from can_return_load_filter obtain t4 where t4: "runs (LoadSeccompRules ?exe) t4 (Ret ())"
    by (auto simp: can_return_def LoadSeccompRules_def)
  from runs_pbind_Ret [OF t4 x] have "\<exists>t. runs (run_last_steps ?exe) t (Stopped Execed) \<and>
      (Exec ?exe [?exe] (Some [''PATH=/bin:/usr/bin'']), ans 0) \<in> set t"
    unfolding run_last_steps_def by (auto intro!: exI runs_pbind_Ret [OF t3])
  then obtain t5 where t5: "runs (run_last_steps ?exe) t5 (Stopped Execed)"
    "(Exec ?exe [?exe] (Some [''PATH=/bin:/usr/bin'']), ans 0) \<in> set t5" by blast
  have "runs (RunChildFn cfg args) (t1 @ t2 @ t5) (Stopped Execed)"
    unfolding RunChildFn_def run_last_steps_def [symmetric] assms(1) option.case prod.case
    by (rule runs_pbind_Ret [OF t1 runs_pbind_Ret [OF t2 t5(1)]])
  moreover have "(Exec ?exe [?exe] (Some [''PATH=/bin:/usr/bin'']), ans 0) \<in> set (t1 @ t2 @ t5)"
    using t5(2) by simp
  ultimately show ?thesis by blast
qed

lemma sample_work_dir:
  "strrchr (strncpy_z 255 (run_exe_path sample_run_args)) slash = Some (''/data/workspace/job1'', ''main'')"
  by (simp add: sample_run_args_def strncpy_z_def c_str_def)

lemma sample_dirs_fit:
  "src \<in> set (mount_dirs sample_config) \<Longrightarrow> length ''/data/workspace/job1'' + length src < 512"
  by (auto simp: sample_config_def)

theorem run_child_confined_before_exec_witness:
  "\<exists>tr p av ev a wd f pre post mode.
     runs (RunChildFn sample_config sample_run_args) tr (Stopped Execed) \<and> (Exec p av ev, a) \<in> set tr \<and>
     strncpy_z 255 (run_exe_path sample_run_args) = wd @ slash # f \<and> slash \<notin> set f \<and>
     tr = pre @ (Exec p av ev, a) # post \<and> p = in_new_root (run_exe_path sample_run_args) \<and>
     (\<forall>e \<in> set pre. \<not> is_exec (fst e)) \<and>
     (Getenv ''JUDGE_RUN_SECCOMP_MODE'', mode) \<in> set pre \<and>
     (if body mode = Some ''off'' then subseq (run_confinement sample_config sample_run_args wd) (oks pre)
      else subseq (run_confinement sample_config sample_run_args wd @ map rule_call run_rules @ [Seccomp_Load]) (oks pre))"
proof -
  obtain tr p av ev a where r: "runs (RunChildFn sample_config sample_run_args) tr (Stopped Execed)"
    and e: "(Exec p av ev, a) \<in> set tr"
    using run_child_can_exec [OF sample_work_dir, of sample_config] sample_dirs_fit by blast
  show ?thesis using r e run_child_confined_before_exec [OF r e] by blast
qed

text \<open>
  C2. The same for compilation: the compiler is only executed after the new root, the tmpfs, the
  compile limits, the dropped privileges, \<^verbatim>\<open>no_new_privs\<close> and the compile filter are all in place,
  and what is executed is the configured compiler with the arguments of \<open>compiler_argv\<close>.
\<close>

theorem compile_child_confined_before_exec:
  assumes "runs (CompileChildFn cfg config) tr r" and "(Exec p av ev, a) \<in> set tr"
  shows "\<exists>pre. tr = pre @ [(Exec p av ev, a)] \<and>
     p = compiler_path cfg \<and> av = compiler_argv cfg config \<and> ev = None \<and>
     (\<forall>e \<in> set pre. \<not> is_exec (fst e)) \<and> subseq (compile_confinement cfg config) (oks pre)"
proof -
  let ?P = "block ([close_inherited_fds, compile_log_redirect config] @ compile_confine cfg config)"
  from assms obtain t1 t2 where t: "tr = t1 @ t2" "(Exec p av ev, a) \<in> set t2" "runs ?P t1 (Ret ())"
      "runs (compile_exec cfg config) t2 r"
    and ne: "\<And>e. e \<in> set t1 \<Longrightarrow> \<not> is_exec (fst e)"
    unfolding CompileChildFn_split
    by (elim runs_pbind_event [OF _ _ no_exec.compile_prepare_open]) auto
  from t(4,2) have "t2 = [(Exec p av ev, a)]" "p = compiler_path cfg" "av = compiler_argv cfg config" "ev = None"
    by (auto simp: compile_exec_def runs_Call_iff split: if_splits)
  with t ne ensuresD [OF ensures_compile_confine t(3)] show ?thesis by auto
qed

lemma compile_child_can_exec:
  assumes "\<And>src. src \<in> set (mount_dirs cfg) \<Longrightarrow> length (compile_work_dir config) + length src < 512"
  shows "\<exists>tr p av ev a. runs (CompileChildFn cfg config) tr (Stopped Execed) \<and> (Exec p av ev, a) \<in> set tr"
proof -
  let ?P = "block ([close_inherited_fds, compile_log_redirect config] @ compile_confine cfg config)"
  have "can_return (compile_log_redirect config)"
    by (auto simp: compile_log_redirect_def do_call_def intro!: can_return_Call [where a = "ans 0"])
  then have "can_return ?P"
    using assms by (intro can_return_block)
      (simp add: compile_confine_def compile_rlimits_def step_defs can_return_setup
        can_return_close_fds can_return_load_filter LoadCompileSeccompRules_def)
  then obtain t where "runs ?P t (Ret ())" by (auto simp: can_return_def)
  moreover have "runs (compile_exec cfg config)
      [(Exec (compiler_path cfg) (compiler_argv cfg config) None, ans 0)] (Stopped Execed)"
    by (simp add: compile_exec_def)
  ultimately have "runs (CompileChildFn cfg config)
      (t @ [(Exec (compiler_path cfg) (compiler_argv cfg config) None, ans 0)]) (Stopped Execed)"
    unfolding CompileChildFn_split by (rule runs_pbind_Ret)
  then show ?thesis by (metis in_set_conv_decomp)
qed

theorem compile_child_confined_before_exec_witness:
  "\<exists>tr p av ev a pre. runs (CompileChildFn sample_config sample_compile_args) tr (Stopped Execed) \<and>
     tr = pre @ [(Exec p av ev, a)] \<and> p = ''/usr/bin/g++'' \<and>
     av = compiler_argv sample_config sample_compile_args \<and> ev = None \<and>
     (\<forall>e \<in> set pre. \<not> is_exec (fst e)) \<and>
     subseq (compile_confinement sample_config sample_compile_args) (oks pre)"
proof -
  have w: "compile_work_dir sample_compile_args = ''/data/workspace/job1''"
    by (simp add: compile_work_dir_def sample_compile_args_def strncpy_z_def c_str_def)
  obtain tr p av ev a where r: "runs (CompileChildFn sample_config sample_compile_args) tr (Stopped Execed)"
    and e: "(Exec p av ev, a) \<in> set tr"
    using compile_child_can_exec [of sample_config sample_compile_args] sample_dirs_fit
    unfolding w by blast
  have "compiler_path sample_config = ''/usr/bin/g++''" by (simp add: sample_config_def)
  with r compile_child_confined_before_exec [OF r e] show ?thesis by (metis (no_types, lifting))
qed

text \<open>
  C3. How the children can end, whatever the kernel answers: neither returns to its caller; the run
  child is replaced by the submission or exits with one of the named sandbox codes or with 101,
  102 or 103; the compile child is replaced by the compiler or exits with a named sandbox code.
\<close>

theorem children_end_with_known_codes:
  "every (\<lambda>_. True) child_stop (\<lambda>_. False) (RunChildFn cfg args) \<and>
   every (\<lambda>_. True) named_stop (\<lambda>_. False) (CompileChildFn cfg config)"
  using RunChildFn_ends CompileChildFn_ends by blast






lemma uint_rlim: "0 \<le> q \<Longrightarrow> q < 2 ^ 64 \<Longrightarrow> uint (word_of_int q :: rlim) = q"
  by (simp add: unsigned_of_int take_bit_int_eq_self)

lemma uint_rlim_Suc: "uint (w :: rlim) < 2 ^ 63 \<Longrightarrow> uint (w + 1) = uint w + 1"
  by (simp add: uint_word_ariths)

lemma uint_run_cpu_soft:
  assumes "0 \<le> t" "t < 2 ^ 31 - 999"
  shows "uint (run_cpu_soft t) = max 1 ((t + 999) div 1000)"
proof -
  let ?q = "(t + 999) div 1000"
  have q: "0 \<le> ?q" "?q < 2 ^ 64" using assms by auto
  have "c_div (s32 (t + 999)) 1000 = ?q"
    using assms by (simp add: s32_id c_div_nonneg)
  then show ?thesis
    using uint_rlim [OF q] by (simp add: run_cpu_soft_def Let_def word_less_alt max_def)
qed

lemma uint_run_mem_bytes: "0 < kb \<Longrightarrow> kb < 2 ^ 31 \<Longrightarrow> uint (run_mem_bytes cfg kb) = kb * 1024"
  by (simp add: run_mem_bytes_def uint_word_ariths uint_rlim)

lemma uint_run_nproc_cap:
  assumes "cgroup_pids_limit cfg < 2 ^ 31"
  shows "uint (run_nproc_cap cfg) = (if 0 < cgroup_pids_limit cfg then max 10 (cgroup_pids_limit cfg) else 20)"
proof (cases "0 < cgroup_pids_limit cfg")
  case True
  with assms have "uint (word_of_int (cgroup_pids_limit cfg) :: rlim) = cgroup_pids_limit cfg"
    by (intro uint_rlim) simp_all
  with True show ?thesis by (simp add: run_nproc_cap_def Let_def word_less_alt max_def)
qed (simp add: run_nproc_cap_def Let_def)

lemma runs_run_rlimits:
  assumes "runs (block (run_rlimits cfg args)) tr (Ret ())"
  shows "map fst tr =
     [Setrlimit RLIMIT_CPU (run_cpu_soft (time_limit_ms args)) (run_cpu_soft (time_limit_ms args) + 1),
      Setrlimit RLIMIT_AS (run_mem_bytes cfg (memory_limit_kb args)) (run_mem_bytes cfg (memory_limit_kb args)),
      Setrlimit RLIMIT_STACK RLIM_INFINITY RLIM_INFINITY,
      Setrlimit RLIMIT_NPROC (run_nproc_cap cfg) (run_nproc_cap cfg),
      Setrlimit RLIMIT_FSIZE (output_limit_bytes args) (output_limit_bytes args)]"
    and "list_all (\<lambda>e. rv (snd e) \<noteq> -1) tr"
  using assms by (auto simp: run_rlimits_def or_exit_def require_def runs_Call_iff split: if_splits)

text \<open>
  C6. The operating-system limits of a run, for limits that do not overflow. A child whose limits were
  all accepted has set these five, in this order: the CPU time, softly to the time limit rounded up to
  whole seconds and at least one second, hard to one second more; the address space, to exactly the
  memory limit in bytes, with no slack (a comment in the source speaks of a buffer), or to the memory
  limit of the compiler when the task has none; no limit on the stack; the number of processes, to the
  configured \<open>cgroup_pids_limit\<close> but at least 10, and to 20 when none is configured; and the file
  size, to the limit handed over by the parent.
\<close>

theorem run_limits_exact:
  assumes "runs (block (run_rlimits cfg args)) tr (Ret ())"
    and "0 \<le> time_limit_ms args" "time_limit_ms args < 2 ^ 31 - 999" "memory_limit_kb args < 2 ^ 31"
    and "0 \<le> compile_mem_limit cfg" "compile_mem_limit cfg < 2 ^ 64" "cgroup_pids_limit cfg < 2 ^ 31"
  shows "\<exists>s h m p. map fst tr =
       [Setrlimit RLIMIT_CPU s h, Setrlimit RLIMIT_AS m m, Setrlimit RLIMIT_STACK RLIM_INFINITY RLIM_INFINITY,
        Setrlimit RLIMIT_NPROC p p, Setrlimit RLIMIT_FSIZE (output_limit_bytes args) (output_limit_bytes args)] \<and>
     list_all (\<lambda>e. rv (snd e) \<noteq> -1) tr \<and>
     uint s = max 1 ((time_limit_ms args + 999) div 1000) \<and> uint h = uint s + 1 \<and>
     time_limit_ms args \<le> 1000 * uint s \<and> 1000 * uint s < max 1 (time_limit_ms args) + 1000 \<and>
     uint m = (if 0 < memory_limit_kb args then memory_limit_kb args * 1024 else compile_mem_limit cfg) \<and>
     uint p = (if 0 < cgroup_pids_limit cfg then max 10 (cgroup_pids_limit cfg) else 20)"
proof (intro exI conjI)
  let ?t = "time_limit_ms args"
  show s: "uint (run_cpu_soft ?t) = max 1 ((?t + 999) div 1000)"
    using assms(2,3) by (rule uint_run_cpu_soft)
  show "uint (run_cpu_soft ?t + 1) = uint (run_cpu_soft ?t) + 1"
    using assms(2,3) by (intro uint_rlim_Suc) (simp add: s)
  have "?t \<le> 1000 * max 1 ((?t + 999) div 1000) \<and> 1000 * max 1 ((?t + 999) div 1000) < max 1 ?t + 1000"
    using assms(2) div_mult_mod_eq [of "?t + 999" 1000] pos_mod_bound [of 1000 "?t + 999"]
      pos_mod_sign [of 1000 "?t + 999"] by (cases "?t = 0"; linarith)
  then show "?t \<le> 1000 * uint (run_cpu_soft ?t)" "1000 * uint (run_cpu_soft ?t) < max 1 ?t + 1000"
    by (simp_all only: s)
  show "uint (run_mem_bytes cfg (memory_limit_kb args)) =
      (if 0 < memory_limit_kb args then memory_limit_kb args * 1024 else compile_mem_limit cfg)"
    using assms(4,5,6) uint_run_mem_bytes by (simp add: run_mem_bytes_def uint_rlim)
  show "uint (run_nproc_cap cfg) = (if 0 < cgroup_pids_limit cfg then max 10 (cgroup_pids_limit cfg) else 20)"
    by (rule uint_run_nproc_cap) (rule assms(7))
qed (rule runs_run_rlimits [OF assms(1)])+

theorem run_limits_exact_witness:
  "\<exists>tr h m p. runs (block (run_rlimits sample_config (sample_run_args\<lparr>time_limit_ms := 1500\<rparr>))) tr (Ret ()) \<and>
     map fst tr =
       [Setrlimit RLIMIT_CPU (run_cpu_soft 1500) h, Setrlimit RLIMIT_AS m m,
        Setrlimit RLIMIT_STACK RLIM_INFINITY RLIM_INFINITY, Setrlimit RLIMIT_NPROC p p,
        Setrlimit RLIMIT_FSIZE 12582912 12582912] \<and>
     uint (run_cpu_soft 1500) = 2 \<and> uint h = 3 \<and> uint m = 134217728 \<and> uint p = 20"
proof -
  let ?args = "sample_run_args\<lparr>time_limit_ms := 1500\<rparr>"
  let ?s = "run_cpu_soft 1500" and ?m = "run_mem_bytes sample_config 131072" and ?p = "run_nproc_cap sample_config"
  define tr where "tr = map (\<lambda>c. (c, ans 0))
       [Setrlimit RLIMIT_CPU ?s (?s + 1), Setrlimit RLIMIT_AS ?m ?m,
        Setrlimit RLIMIT_STACK RLIM_INFINITY RLIM_INFINITY, Setrlimit RLIMIT_NPROC ?p ?p,
        Setrlimit RLIMIT_FSIZE 12582912 12582912]"
  have args: "time_limit_ms ?args = 1500" "memory_limit_kb ?args = 131072" "output_limit_bytes ?args = 12582912"
    by (simp_all add: sample_run_args_def)
  have run: "runs (block (run_rlimits sample_config ?args)) tr (Ret ())"
    by (simp add: run_rlimits_def or_exit_def require_def args tr_def)
  have cfg: "compile_mem_limit sample_config = 1073741824" "cgroup_pids_limit sample_config = 20"
    by (simp_all add: sample_config_def)
  obtain s h m p where
    c: "map fst tr = [Setrlimit RLIMIT_CPU s h, Setrlimit RLIMIT_AS m m,
        Setrlimit RLIMIT_STACK RLIM_INFINITY RLIM_INFINITY, Setrlimit RLIMIT_NPROC p p,
        Setrlimit RLIMIT_FSIZE 12582912 12582912]"
    and v: "uint s = 2" "uint h = 3" "uint m = 134217728" "uint p = 20"
    using run_limits_exact [OF run] unfolding args cfg by auto
  have s: "s = ?s" using c by (simp add: tr_def)
  show ?thesis using run c v unfolding s by (intro exI conjI)
qed

end
