(* ===== verification/Sandbox_Verdict.thy ===== *)
theory Sandbox_Verdict
  imports Messages Cgroup_Manager Sandbox_Isolation
begin

unbundle bit_operations_syntax

text \<open>
  The deciding parts of \<^verbatim>\<open>src/core/worker/sandbox.cpp\<close>: which request ids are accepted, how an exit
  code is named, how the marker left by a failed \<^verbatim>\<open>exec\<close> is found again, and how the end of a run (wait
  status, resource usage, output size) becomes a verdict.
\<close>

subsection \<open>Request ids and paths\<close>

definition IsValidRequestId :: "string \<Rightarrow> bool" where
  "IsValidRequestId i \<longleftrightarrow>
     \<not> (i = [] \<or> 64 < length i) \<and>
     list_all (\<lambda>c. isalnum c \<or> c = CHR ''_'' \<or> c = CHR ''-'') i"

text \<open>\<^verbatim>\<open>fs::path / name\<close> for a name that is not an absolute path.\<close>

definition path_join :: "string \<Rightarrow> string \<Rightarrow> string" where
  "path_join p name = (if p = [] then name else if last p = slash then p @ name else p @ ''/'' @ name)"

subsection \<open>Names of exit codes\<close>

definition ExitCodeToSandboxError :: "int \<Rightarrow> string" where
  "ExitCodeToSandboxError code =
     (if code = ERR_OPEN_OUTPUT then ''io_open_output_failed''
      else if code = ERR_DUP2 then ''io_dup2_failed''
      else if code = ERR_EXEC_FAILED then ''execve_failed''
      else if code = ERR_CHDIR_FAILED then ''chdir_failed''
      else if code = ERR_SETGID_FAILED then ''setgid_failed''
      else if code = ERR_SETUID_FAILED then ''setuid_failed''
      else if code = ERR_RLIMIT_CPU then ''rlimit_cpu_failed''
      else if code = ERR_RLIMIT_MEMORY then ''rlimit_memory_failed''
      else if code = ERR_RLIMIT_STACK then ''rlimit_stack_failed''
      else if code = ERR_RLIMIT_NPROC then ''rlimit_nproc_failed''
      else if code = ERR_RLIMIT_FSIZE then ''rlimit_fsize_failed''
      else if code = ERR_MOUNT_PRIVATE then ''mount_private_failed''
      else if code = ERR_MOUNT_BIND_SELF then ''mount_bind_self_failed''
      else if code = ERR_MOUNT_BIND_LIB then ''mount_bind_lib_failed''
      else if code = ERR_REMOUNT_RO then ''remount_ro_failed''
      else if code = ERR_PIVOT_ROOT then ''pivot_root_failed''
      else if code = ERR_CHDIR_NEW_ROOT then ''chdir_new_root_failed''
      else if code = ERR_UMOUNT_OLD then ''umount_old_root_failed''
      else if code = ERR_MOUNT_PROC then ''mount_proc_failed''
      else if code = ERR_MOUNT_TMP then ''mount_tmpfs_failed''
      else if code = ERR_MKDIR_FAILED then ''mkdir_failed''
      else if code = ERR_SANDBOX_EXCEPTION then ''sandbox_exception''
      else ''sandbox_child_exit_'' @ dec_int code)"

definition FormatSystemError :: "int \<Rightarrow> string \<Rightarrow> string prog" where
  "FormatSystemError err pre = Call (Strerror err) (\<lambda>t. Done (pre @ '': '' @ text_of t))"

subsection \<open>The marker of a failed exec\<close>

record RunExecFailureMarker =
  found :: bool
  detail :: string

text \<open>The lines that repeated \<^verbatim>\<open>std::getline\<close> calls return.\<close>

function text_lines :: "string \<Rightarrow> string list" where
  "text_lines s =
     (if s = [] then []
      else first_line s # text_lines (drop (Suc (length (first_line s))) s))"
  by pat_completeness auto
termination
  by (relation "measure length") auto

declare text_lines.simps [simp del]

definition exec_failed_prefix :: string where
  "exec_failed_prefix = ''[sandbox][run_exec_failed]''"

definition marker_of :: "string \<Rightarrow> RunExecFailureMarker" where
  "marker_of content =
     (case find (prefix exec_failed_prefix) (text_lines content) of
        None \<Rightarrow> \<lparr>found = False, detail = []\<rparr>
      | Some line \<Rightarrow>
          (let d = drop (length exec_failed_prefix) line
           in \<lparr>found = True, detail = (if d \<noteq> [] \<and> hd d = CHR '' '' then tl d else d)\<rparr>))"

definition ReadRunExecFailureMarker :: "string \<Rightarrow> RunExecFailureMarker prog" where
  "ReadRunExecFailureMarker stderr_path =
     (if stderr_path = [] then Done \<lparr>found = False, detail = []\<rparr>
      else Call (Read_File stderr_path) (\<lambda>a.
        case body a of
          None \<Rightarrow> Done \<lparr>found = False, detail = []\<rparr>
        | Some content \<Rightarrow> Done (marker_of content)))"

subsection \<open>Wait status\<close>

definition WIFEXITED :: "int \<Rightarrow> bool" where "WIFEXITED st \<longleftrightarrow> st mod 128 = 0"
definition WEXITSTATUS :: "int \<Rightarrow> int" where "WEXITSTATUS st = (st div 256) mod 256"
definition WTERMSIG :: "int \<Rightarrow> int" where "WTERMSIG st = st mod 128"
definition WIFSIGNALED :: "int \<Rightarrow> bool" where
  "WIFSIGNALED st \<longleftrightarrow> 0 < st mod 128 \<and> st mod 128 < 127"

subsection \<open>Resource usage\<close>

text \<open>\<open>cpu_time_ms\<close> is a double expression, evaluated operation by operation.\<close>

definition time_double :: "int \<Rightarrow> int \<Rightarrow> rat" where
  "time_double sec usec = fl (fl (of_int (s64 (sec * 1000))) + fl (fl (of_int usec) / 1000))"

definition cpu_time_ms :: "rusage \<Rightarrow> rat" where
  "cpu_time_ms u =
     fl (time_double (ru_utime_sec u) (ru_utime_usec u) + time_double (ru_stime_sec u) (ru_stime_usec u))"

definition cpu_time_used :: "rusage \<Rightarrow> int" where
  "cpu_time_used u = s32 \<lceil>cpu_time_ms u\<rceil>"

text \<open>The double nearest to 0.95 is \<open>8556839292003942 * 2^-53\<close>.\<close>

definition mle_threshold :: "int \<Rightarrow> int" where
  "mle_threshold ml_kb =
     s32 \<lceil>fl (fl (of_int ml_kb) * (8556839292003942 / 2 ^ 53))\<rceil>"

text \<open>The cast \<^verbatim>\<open>(uint64_t)g_runner_config.max_output_size\<close> and the comparison on 64 bits.\<close>

definition output_exceeded :: "GlobalConfig \<Rightarrow> int \<Rightarrow> bool" where
  "output_exceeded cfg sz \<longleftrightarrow> (word_of_int (max_output_size cfg) :: 64 word) < word_of_int sz"

subsection \<open>Classification\<close>

abbreviation (input) SIGABRT :: int where "SIGABRT \<equiv> 6"
abbreviation (input) SIGSEGV :: int where "SIGSEGV \<equiv> 11"
abbreviation (input) SIGXCPU :: int where "SIGXCPU \<equiv> 24"
abbreviation (input) SIGXFSZ :: int where "SIGXFSZ \<equiv> 25"

definition classify_exit :: "RunResult \<Rightarrow> RunExecFailureMarker \<Rightarrow> int \<Rightarrow> RunResult" where
  "classify_exit r0 marker code =
     (let r = r0\<lparr>exit_signal := 0, exit_code := code\<rparr> in
      if code = 0 then r\<lparr>status := OK\<rparr>
      else if code = ERR_EXEC_FAILED then
        (if found marker then
           r\<lparr>status := SYSTEM_ERROR, sandbox_error := ''execve_failed'',
             error_message :=
               (if detail marker \<noteq> [] then msg_start_failed @ detail marker
                else msg_start_failed @ ''execve failed'')\<rparr>
         else r\<lparr>status := RUNTIME_ERROR\<rparr>)
      else if 120 \<le> code then
        r\<lparr>status := SYSTEM_ERROR, sandbox_error := ExitCodeToSandboxError code,
          error_message := msg_sandbox_panic @ dec_int code @ ''): '' @ GetExitCodeDescription code\<rparr>
      else r\<lparr>status := RUNTIME_ERROR\<rparr>)"

definition runtime_error_signal :: "RunResult \<Rightarrow> int \<Rightarrow> RunResult prog" where
  "runtime_error_signal r signal =
     Call (Strsignal signal) (\<lambda>t.
       Done (r\<lparr>status := RUNTIME_ERROR,
               error_message := ''Runtime Error (Signal '' @ dec_int signal @ '': '' @ text_of t @ '')''\<rparr>))"

definition classify_signal :: "RunResult \<Rightarrow> int \<Rightarrow> int \<Rightarrow> int \<Rightarrow> RunResult prog" where
  "classify_signal r0 signal tl_ms ml_kb =
     (let r = r0\<lparr>exit_signal := signal\<rparr> in
      if signal = SIGXCPU then Done (r\<lparr>status := TIME_LIMIT_EXCEEDED\<rparr>)
      else if signal = SIGKILL then
        (if tl_ms < time_used r then Done (r\<lparr>status := TIME_LIMIT_EXCEEDED\<rparr>)
         else if ml_kb < memory_used r then Done (r\<lparr>status := MEMORY_LIMIT_EXCEEDED\<rparr>)
         else runtime_error_signal r signal)
      else if signal = SIGXFSZ then Done (r\<lparr>status := OUTPUT_LIMIT_EXCEEDED\<rparr>)
      else if signal = SIGABRT \<or> signal = SIGSEGV then
        (if mle_threshold ml_kb \<le> memory_used r then Done (r\<lparr>status := MEMORY_LIMIT_EXCEEDED\<rparr>)
         else runtime_error_signal r signal)
      else runtime_error_signal r signal)"

definition classify_status :: "RunResult \<Rightarrow> RunExecFailureMarker \<Rightarrow> int \<Rightarrow> int \<Rightarrow> int \<Rightarrow> RunResult prog" where
  "classify_status r marker wstatus tl_ms ml_kb =
     (if WIFEXITED wstatus then Done (classify_exit r marker (WEXITSTATUS wstatus))
      else if WIFSIGNALED wstatus then classify_signal r (WTERMSIG wstatus) tl_ms ml_kb
      else Done (r\<lparr>status := SYSTEM_ERROR, sandbox_error := ''wait_status_unknown'',
                   error_message := ''unknown wait status''\<rparr>))"

text \<open>What remains of \<^verbatim>\<open>Sandbox::Run\<close> after the child has been reaped.\<close>

definition measured_memory :: "CgroupManager option \<Rightarrow> bool \<Rightarrow> rusage \<Rightarrow> int prog" where
  "measured_memory cg enabled ru =
     (case cg of
        Some m \<Rightarrow>
          if enabled then pbind (GetMemoryPeak m) (\<lambda>peak.
            Done (if 0 < peak then uint (peak div 1024) else ru_maxrss ru))
          else Done (ru_maxrss ru)
      | None \<Rightarrow> Done (ru_maxrss ru))"

definition output_limit_hit :: "GlobalConfig \<Rightarrow> string \<Rightarrow> bool prog" where
  "output_limit_hit cfg output_path =
     Call (Fs_Exists output_path) (\<lambda>a.
       if rv a = 0 then Done False
       else Call (Fs_File_Size output_path) (\<lambda>b. Done (er b = 0 \<and> output_exceeded cfg (rv b))))"

definition finish_run ::
  "GlobalConfig \<Rightarrow> CgroupManager option \<Rightarrow> bool \<Rightarrow> string \<Rightarrow> string \<Rightarrow> int \<Rightarrow> int \<Rightarrow> int \<Rightarrow> rusage \<Rightarrow> RunResult prog"
where
  "finish_run cfg cg enabled output_path stderr_path tl_ms ml_kb wstatus ru =
     pbind (measured_memory cg enabled ru) (\<lambda>mem.
     let r = init_run_result\<lparr>time_used := cpu_time_used ru, memory_used := mem\<rparr> in
     pbind (output_limit_hit cfg output_path) (\<lambda>ole.
     if ole then Done (r\<lparr>status := OUTPUT_LIMIT_EXCEEDED, memory_used := ru_maxrss ru\<rparr>)
     else if ml_kb < memory_used r then Done (r\<lparr>status := MEMORY_LIMIT_EXCEEDED\<rparr>)
     else pbind (ReadRunExecFailureMarker stderr_path) (\<lambda>marker.
       classify_status r marker wstatus tl_ms ml_kb)))"

lemmas verdict_defs [prog_defs] =
  FormatSystemError_def ReadRunExecFailureMarker_def runtime_error_signal_def classify_signal_def
  classify_status_def measured_memory_def output_limit_hit_def finish_run_def

subsection \<open>Accepted request ids\<close>

lemma isalnum_not: "\<not> isalnum slash" "\<not> isalnum (CHR ''.'')" "\<not> isalnum NUL"
  by (simp_all add: isalnum_def isdigit_def byte_of_def)

lemma valid_id_chars:
  "IsValidRequestId i \<Longrightarrow> slash \<notin> set i \<and> CHR ''.'' \<notin> set i \<and> NUL \<notin> set i \<and> i \<noteq> [] \<and> length i \<le> 64"
  using isalnum_not by (auto simp: IsValidRequestId_def list_all_iff)

lemma path_join_inj: "path_join p a = path_join p b \<longleftrightarrow> a = b"
  by (simp add: path_join_def)

subsection \<open>Times and thresholds\<close>

lemma time_double_close:
  assumes "0 \<le> sec" "sec < 2 ^ 20" "0 \<le> usec" "usec < 1000000"
  shows "\<bar>time_double sec usec - (of_int (sec * 1000) + of_int usec / 1000)\<bar> \<le> 1 / 2 ^ 20"
    and "0 \<le> time_double sec usec" "time_double sec usec \<le> 2 ^ 31"
proof -
  define y where "y = fl (of_int usec / 1000)"
  have sec: "fl (of_int (s64 (sec * 1000))) = of_int (sec * 1000)"
  proof -
    have "s64 (sec * 1000) = sec * 1000" by (rule s64_id) (use assms in simp_all)
    then show ?thesis using assms fl_of_int [of "sec * 1000"] by simp
  qed
  have usec: "fl (of_int usec) = of_int usec" using assms by (intro fl_of_int) simp
  have u: "(0 :: rat) \<le> of_int usec / 1000" "(of_int usec :: rat) / 1000 \<le> of_int 1000"
    using assms by simp_all
  have y: "\<bar>y - of_int usec / 1000\<bar> \<le> 1000 / 2 ^ 53"
    unfolding y_def by (rule ieee.rnd_close) (use u in simp)
  have yb0: "of_int 0 \<le> y" unfolding y_def by (rule ieee.rnd_ge_int) (use u in simp_all)
  have yb1: "y \<le> of_int 1000" unfolding y_def by (rule ieee.rnd_le_int) (use u in simp_all)
  have s: "(0 :: rat) \<le> of_int (sec * 1000)" "(of_int (sec * 1000) :: rat) \<le> of_int (2 ^ 20 * 1000)"
    using assms by (simp_all only: of_int_le_iff of_int_0_le_iff)
  define x where "x = of_int (sec * 1000) + y"
  have x: "0 \<le> x" "x \<le> of_int (2 ^ 31)" using s yb0 yb1 by (simp_all add: x_def)
  have f: "\<bar>fl x - x\<bar> \<le> 2 ^ 31 / 2 ^ 53" by (rule ieee.rnd_close) (use x in simp)
  have t: "time_double sec usec = fl x"
    by (simp only: time_double_def sec usec x_def y_def)
  show "\<bar>time_double sec usec - (of_int (sec * 1000) + of_int usec / 1000)\<bar> \<le> 1 / 2 ^ 20"
    unfolding t using f y unfolding x_def abs_le_iff by simp
  show "0 \<le> time_double sec usec" unfolding t using x by (intro ieee.rnd_nonneg)
  have "fl x \<le> of_int (2 ^ 31)" by (rule ieee.rnd_le_int) (use x in simp_all)
  then show "time_double sec usec \<le> 2 ^ 31" unfolding t by simp
qed

lemma ceiling_div: "0 < k \<Longrightarrow> \<lceil>of_int i / (of_int k :: rat)\<rceil> = (i + (k - 1)) div k"
proof (rule ceiling_unique)
  assume k: "0 < k"
  let ?q = "(i + (k - 1)) div k"
  have "k * ?q \<le> i + (k - 1)" "i + (k - 1) < k * ?q + k"
    using k mult_div_mod_eq [of k "i + (k - 1)"] pos_mod_bound [of k "i + (k - 1)"]
      pos_mod_sign [of k "i + (k - 1)"] by linarith+
  then have "(?q - 1) * k < i" "i \<le> ?q * k" by (simp_all add: algebra_simps)
  then have "(of_int ((?q - 1) * k) :: rat) < of_int i" "(of_int i :: rat) \<le> of_int (?q * k)"
    by (simp_all only: of_int_less_iff of_int_le_iff)
  then show "of_int ?q - 1 < of_int i / (of_int k :: rat)" "of_int i / (of_int k :: rat) \<le> of_int ?q"
    using k by (simp_all add: pos_less_divide_eq pos_divide_le_eq)
qed

definition usage_ok :: "rusage \<Rightarrow> bool" where
  "usage_ok u \<longleftrightarrow>
     0 \<le> ru_utime_sec u \<and> ru_utime_sec u < 2 ^ 20 \<and> 0 \<le> ru_utime_usec u \<and> ru_utime_usec u < 1000000 \<and>
     0 \<le> ru_stime_sec u \<and> ru_stime_sec u < 2 ^ 20 \<and> 0 \<le> ru_stime_usec u \<and> ru_stime_usec u < 1000000"

definition cpu_usec :: "rusage \<Rightarrow> int" where
  "cpu_usec u =
     (ru_utime_sec u + ru_stime_sec u) * 1000000 + ru_utime_usec u + ru_stime_usec u"

lemma cpu_time_close:
  assumes "usage_ok u"
  shows "\<bar>cpu_time_ms u - of_int (cpu_usec u) / of_int 1000\<bar> < 1 / of_int 1000"
proof -
  let ?a = "time_double (ru_utime_sec u) (ru_utime_usec u)"
  let ?b = "time_double (ru_stime_sec u) (ru_stime_usec u)"
  note a = time_double_close [of "ru_utime_sec u" "ru_utime_usec u"]
  note b = time_double_close [of "ru_stime_sec u" "ru_stime_usec u"]
  have a: "\<bar>?a - (of_int (ru_utime_sec u * 1000) + of_int (ru_utime_usec u) / 1000)\<bar> \<le> 1 / 2 ^ 20"
    "0 \<le> ?a" "?a \<le> 2 ^ 31" using assms a by (simp_all add: usage_ok_def)
  have b: "\<bar>?b - (of_int (ru_stime_sec u * 1000) + of_int (ru_stime_usec u) / 1000)\<bar> \<le> 1 / 2 ^ 20"
    "0 \<le> ?b" "?b \<le> 2 ^ 31" using assms b by (simp_all add: usage_ok_def)
  have e: "of_int (cpu_usec u) / (of_int 1000 :: rat) =
      (of_int (ru_utime_sec u * 1000) + of_int (ru_utime_usec u) / 1000)
      + (of_int (ru_stime_sec u * 1000) + of_int (ru_stime_usec u) / 1000)"
    by (simp add: cpu_usec_def field_simps)
  have c: "\<bar>cpu_time_ms u - (?a + ?b)\<bar> \<le> 2 ^ 32 / 2 ^ 53"
    unfolding cpu_time_ms_def by (rule ieee.rnd_close) (use a b in simp)
  have "\<bar>cpu_time_ms u - of_int (cpu_usec u) / of_int 1000\<bar> \<le> 1 / 2 ^ 20 + 1 / 2 ^ 20 + 2 ^ 32 / 2 ^ 53"
    unfolding e using a(1) b(1) c by linarith
  also have "\<dots> < 1 / of_int 1000" by simp
  finally show ?thesis .
qed

text \<open>
  C18. The reported CPU time: for a usage below 12 days it is the exact time (user plus system, in
  microseconds) rounded up to milliseconds, in spite of the floating-point arithmetic, except that an
  exact number of milliseconds may be reported as one more. It is never too small.
\<close>

theorem cpu_time_reported:
  assumes "usage_ok u"
  shows "(cpu_usec u + 999) div 1000 \<le> cpu_time_used u \<and>
    cpu_time_used u \<le> (cpu_usec u + 999) div 1000 + (if cpu_usec u mod 1000 = 0 then 1 else 0)"
proof -
  note c = ieee.ceiling_perturbed [OF cpu_time_close [OF assms] refl]
  have d: "\<lceil>of_int (cpu_usec u) / (of_int 1000 :: rat)\<rceil> = (cpu_usec u + 999) div 1000"
    using ceiling_div [of 1000 "cpu_usec u"] by simp
  have b: "0 \<le> cpu_usec u" "cpu_usec u < 2099152000000"
    using assms by (auto simp: usage_ok_def cpu_usec_def)
  have r: "(cpu_usec u + 999) div 1000 \<le> \<lceil>cpu_time_ms u\<rceil>"
    "\<lceil>cpu_time_ms u\<rceil> \<le> (cpu_usec u + 999) div 1000 + (if cpu_usec u mod 1000 = 0 then 1 else 0)"
    using c d by simp_all
  have "0 \<le> (cpu_usec u + 999) div 1000" "(cpu_usec u + 999) div 1000 < 2 ^ 31 - 1"
    using b by auto
  with r have "- (2 ^ 31) \<le> \<lceil>cpu_time_ms u\<rceil>" "\<lceil>cpu_time_ms u\<rceil> < 2 ^ 31"
    by (linarith, simp only: split: if_splits)
  then have "cpu_time_used u = \<lceil>cpu_time_ms u\<rceil>"
    unfolding cpu_time_used_def by (rule s32_id)
  with r show ?thesis by simp
qed

theorem cpu_time_reported_witness:
  "let u = zero_rusage\<lparr>ru_utime_sec := 1, ru_utime_usec := 200500, ru_stime_usec := 3001\<rparr>
   in usage_ok u \<and> cpu_time_used u = 1204"
  using cpu_time_reported [of "zero_rusage\<lparr>ru_utime_sec := 1, ru_utime_usec := 200500, ru_stime_usec := 3001\<rparr>"]
  by (simp add: usage_ok_def cpu_usec_def zero_rusage_def)

text \<open>
  The threshold from which an aborted or crashed program counts as out of memory is exactly 95
  percent of the limit, rounded up, for every limit of the type.
\<close>

theorem mle_threshold_exact:
  assumes "0 \<le> kb" "kb < 2 ^ 31"
  shows "mle_threshold kb = (19 * kb + 19) div 20"
proof -
  define c :: rat where "c = 8556839292003942 / 2 ^ 53"
  define x where "x = of_int kb * c"
  have kb: "fl (of_int kb) = of_int kb" using assms by (intro fl_of_int) simp
  have k: "(0 :: rat) \<le> of_int kb" "(of_int kb :: rat) \<le> of_int (2 ^ 31)"
    using assms by (simp_all only: of_int_0_le_iff of_int_le_iff)
  have cb: "c \<le> 19 / 20" "19 / 20 - 1 / 2 ^ 53 \<le> c" by (simp_all add: c_def)
  have up: "x \<le> of_int (19 * kb) / of_int 20"
    using mult_left_mono [OF cb(1) k(1)] by (simp add: x_def field_simps)
  have lo: "of_int (19 * kb) / of_int 20 - 2 ^ 31 / 2 ^ 53 \<le> x"
    using mult_left_mono [OF cb(2) k(1)] k(2) by (simp add: x_def field_simps)
  have x0: "0 \<le> x" using k(1) by (simp add: x_def c_def)
  have "\<bar>fl x - x\<bar> \<le> 2 ^ 31 / 2 ^ 53"
    by (rule ieee.rnd_close) (use up x0 k(2) in simp)
  then have "\<bar>fl x - of_int (19 * kb) / of_int 20\<bar> \<le> 2 ^ 31 / 2 ^ 53 + 2 ^ 31 / 2 ^ 53"
    using up lo by linarith
  also have "\<dots> < 1 / of_int 20" by simp
  finally have p: "\<bar>fl x - of_int (19 * kb) / of_int 20\<bar> < 1 / of_int 20" .
  note r = ieee.ceiling_perturbed [OF p refl, simplified]
  have d: "\<lceil>of_int (19 * kb) / (of_int 20 :: rat)\<rceil> = (19 * kb + 19) div 20"
    using ceiling_div [of 20 "19 * kb"] by simp
  have "\<lceil>fl x\<rceil> = (19 * kb + 19) div 20"
  proof (cases "(19 * kb) mod 20 = 0")
    case True
    then obtain m where m: "19 * kb = 20 * m" by (auto simp: mod_eq_0_iff_dvd)
    then have "x \<le> of_int m" using up by simp
    then have "fl x \<le> of_int m" using m assms by (intro ieee.rnd_le_int) auto
    then have "\<lceil>fl x\<rceil> \<le> m" by (simp add: ceiling_le_iff)
    moreover have "(19 * kb + 19) div 20 = m" using m by simp
    ultimately show ?thesis using r(1) d by simp
  next
    case False
    then show ?thesis using r d by simp
  qed
  moreover have "s32 ((19 * kb + 19) div 20) = (19 * kb + 19) div 20"
    using assms by (intro s32_id) auto
  ultimately show ?thesis by (simp add: mle_threshold_def kb x_def c_def)
qed

theorem mle_threshold_exact_witness: "mle_threshold 131072 = 124519"
  using mle_threshold_exact [of 131072] by simp

subsection \<open>Names and markers\<close>

definition exit_code_of :: "string \<Rightarrow> int option" where
  "exit_code_of s =
     (if prefix ''sandbox_child_exit_'' s then ok_of (stoi (drop 19 s))
      else map_of (map (\<lambda>c. (ExitCodeToSandboxError c, c)) sandbox_error_codes) s)"

lemma named_codes_distinct: "distinct (map ExitCodeToSandboxError sandbox_error_codes)"
  by (simp add: sandbox_error_codes_def ExitCodeToSandboxError_def exit_code_defs)

lemma named_codes_no_number:
  "c \<in> set sandbox_error_codes \<Longrightarrow> \<not> prefix ''sandbox_child_exit_'' (ExitCodeToSandboxError c)"
  by (auto simp: sandbox_error_codes_def ExitCodeToSandboxError_def exit_code_defs)

lemma other_codes:
  "c \<notin> set sandbox_error_codes \<Longrightarrow> ExitCodeToSandboxError c = ''sandbox_child_exit_'' @ dec_int c"
  by (simp add: sandbox_error_codes_def ExitCodeToSandboxError_def)

interpretation exit_names:
  codec ExitCodeToSandboxError exit_code_of "\<lambda>c. - (2 ^ 31) \<le> c \<and> c < 2 ^ 31"
proof unfold_locales
  fix c :: int assume r: "- (2 ^ 31) \<le> c \<and> c < 2 ^ 31"
  show "exit_code_of (ExitCodeToSandboxError c) = Some c"
  proof (cases "c \<in> set sandbox_error_codes")
    case True
    let ?m = "map (\<lambda>c. (ExitCodeToSandboxError c, c)) sandbox_error_codes"
    have "distinct (map fst ?m)" using named_codes_distinct by (simp add: comp_def)
    then have "map_of ?m (ExitCodeToSandboxError c) = Some c"
      using True by (auto simp only: map_of_eq_Some_iff set_map image_iff)
    with named_codes_no_number [OF True] show ?thesis by (simp only: exit_code_of_def if_False)
  next
    case False
    then show ?thesis
      using r stoi_codec.decode_encode [of c] by (simp add: exit_code_of_def other_codes)
  qed
qed

text \<open>
  The machine-readable name of an exit code identifies it: two different codes never get the same
  name, whether they are named by the enumeration or fall in the default branch.
\<close>

theorem exit_code_names_injective:
  assumes "- (2 ^ 31) \<le> c" "c < 2 ^ 31" "- (2 ^ 31) \<le> d" "d < 2 ^ 31"
  shows "ExitCodeToSandboxError c = ExitCodeToSandboxError d \<longleftrightarrow> c = d"
  using exit_names.encode_inject [of c d] assms by blast

theorem exit_code_names_injective_witness:
  "ExitCodeToSandboxError ERR_PIVOT_ROOT \<noteq> ExitCodeToSandboxError 255"
  using exit_code_names_injective [of ERR_PIVOT_ROOT 255] by (simp add: ERR_PIVOT_ROOT_def)

lemma found_marker_iff:
  "found (marker_of s) \<longleftrightarrow> (\<exists>l \<in> set (text_lines s). prefix exec_failed_prefix l)"
  by (auto simp: marker_of_def Let_def find_None_iff split: option.split dest: find_SomeD)

lemma text_lines_first:
  "CHR 0x0A \<notin> set l \<Longrightarrow> text_lines (l @ CHR 0x0A # s) = l # text_lines s"
  by (subst text_lines.simps) (simp add: first_line_append)

lemma marker_of_message:
  assumes "CHR 0x0A \<notin> set d" "d = [] \<or> hd d \<noteq> CHR '' ''"
  shows "marker_of (exec_failed_prefix @ CHR '' '' # d @ [CHR 0x0A]) = \<lparr>found = True, detail = d\<rparr>"
proof -
  have n: "CHR 0x0A \<notin> set (exec_failed_prefix @ CHR '' '' # d)"
    using assms by (simp add: exec_failed_prefix_def)
  have "text_lines ((exec_failed_prefix @ CHR '' '' # d) @ CHR 0x0A # []) =
      (exec_failed_prefix @ CHR '' '' # d) # text_lines []"
    by (rule text_lines_first) (rule n)
  then show ?thesis by (simp add: marker_of_def Let_def)
qed

lemma classify_exit_127:
  "status (classify_exit r0 mk ERR_EXEC_FAILED) = (if found mk then SYSTEM_ERROR else RUNTIME_ERROR)"
  by (simp add: classify_exit_def ERR_EXEC_FAILED_def Let_def)

lemma newline_not_take: "CHR 0x0A \<notin> set s \<Longrightarrow> CHR 0x0A \<notin> set (take n s)"
  by (auto dest: in_set_takeD)

text \<open>
  C17. A failed \<^verbatim>\<open>exec\<close> is recognised. The child writes one message to its standard error and exits
  with 127; when the parent reads that message back it finds the marker, recovers the detail (the
  first 996 characters of error number, error text and path), and reports a system error named
  \<^verbatim>\<open>execve_failed\<close> that carries the detail. A program that exits with 127 without such a line is a
  runtime error. The marker is any line with the prefix, whoever wrote it.
\<close>

theorem exec_failure_roundtrip:
  assumes "runs (ExitRunExecError err exe) tr r" "CHR 0x0A \<notin> set exe"
    and "\<forall>a. (Strerror err, a) \<in> set tr \<longrightarrow> CHR 0x0A \<notin> set (text_of a)"
  shows "\<exists>a b msg d. tr = [(Strerror err, a), (Write 2 msg, b)] \<and> r = Stopped (Exited ERR_EXEC_FAILED) \<and>
     d = take 996 (''errno='' @ dec_int err @ ''('' @ text_of a @ '') exe='' @ exe) \<and>
     marker_of msg = \<lparr>found = True, detail = d\<rparr> \<and>
     classify_exit r0 (marker_of msg) ERR_EXEC_FAILED =
       r0\<lparr>status := SYSTEM_ERROR, exit_signal := 0, exit_code := 127,
          sandbox_error := ''execve_failed'', error_message := msg_start_failed @ d\<rparr> \<and>
     (\<forall>s. (\<exists>l \<in> set (text_lines s). prefix exec_failed_prefix l)
        \<longleftrightarrow> status (classify_exit r0 (marker_of s) ERR_EXEC_FAILED) = SYSTEM_ERROR) \<and>
     (\<forall>s. \<not> (\<exists>l \<in> set (text_lines s). prefix exec_failed_prefix l)
        \<longleftrightarrow> status (classify_exit r0 (marker_of s) ERR_EXEC_FAILED) = RUNTIME_ERROR)"
proof -
  from assms(1) obtain a b where tr: "tr = [(Strerror err, a), (Write 2 (take 1023
      (''[sandbox][run_exec_failed] errno='' @ dec_int err @ ''('' @ text_of a @ '') exe='' @ exe) @ [CHR 0x0A]), b)]"
    and r: "r = Stopped (Exited ERR_EXEC_FAILED)"
    by (auto simp: ExitRunExecError_def do_call_def emit_def runs_Call_iff)
  define d where "d = take 996 (''errno='' @ dec_int err @ ''('' @ text_of a @ '') exe='' @ exe)"
  have msg: "take 1023 (''[sandbox][run_exec_failed] errno='' @ dec_int err @ ''('' @ text_of a @ '') exe='' @ exe)
      = exec_failed_prefix @ CHR '' '' # d"
    by (simp add: exec_failed_prefix_def d_def)
  have "CHR 0x0A \<notin> set d"
    unfolding d_def using assms(2,3) newline_not_dec [of err] by (intro newline_not_take) (auto simp: tr)
  moreover have "hd d \<noteq> CHR '' ''" by (simp add: d_def)
  ultimately have m: "marker_of ((exec_failed_prefix @ CHR '' '' # d) @ [CHR 0x0A]) = \<lparr>found = True, detail = d\<rparr>"
    using marker_of_message [of d] by simp
  have ne: "d \<noteq> []" by (simp add: d_def)
  let ?m = "(exec_failed_prefix @ CHR '' '' # d) @ [CHR 0x0A]"
  show ?thesis
  proof (intro exI conjI)
    show "tr = [(Strerror err, a), (Write 2 ?m, b)]" by (simp only: tr msg)
    show "r = Stopped (Exited ERR_EXEC_FAILED)" by (rule r)
    show "d = take 996 (''errno='' @ dec_int err @ ''('' @ text_of a @ '') exe='' @ exe)" by (rule d_def)
    show "marker_of ?m = \<lparr>found = True, detail = d\<rparr>" by (rule m)
    show "classify_exit r0 (marker_of ?m) ERR_EXEC_FAILED =
       r0\<lparr>status := SYSTEM_ERROR, exit_signal := 0, exit_code := 127,
          sandbox_error := ''execve_failed'', error_message := msg_start_failed @ d\<rparr>"
      unfolding m using ne by (simp add: classify_exit_def ERR_EXEC_FAILED_def)
  qed (simp_all add: found_marker_iff [symmetric] classify_exit_127)
qed

theorem exec_failure_roundtrip_witness:
  "\<exists>tr. runs (ExitRunExecError 2 ''/main'') tr (Stopped (Exited 127)) \<and>
     (\<exists>msg b. (Write 2 msg, b) \<in> set tr \<and> found (marker_of msg))"
proof -
  obtain tr r where run: "runs (ExitRunExecError 2 ''/main'') tr r"
    and t: "\<forall>a. (Strerror 2, a) \<in> set tr \<longrightarrow> CHR 0x0A \<notin> set (text_of a)"
  proof -
    let ?a = "(ans 0)\<lparr>body := Some ''No such file''\<rparr>"
    have "runs (ExitRunExecError 2 ''/main'') [(Strerror 2, ?a), (Write 2 (take 1023
      (''[sandbox][run_exec_failed] errno='' @ dec_int 2 @ ''('' @ text_of ?a @ '') exe='' @ ''/main'') @ [CHR 0x0A]), ans 0)]
      (Stopped (Exited ERR_EXEC_FAILED))"
      by (simp add: ExitRunExecError_def do_call_def emit_def)
    then show ?thesis by (rule that) (simp add: text_of_def)
  qed
  have "CHR 0x0A \<notin> set ''/main''" by simp
  from exec_failure_roundtrip [OF run this t] obtain a b msg where
    e: "tr = [(Strerror 2, a), (Write 2 msg, b)]" "r = Stopped (Exited ERR_EXEC_FAILED)"
      "\<exists>d. marker_of msg = \<lparr>found = True, detail = d\<rparr>"
    by blast
  from run have "runs (ExitRunExecError 2 ''/main'') tr (Stopped (Exited 127))"
    by (simp only: e(2) ERR_EXEC_FAILED_def)
  moreover have "(Write 2 msg, b) \<in> set tr" "found (marker_of msg)" using e by auto
  ultimately show ?thesis by blast
qed

subsection \<open>The verdict\<close>

text \<open>How a process ended, and the verdict as a decision table over it.\<close>

datatype ending = Ended int | Killed int | Unknown_End

definition ending_of :: "int \<Rightarrow> ending" where
  "ending_of st =
     (if WIFEXITED st then Ended (WEXITSTATUS st) else if WIFSIGNALED st then Killed (WTERMSIG st)
      else Unknown_End)"

definition verdict_spec ::
  "bool \<Rightarrow> int \<Rightarrow> int \<Rightarrow> int \<Rightarrow> int \<Rightarrow> bool \<Rightarrow> ending \<Rightarrow> SandboxStatus"
where
  "verdict_spec ole mem t tl_ms ml_kb marked e =
     (if ole then OUTPUT_LIMIT_EXCEEDED
      else if ml_kb < mem then MEMORY_LIMIT_EXCEEDED
      else (case e of
          Ended code \<Rightarrow>
            if code = 0 then OK
            else if code = 127 then (if marked then SYSTEM_ERROR else RUNTIME_ERROR)
            else if 120 \<le> code then SYSTEM_ERROR else RUNTIME_ERROR
        | Killed s \<Rightarrow>
            if s = SIGXCPU \<or> s = SIGKILL \<and> tl_ms < t then TIME_LIMIT_EXCEEDED
            else if s = SIGXFSZ then OUTPUT_LIMIT_EXCEEDED
            else if (s = SIGABRT \<or> s = SIGSEGV) \<and> mle_threshold ml_kb \<le> mem then MEMORY_LIMIT_EXCEEDED
            else RUNTIME_ERROR
        | Unknown_End \<Rightarrow> SYSTEM_ERROR))"

lemma ExitCodeToSandboxError_nonempty [simp]: "ExitCodeToSandboxError c \<noteq> []"
  by (simp add: ExitCodeToSandboxError_def)

lemma runs_runtime_error_signal:
  "runs (runtime_error_signal r s) tr (Ret x) \<Longrightarrow>
   \<exists>m. x = r\<lparr>status := RUNTIME_ERROR, error_message := m\<rparr>"
  by (auto simp: runtime_error_signal_def runs_Call_iff)

text \<open>The fields the table does not decide.\<close>

definition same_measures :: "RunResult \<Rightarrow> RunResult \<Rightarrow> bool" where
  "same_measures r x \<longleftrightarrow> time_used x = time_used r \<and> memory_used x = memory_used r"

lemma classify_signal_verdict:
  assumes "runs (classify_signal r s tlim ml) tr (Ret x)" "memory_used r \<le> ml" "sandbox_error r = []"
  shows "status x = verdict_spec False (memory_used r) (time_used r) tlim ml b (Killed s) \<and>
    same_measures r x \<and> exit_signal x = s \<and> exit_code x = exit_code r \<and> sandbox_error x = []"
  using assms
  by (auto simp: classify_signal_def verdict_spec_def same_measures_def Let_def split: if_splits
      dest!: runs_runtime_error_signal)

lemma classify_exit_verdict:
  assumes "memory_used r \<le> ml" "sandbox_error r = []"
  shows "status (classify_exit r marker c) =
      verdict_spec False (memory_used r) (time_used r) tlim ml (found marker) (Ended c) \<and>
    same_measures r (classify_exit r marker c) \<and> exit_signal (classify_exit r marker c) = 0 \<and>
    exit_code (classify_exit r marker c) = c \<and>
    (sandbox_error (classify_exit r marker c) \<noteq> [] \<longleftrightarrow> status (classify_exit r marker c) = SYSTEM_ERROR)"
  using assms by (simp add: classify_exit_def verdict_spec_def same_measures_def Let_def ERR_EXEC_FAILED_def)

lemma classify_status_verdict:
  assumes "runs (classify_status r marker st tlim ml) tr (Ret x)" "memory_used r \<le> ml" "sandbox_error r = []"
  shows "status x = verdict_spec False (memory_used r) (time_used r) tlim ml (found marker) (ending_of st) \<and>
    same_measures r x \<and> (sandbox_error x \<noteq> [] \<longleftrightarrow> status x = SYSTEM_ERROR)"
proof -
  consider (e) "WIFEXITED st" | (s) "\<not> WIFEXITED st" "WIFSIGNALED st"
    | (u) "\<not> WIFEXITED st" "\<not> WIFSIGNALED st" by blast
  then show ?thesis
  proof cases
    case e
    with assms(1) have "x = classify_exit r marker (WEXITSTATUS st)" by (simp add: classify_status_def)
    with e classify_exit_verdict [OF assms(2,3), of marker "WEXITSTATUS st" tlim]
    show ?thesis by (simp add: ending_of_def)
  next
    case s
    with assms(1) have "runs (classify_signal r (WTERMSIG st) tlim ml) tr (Ret x)"
      by (simp add: classify_status_def)
    from s classify_signal_verdict [OF this assms(2,3), of "found marker"]
    show ?thesis by (auto simp: ending_of_def verdict_spec_def split: if_splits)
  next
    case u
    with assms show ?thesis by (simp add: classify_status_def ending_of_def verdict_spec_def same_measures_def)
  qed
qed

text \<open>
  What the environment was asked about, said without the code: a trace that reads the memory peak \<open>v\<close> of
  a cgroup, the size of the output, and the marker line in the error output.
\<close>

definition reads_peak :: "CgroupManager \<Rightarrow> event list \<Rightarrow> 64 word \<Rightarrow> bool" where
  "reads_peak m t v \<longleftrightarrow>
     (if created m
      then (\<exists>a u. t = (Read_File (cgroup_path m @ ''/memory.peak''), a) # u \<and>
        (case reading a of
           Some n \<Rightarrow> u = [] \<and> v = n
         | None \<Rightarrow> (\<exists>b. u = [(Read_File (cgroup_path m @ ''/memory.current''), b)] \<and>
                      v = (case reading b of Some n \<Rightarrow> n | None \<Rightarrow> 0))))
      else t = [] \<and> v = 0)"

definition reads_memory :: "CgroupManager option \<Rightarrow> bool \<Rightarrow> rusage \<Rightarrow> event list \<Rightarrow> int \<Rightarrow> bool" where
  "reads_memory cg enabled ru t mem \<longleftrightarrow>
     (case cg of
        Some m \<Rightarrow>
          if enabled then (\<exists>v. reads_peak m t v \<and> mem = (if v = 0 then ru_maxrss ru else uint v div 1024))
          else t = [] \<and> mem = ru_maxrss ru
      | None \<Rightarrow> t = [] \<and> mem = ru_maxrss ru)"

definition reads_output :: "int \<Rightarrow> string \<Rightarrow> event list \<Rightarrow> bool \<Rightarrow> bool" where
  "reads_output mx p t ole \<longleftrightarrow>
     (\<exists>a b. if rv a = 0 then t = [(Fs_Exists p, a)] \<and> \<not> ole
            else t = [(Fs_Exists p, a), (Fs_File_Size p, b)] \<and>
              (ole \<longleftrightarrow> er b = 0 \<and> mx mod 2 ^ 64 < rv b mod 2 ^ 64))"

definition shows_marker :: "answer \<Rightarrow> bool" where
  "shows_marker a \<longleftrightarrow>
     (\<exists>s l. body a = Some s \<and> l \<in> set (text_lines s) \<and> prefix ''[sandbox][run_exec_failed]'' l)"

lemma runs_measured_memory:
  assumes "runs (measured_memory cg enabled ru) t (Ret mem)" shows "reads_memory cg enabled ru t mem"
proof (cases "\<exists>m. cg = Some m \<and> enabled")
  case True
  then obtain m where cg: "cg = Some m" and en: "enabled" by blast
  with assms obtain v where v: "runs (GetMemoryPeak m) t (Ret v)"
    and mem: "mem = (if v = 0 then ru_maxrss ru else uint v div 1024)"
    by (auto simp: measured_memory_def uint_div word_gt_0 elim!: runs_pbind_RetE)
  have "reads_peak m t v"
  proof (cases "created m")
    case True
    from runs_GetMemoryPeak [OF True v] obtain a u where
      t: "t = (Read_File (cgroup_path m @ ''/memory.peak''), a) # u"
      and u: "runs (case reading a of Some n \<Rightarrow> Done n | None \<Rightarrow> GetMemoryCurrent m) u (Ret v)" .
    then show ?thesis
      using True runs_GetMemoryCurrent [OF True] by (cases "reading a") (auto simp: reads_peak_def)
  qed (use v in \<open>simp add: reads_peak_def GetMemoryPeak_def\<close>)
  then show ?thesis using cg en mem by (auto simp: reads_memory_def)
qed (use assms in \<open>auto simp: measured_memory_def reads_memory_def split: option.splits\<close>)

lemma runs_output_limit_hit:
  assumes "runs (output_limit_hit cfg p) t (Ret ole)"
  shows "reads_output (max_output_size cfg) p t ole"
proof -
  have c: "output_exceeded cfg sz \<longleftrightarrow> max_output_size cfg mod 2 ^ 64 < sz mod 2 ^ 64" for sz
    by (simp add: output_exceeded_def word_less_alt unsigned_of_int take_bit_eq_mod)
  show ?thesis
    using assms by (auto simp: output_limit_hit_def reads_output_def runs_Call_iff c split: if_splits)
qed

lemma runs_ReadMarker:
  assumes "runs (ReadRunExecFailureMarker errp) t (Ret mk)"
  shows "\<exists>log. t = (if errp = [] then [] else [(Read_File errp, log)]) \<and>
    (found mk \<longleftrightarrow> errp \<noteq> [] \<and> shows_marker log)"
proof (cases "errp = []")
  case False
  with assms obtain a where t: "t = [(Read_File errp, a)]"
    and mk: "mk = (case body a of None \<Rightarrow> \<lparr>found = False, detail = []\<rparr> | Some s \<Rightarrow> marker_of s)"
    by (auto simp: ReadRunExecFailureMarker_def runs_Call_iff split: option.splits)
  have "found mk \<longleftrightarrow> shows_marker a"
    using found_marker_iff by (cases "body a") (auto simp: mk shows_marker_def exec_failed_prefix_def)
  with t False show ?thesis by (intro exI [of _ a]) simp
qed (use assms in \<open>simp add: ReadRunExecFailureMarker_def\<close>)

lemma runs_classify_status:
  assumes "runs (classify_status r marker st tlim ml) t (Ret x)"
  shows "list_all (\<lambda>e. \<exists>s. fst e = Strsignal s) t"
proof -
  have "every (\<lambda>c. \<exists>s. c = Strsignal s) (\<lambda>_. True) (\<lambda>_. True) (classify_status r marker st tlim ml)"
    by (auto simp: classify_status_def classify_signal_def runtime_error_signal_def Let_def)
  from every_calls [OF assms this] show ?thesis by (auto simp: list_all_iff)
qed

lemma verdict_spec_OK:
  "verdict_spec ole mem t tlim ml marked e = OK \<longleftrightarrow> \<not> ole \<and> mem \<le> ml \<and> e = Ended 0"
  by (auto simp: verdict_spec_def split: ending.splits if_splits)

lemma finish_run_verdict:
  assumes "runs (finish_run cfg cg enabled outp errp tlim ml st ru) tr (Ret res)"
  obtains mem ole log t1 t2 t3 t4 where "tr = t1 @ t2 @ t3 @ t4"
    "reads_memory cg enabled ru t1 mem" "reads_output (max_output_size cfg) outp t2 ole"
    "t3 = (if ole \<or> ml < mem \<or> errp = [] then [] else [(Read_File errp, log)])"
    "list_all (\<lambda>e. \<exists>s. fst e = Strsignal s) t4"
    "status res = verdict_spec ole mem (cpu_time_used ru) tlim ml (errp \<noteq> [] \<and> shows_marker log) (ending_of st)"
    "time_used res = cpu_time_used ru" "memory_used res = (if ole then ru_maxrss ru else mem)"
    "sandbox_error res \<noteq> [] \<longleftrightarrow> status res = SYSTEM_ERROR"
proof -
  from assms obtain mem t1 u1 where t1: "runs (measured_memory cg enabled ru) t1 (Ret mem)"
    and u1: "runs (let r = init_run_result\<lparr>time_used := cpu_time_used ru, memory_used := mem\<rparr> in
     pbind (output_limit_hit cfg outp) (\<lambda>ole.
     if ole then Done (r\<lparr>status := OUTPUT_LIMIT_EXCEEDED, memory_used := ru_maxrss ru\<rparr>)
     else if ml < memory_used r then Done (r\<lparr>status := MEMORY_LIMIT_EXCEEDED\<rparr>)
     else pbind (ReadRunExecFailureMarker errp) (\<lambda>marker. classify_status r marker st tlim ml))) u1 (Ret res)"
    and tr1: "tr = t1 @ u1"
    unfolding finish_run_def by (rule runs_pbind_RetE)
  let ?r = "init_run_result\<lparr>time_used := cpu_time_used ru, memory_used := mem\<rparr>"
  from u1 obtain ole t2 u2 where t2: "runs (output_limit_hit cfg outp) t2 (Ret ole)"
    and rest: "runs (if ole then Done (?r\<lparr>status := OUTPUT_LIMIT_EXCEEDED, memory_used := ru_maxrss ru\<rparr>)
     else if ml < memory_used ?r then Done (?r\<lparr>status := MEMORY_LIMIT_EXCEEDED\<rparr>)
     else pbind (ReadRunExecFailureMarker errp) (\<lambda>marker. classify_status ?r marker st tlim ml)) u2 (Ret res)"
    and tr2: "u1 = t2 @ u2"
    unfolding Let_def by (rule runs_pbind_RetE)
  have "\<exists>log t3 t4. u2 = t3 @ t4 \<and> t3 = (if ole \<or> ml < mem \<or> errp = [] then [] else [(Read_File errp, log)]) \<and>
    list_all (\<lambda>e. \<exists>s. fst e = Strsignal s) t4 \<and>
    status res = verdict_spec ole mem (cpu_time_used ru) tlim ml (errp \<noteq> [] \<and> shows_marker log) (ending_of st) \<and>
    time_used res = cpu_time_used ru \<and> memory_used res = (if ole then ru_maxrss ru else mem) \<and>
    (sandbox_error res \<noteq> [] \<longleftrightarrow> status res = SYSTEM_ERROR)"
  proof (cases "ole \<or> ml < mem")
    case True
    then show ?thesis using rest by (auto simp: verdict_spec_def init_run_result_def split: if_splits)
  next
    case False
    with rest obtain marker t3 t4 where mk: "runs (ReadRunExecFailureMarker errp) t3 (Ret marker)"
      and cl: "runs (classify_status ?r marker st tlim ml) t4 (Ret res)" and u2: "u2 = t3 @ t4"
      by (auto elim: runs_pbind_RetE)
    from runs_ReadMarker [OF mk] obtain log where
      log: "t3 = (if errp = [] then [] else [(Read_File errp, log)])" "found marker \<longleftrightarrow> errp \<noteq> [] \<and> shows_marker log"
      by blast
    from classify_status_verdict [OF cl] False runs_classify_status [OF cl] log u2 show ?thesis
      by (intro exI [of _ log] exI [of _ t3] exI [of _ t4]) (simp add: init_run_result_def same_measures_def)
  qed
  then obtain log t3 t4 where u: "u2 = t3 @ t4" "t3 = (if ole \<or> ml < mem \<or> errp = [] then [] else [(Read_File errp, log)])"
    "list_all (\<lambda>e. \<exists>s. fst e = Strsignal s) t4"
    "status res = verdict_spec ole mem (cpu_time_used ru) tlim ml (errp \<noteq> [] \<and> shows_marker log) (ending_of st)"
    "time_used res = cpu_time_used ru" "memory_used res = (if ole then ru_maxrss ru else mem)"
    "sandbox_error res \<noteq> [] \<longleftrightarrow> status res = SYSTEM_ERROR"
    by (elim exE conjE)
  have "tr = t1 @ t2 @ t3 @ t4" by (simp only: tr1 tr2 u(1))
  from this runs_measured_memory [OF t1] runs_output_limit_hit [OF t2] u(2-7) show ?thesis by (rule that)
qed

text \<open>
  C7. The verdict of a finished run is the decision table \<open>verdict_spec\<close> over what was read. The memory
  is the peak of the enabled cgroup in kilobytes, or the resident set size of the child when there is
  no cgroup or its peak reads 0 (\<open>reads_memory\<close>); the output limit is hit when the file of the standard
  output exists, its size can be read and is greater, on 64 bits, than \<^verbatim>\<open>max_output_size\<close> (the standard
  error does not count, although the configuration file says so); the marker is a line of the error
  output with the prefix \<^verbatim>\<open>[sandbox][run_exec_failed]\<close>, and that file is read exactly when neither limit
  was exceeded. Too much output comes first, then too much memory, then the exit code or the signal. A
  result is accepted exactly when the process exited with 0 within both limits, and it carries a
  machine-readable error exactly when it is a system error.
\<close>

theorem run_verdict:
  assumes "runs (finish_run cfg cg enabled outp errp tlim ml st ru) tr (Ret res)"
  shows "\<exists>mem ole log t1 t2 t3 t4. tr = t1 @ t2 @ t3 @ t4 \<and>
    reads_memory cg enabled ru t1 mem \<and> reads_output (max_output_size cfg) outp t2 ole \<and>
    t3 = (if ole \<or> ml < mem \<or> errp = [] then [] else [(Read_File errp, log)]) \<and>
    list_all (\<lambda>e. \<exists>s. fst e = Strsignal s) t4 \<and>
    status res = verdict_spec ole mem (cpu_time_used ru) tlim ml (errp \<noteq> [] \<and> shows_marker log) (ending_of st) \<and>
    time_used res = cpu_time_used ru \<and> memory_used res = (if ole then ru_maxrss ru else mem) \<and>
    (status res = OK \<longleftrightarrow> \<not> ole \<and> mem \<le> ml \<and> ending_of st = Ended 0) \<and>
    (sandbox_error res \<noteq> [] \<longleftrightarrow> status res = SYSTEM_ERROR)"
proof -
  from finish_run_verdict [OF assms] obtain mem ole log t1 t2 t3 t4 where v: "tr = t1 @ t2 @ t3 @ t4"
    "reads_memory cg enabled ru t1 mem" "reads_output (max_output_size cfg) outp t2 ole"
    "t3 = (if ole \<or> ml < mem \<or> errp = [] then [] else [(Read_File errp, log)])"
    "list_all (\<lambda>e. \<exists>s. fst e = Strsignal s) t4"
    "status res = verdict_spec ole mem (cpu_time_used ru) tlim ml (errp \<noteq> [] \<and> shows_marker log) (ending_of st)"
    "time_used res = cpu_time_used ru" "memory_used res = (if ole then ru_maxrss ru else mem)"
    "sandbox_error res \<noteq> [] \<longleftrightarrow> status res = SYSTEM_ERROR" .
  have "status res = OK \<longleftrightarrow> \<not> ole \<and> mem \<le> ml \<and> ending_of st = Ended 0"
    unfolding v(6) by (rule verdict_spec_OK)
  with v show ?thesis by (intro exI conjI)
qed

theorem run_verdict_witness:
  "\<exists>res log. runs (finish_run sample_config (Some ((new_cgroup ''/c'' ''run_7'')\<lparr>created := True\<rparr>)) True ''/o'' ''/e''
       1000 65536 (256 * 127) zero_rusage)
     [(Read_File ''/c/run_7/memory.peak'', (ans 0)\<lparr>body := Some (dec_int 4096 @ [CHR 0x0A])\<rparr>),
      (Fs_Exists ''/o'', ans 1), (Fs_File_Size ''/o'', ans 100), (Read_File ''/e'', log)] (Ret res) \<and>
   shows_marker log \<and> status res = SYSTEM_ERROR \<and> memory_used res = 4 \<and> time_used res = cpu_time_used zero_rusage"
proof -
  let ?m = "(new_cgroup ''/c'' ''run_7'')\<lparr>created := True\<rparr>"
  let ?peak = "(ans 0)\<lparr>body := Some (dec_int 4096 @ [CHR 0x0A])\<rparr>"
  let ?line = "exec_failed_prefix @ CHR '' '' # ''x''"
  let ?log = "(ans 0)\<lparr>body := Some (?line @ [CHR 0x0A])\<rparr>"
  let ?p = "finish_run sample_config (Some ?m) True ''/o'' ''/e'' 1000 65536 (256 * 127) zero_rusage"
  let ?t1 = "[(Read_File ''/c/run_7/memory.peak'', ?peak)]"
  let ?t2 = "[(Fs_Exists ''/o'', ans 1), (Fs_File_Size ''/o'', ans 100)]"
  let ?t3 = "[(Read_File ''/e'', ?log)]"
  have rd: "reading ?peak = Some 4096" using reading_dec [of 4096 ?peak "[]"] by simp
  have peak: "runs (GetMemoryPeak ?m) ?t1 (Ret 4096)"
    using rd unfolding GetMemoryPeak_def number_or
    by (simp add: runs_ReadFromFile new_cgroup_def reading_text)
  have mem: "runs (measured_memory (Some ?m) True zero_rusage) (?t1 @ []) (Ret 4)"
    unfolding measured_memory_def option.case if_True by (rule runs_pbind_Ret [OF peak]) simp
  have lim: "runs (output_limit_hit sample_config ''/o'') ?t2 (Ret False)"
    by (simp add: output_limit_hit_def output_exceeded_def sample_config_def)
  have mark: "marker_of (?line @ [CHR 0x0A]) = \<lparr>found = True, detail = ''x''\<rparr>"
    using marker_of_message [of "''x''"] by simp
  have log: "runs (ReadRunExecFailureMarker ''/e'') ?t3 (Ret \<lparr>found = True, detail = ''x''\<rparr>)"
    unfolding ReadRunExecFailureMarker_def using mark by simp
  obtain res where cl: "runs (classify_status (init_run_result\<lparr>time_used := cpu_time_used zero_rusage, memory_used := 4\<rparr>)
      \<lparr>found = True, detail = ''x''\<rparr> (256 * 127) 1000 65536) [] (Ret res)"
    and se: "sandbox_error res \<noteq> []" and mu: "memory_used res = 4"
    by (simp add: classify_status_def WIFEXITED_def WEXITSTATUS_def classify_exit_def ERR_EXEC_FAILED_def Let_def)
  let ?r = "init_run_result\<lparr>time_used := cpu_time_used zero_rusage, memory_used := 4\<rparr>"
  have rest: "runs (pbind (ReadRunExecFailureMarker ''/e'') (\<lambda>mk. classify_status ?r mk (256 * 127) 1000 65536))
      (?t3 @ []) (Ret res)"
    by (rule runs_pbind_Ret [OF log]) (rule cl)
  have run: "runs ?p ((?t1 @ []) @ ?t2 @ ?t3 @ []) (Ret res)"
    unfolding finish_run_def Let_def
    by (rule runs_pbind_Ret [OF mem], rule runs_pbind_Ret [OF lim]) (use rest in simp)
  have sh: "shows_marker ?log"
    using mark found_marker_iff [of "?line @ [CHR 0x0A]"] by (auto simp: shows_marker_def exec_failed_prefix_def)
  have "status res = SYSTEM_ERROR \<and> time_used res = cpu_time_used zero_rusage"
    using run_verdict [OF run] se by blast
  with run sh mu show ?thesis by (intro exI [of _ res] exI [of _ ?log]) simp
qed

end
