(* ===== verification/Sandbox.thy ===== *)
theory Sandbox
  imports Sandbox_Verdict
begin

text \<open>
  The operations of the class \<^verbatim>\<open>Sandbox\<close> (\<^verbatim>\<open>src/core/worker/sandbox.cpp\<close>): the parent process that
  prepares a request directory, clones a child into it, watches it and cleans up.

  The configuration is the argument \<open>cfg\<close>, \<open>temp_dir\<close> is the member of the class. Two bounds make
  the loops total: \<open>n\<close> retries of an interrupted wait and \<open>k\<close> polls of a child; \<open>run_ends_in_time\<close>
  shows how many polls are enough when the clock runs. Objects with a destructor are
  passed along and destroyed explicitly in the order of C++, the file descriptors by \<open>pfinally\<close>.
  The time of \<^verbatim>\<open>std::chrono::steady_clock::now()\<close> is the return value of \<open>Clock_Now\<close>, in nanoseconds.
\<close>

subsection \<open>Construction and clean-up\<close>

definition quote :: string where "quote = [CHR 0x27]"

definition Sandbox_new :: "string \<Rightarrow> string prog" where
  "Sandbox_new temp_dir =
     Call (Fs_Create_Directories temp_dir) (\<lambda>a.
       if er a \<noteq> 0 then
         Call (Strerror (er a)) (\<lambda>t.
           Stop (Threw (Runtime_Error (msg_init_failed @ temp_dir @ quote @ '': '' @ text_of t))))
       else Done temp_dir)"

definition request_dir_of :: "string \<Rightarrow> string \<Rightarrow> string" where
  "request_dir_of temp_dir request_id = path_join temp_dir request_id"

definition Cleanup :: "string \<Rightarrow> string \<Rightarrow> unit prog" where
  "Cleanup temp_dir request_id =
     (if request_id = [] then Done ()
      else if \<not> IsValidRequestId request_id then Done ()
      else Call (Fs_Exists (request_dir_of temp_dir request_id)) (\<lambda>a.
        if rv a \<noteq> 0 then emit (Fs_Remove_All (request_dir_of temp_dir request_id)) else Done ()))"

subsection \<open>Compile\<close>

text \<open>
  \<^verbatim>\<open>CLONE_NEWPID | CLONE_NEWNS | CLONE_NEWIPC | CLONE_NEWUTS | CLONE_NEWNET | SIGCHLD\<close>
\<close>

definition clone_flags :: nat where
  "clone_flags = 0x20000000 + 0x00020000 + 0x08000000 + 0x04000000 + 0x40000000 + 17"

definition compile_fail :: "string \<Rightarrow> CompileResult" where
  "compile_fail msg = init_compile_result\<lparr>comp_error_message := msg\<rparr>"

definition write_source :: "string \<Rightarrow> string \<Rightarrow> (string + unit) prog" where
  "write_source source_file source_code =
     Call (Ofs_Open source_file) (\<lambda>a.
       if rv a = 0 then Done (Inl (msg_open_source @ source_file))
       else Call (Ofs_Put source_file source_code) (\<lambda>b.
         Call (Ofs_Close source_file) (\<lambda>_.
           if rv b = 0 then Done (Inl msg_write_source) else Done (Inr ()))))"

definition elapsed_ms :: "int \<Rightarrow> int \<Rightarrow> int" where
  "elapsed_ms start now = c_div (now - start) 1000000"

text \<open>The polling loop: an error message or the wait status, and the guard.\<close>

fun compile_wait :: "nat \<Rightarrow> nat \<Rightarrow> int \<Rightarrow> int \<Rightarrow> ProcessGuard \<Rightarrow> ((string + int) \<times> ProcessGuard) prog" where
  "compile_wait n 0 start limit_ms p = Stop Looping"
| "compile_wait n (Suc k) start limit_ms p =
     pbind (wait_nonblock n p) (\<lambda>w.
       if rv w = -1 then
         (if er w = EINTR then compile_wait n k start limit_ms p
          else pbind (FormatSystemError (er w) msg_waitpid) (\<lambda>m. Done (Inl m, p)))
       else if rv w \<noteq> 0 then Done (Inr (out w), release p)
       else Call Clock_Now (\<lambda>now.
         if limit_ms < elapsed_ms start (rv now) then
           pbind (guard_kill p) (\<lambda>_.
           pbind (wait_block n p) (\<lambda>_.
             Done (Inl (msg_compile_timeout @ dec_int limit_ms @ msg_compile_timeout_end), p)))
         else Call (Sleep_Ms 50) (\<lambda>_. compile_wait n k start limit_ms p)))"

definition read_log :: "string \<Rightarrow> string prog" where
  "read_log log_file = Call (Read_File log_file) (\<lambda>a. Done (text_of a))"

definition compile_failure_text :: "int \<Rightarrow> string \<Rightarrow> string" where
  "compile_failure_text code compile_log =
     (if 120 \<le> code then
        msg_compile_sandbox @ dec_int code @ '', sandbox_error: '' @ ExitCodeToSandboxError code @ ''): '' @
        GetExitCodeDescription code @
        (if compile_log \<noteq> [] then [CHR 0x0A] @ compile_log else msg_no_log)
      else if compile_log \<noteq> [] then compile_log
      else msg_compile_failed @ dec_int code @ msg_compile_failed_end)"

text \<open>The result, and whether the directory guard is committed.\<close>

definition compile_result :: "string \<Rightarrow> string \<Rightarrow> CompileResult \<Rightarrow> int \<Rightarrow> (CompileResult \<times> bool) prog" where
  "compile_result exe_file log_file r st =
     (if WIFEXITED st then
        (if WEXITSTATUS st = 0 then Done (r\<lparr>success := True, res_exe_path := exe_file\<rparr>, True)
         else pbind (read_log log_file) (\<lambda>compile_log.
           Done (r\<lparr>comp_error_message := compile_failure_text (WEXITSTATUS st) compile_log\<rparr>, False)))
      else if WIFSIGNALED st then
        Done (r\<lparr>comp_error_message := msg_compiler_signal @ dec_int (WTERMSIG st) @ '')''\<rparr>, False)
      else Done (r\<lparr>comp_error_message := msg_compiler_unknown\<rparr>, False))"

definition compile_args :: "string \<Rightarrow> CompileArgs" where
  "compile_args request_dir =
     \<lparr>source_path = strncpy_z 255 (path_join request_dir ''main.cpp''),
      comp_exe_path = strncpy_z 255 (path_join request_dir ''main''),
      log_path = strncpy_z 255 (path_join request_dir ''compile_error.log'')\<rparr>"

definition compile_child :: "GlobalConfig \<Rightarrow> nat \<Rightarrow> nat \<Rightarrow> string \<Rightarrow> CompileResult \<Rightarrow> (CompileResult \<times> bool) prog" where
  "compile_child cfg n k request_dir r =
     Call (Clone (Compile_Child (compile_args request_dir)) clone_flags) (\<lambda>pid.
       if rv pid = -1 then
         pbind (FormatSystemError (er pid) msg_clone_compile) (\<lambda>m. Done (r\<lparr>comp_error_message := m\<rparr>, False))
       else Call Clock_Now (\<lambda>start.
         pbind (compile_wait n k (rv start) (s32 (compile_real_limit cfg * 1000)) (process_guard (rv pid)))
           (\<lambda>(w, p).
         pbind (case w of
             Inl m \<Rightarrow> Done (r\<lparr>comp_error_message := m\<rparr>, False)
           | Inr st \<Rightarrow> compile_result (path_join request_dir ''main'') (path_join request_dir ''compile_error.log'') r st)
           (\<lambda>res.
         pbind (process_cleanup n p) (\<lambda>_. Done res)))))"

definition compile_guarded :: "GlobalConfig \<Rightarrow> nat \<Rightarrow> nat \<Rightarrow> string \<Rightarrow> CompileResult \<Rightarrow> CompileResult prog" where
  "compile_guarded cfg n k request_dir r =
     (let g = directory_guard request_dir in
      pbind (compile_child cfg n k request_dir r) (\<lambda>(res, keep).
      pbind (directory_cleanup (if keep then commit g else g)) (\<lambda>_. Done res)))"

text \<open>Everything before the directory guard exists: a failed result, or the result so far.\<close>

definition compile_prepare :: "GlobalConfig \<Rightarrow> string \<Rightarrow> string \<Rightarrow> (CompileResult + CompileResult) prog" where
  "compile_prepare cfg request_dir source_code =
     Call (Fs_Create_Directories request_dir) (\<lambda>a.
     pbind (if er a \<noteq> 0 then
              Call (Strerror (er a)) (\<lambda>t.
                Done (compile_fail (msg_mkdir_request @ request_dir @ quote @ '': '' @ text_of t)))
            else Done init_compile_result) (\<lambda>r.
     pbind (write_source (path_join request_dir ''main.cpp'') source_code) (\<lambda>w.
     case w of
       Inl m \<Rightarrow> Done (Inl (r\<lparr>comp_error_message := m\<rparr>))
     | Inr _ \<Rightarrow>
         Call (Chown request_dir (run_uid cfg) (run_gid cfg)) (\<lambda>c.
           if rv c \<noteq> 0 then
             pbind (FormatSystemError (er c) msg_chown) (\<lambda>m. Done (Inl (r\<lparr>comp_error_message := m\<rparr>)))
           else Call (Fs_Permissions request_dir 448) (\<lambda>d.
             if er d \<noteq> 0 then
               Call (Strerror (er d)) (\<lambda>t. Done (Inl (r\<lparr>comp_error_message := msg_permissions @ text_of t\<rparr>)))
             else Done (Inr r))))))"

definition Compile :: "GlobalConfig \<Rightarrow> nat \<Rightarrow> nat \<Rightarrow> string \<Rightarrow> string \<Rightarrow> string \<Rightarrow> CompileResult prog" where
  "Compile cfg n k temp_dir request_id source_code =
     (if \<not> IsValidRequestId request_id then Done (compile_fail msg_bad_request_id)
      else let request_dir = request_dir_of temp_dir request_id in
        pbind (compile_prepare cfg request_dir source_code) (\<lambda>x.
          case x of
            Inl res \<Rightarrow> Done res
          | Inr r \<Rightarrow> compile_guarded cfg n k request_dir r))"

subsection \<open>Run\<close>

text \<open>Open a file for the child; fall back to a duplicate of \<^verbatim>\<open>/dev/null\<close>.\<close>

definition open_or_null :: "string \<Rightarrow> int \<Rightarrow> int \<Rightarrow> int \<Rightarrow> int prog" where
  "open_or_null path flags mode null_fd =
     pbind (if path \<noteq> [] then Call (Open path flags mode) (\<lambda>a. Done (rv a)) else Done (-1)) (\<lambda>fd.
       if fd < 0 then Call (Dup null_fd) (\<lambda>a. Done (rv a)) else Done fd)"

definition with_fd :: "int prog \<Rightarrow> (int \<Rightarrow> 'a prog) \<Rightarrow> 'a prog" where
  "with_fd get f = pbind get (\<lambda>fd. pfinally (f fd) (auto_close fd))"

definition system_error :: "string \<Rightarrow> string \<Rightarrow> RunResult" where
  "system_error code msg =
     init_run_result\<lparr>status := SYSTEM_ERROR, sandbox_error := code, error_message := msg\<rparr>"

definition run_child_args :: "GlobalConfig \<Rightarrow> string \<Rightarrow> int \<Rightarrow> int \<Rightarrow> int \<Rightarrow> int \<Rightarrow> int \<Rightarrow> RunChildArgs" where
  "run_child_args cfg exe_path tl_ms ml_kb ifd ofd efd =
     \<lparr>run_exe_path = strncpy_z 255 exe_path, run_input_file = [], run_output_file = [], run_error_file = [],
      time_limit_ms = tl_ms, memory_limit_kb = ml_kb,
      output_limit_bytes = word_of_int (max_output_size cfg + output_buffer_size cfg),
      input_fd = ifd, output_fd = ofd, error_fd = efd\<rparr>"

text \<open>
  The cgroup layer. The manager of the code is a \<^verbatim>\<open>unique_ptr\<close>, so it may be absent. None of the
  operations inside the \<^verbatim>\<open>try\<close> block throws in the model, see \<open>cgroup_stays_in_its_directory\<close>, so what
  the handler returns is never used.
\<close>

definition apply_cgroup_limits :: "GlobalConfig \<Rightarrow> CgroupManager \<Rightarrow> int \<Rightarrow> int \<Rightarrow> unit prog" where
  "apply_cgroup_limits cfg m ml_kb pid =
     (let ignore = (\<lambda>p. pbind p (\<lambda>_ :: bool. Done ())) in
      block
        [ignore (SetPidsLimit m (if 0 < cgroup_pids_limit cfg then cgroup_pids_limit cfg else 20)),
         ignore (SetMemoryLimit m (word_of_int ml_kb * 1024) True),
         ignore (SetCPULimit m (if 0 < cgroup_cpu_max_cores cfg then cgroup_cpu_max_cores cfg else 1)),
         ignore (SetIOLimit m (cgroup_io_read_bps cfg) (cgroup_io_write_bps cfg) (workspace_root cfg)),
         ignore (AddProcess m pid)])"

definition setup_cgroup :: "GlobalConfig \<Rightarrow> int \<Rightarrow> int \<Rightarrow> (CgroupManager option \<times> bool) prog" where
  "setup_cgroup cfg ml_kb pid =
     pbind GetCgroup2MountRoot (\<lambda>mnt.
       if mnt = [] then Done (None, False)
       else pcatch
         (pbind (cgroup_Create (new_cgroup (mnt @ ''/deep_oj'') (''run_'' @ dec_int pid))) (\<lambda>(made, m).
            if made then pbind (apply_cgroup_limits cfg m ml_kb pid) (\<lambda>_. Done (Some m, True))
            else Done (Some m, False)))
         (\<lambda>e. Done (None, False)))"

definition drop_cgroup :: "CgroupManager option \<Rightarrow> unit prog" where
  "drop_cgroup cg = (case cg of None \<Rightarrow> Done () | Some m \<Rightarrow> cgroup_dtor m)"

text \<open>Adaptive polling: 10 milliseconds when more than 0.8 (a double) of the limit is in use, else 50.\<close>

definition poll_nap :: "int \<Rightarrow> int \<Rightarrow> nat" where
  "poll_nap ml_kb maxrss =
     (let mem_ratio = (if 0 < ml_kb then fl (fl (of_int maxrss) / fl (of_int ml_kb)) else 0)
      in if 3602879701896397 / 2 ^ 52 < mem_ratio then 10 else 50)"

lemma poll_nap_min: "10 \<le> poll_nap ml maxrss"
  by (simp add: poll_nap_def Let_def)

text \<open>
  The watching loop: a final result, or the wait status and the resource usage of the child. The
  usage buffer is what the kernel last wrote there; a \<^verbatim>\<open>wait4\<close> that finds the child still running
  leaves it untouched, which the environment expresses by answering with the old contents.
\<close>

fun watch :: "nat \<Rightarrow> nat \<Rightarrow> int \<Rightarrow> int \<Rightarrow> int \<Rightarrow> ProcessGuard \<Rightarrow> ((RunResult + int \<times> rusage) \<times> ProcessGuard) prog"
where
  "watch n 0 start tl_ms ml_kb p = Stop Looping"
| "watch n (Suc k) start tl_ms ml_kb p =
     pbind (wait_nonblock_rusage n p) (\<lambda>w.
       if rv w = -1 then
         (if er w = EINTR then watch n k start tl_ms ml_kb p
          else pbind (FormatSystemError (er w) ''wait4 failed'') (\<lambda>m.
            Done (Inl (system_error ''waitpid_failed'' m), p)))
       else if rv w \<noteq> 0 then Done (Inr (out w, usage w), release p)
       else if ml_kb < ru_maxrss (usage w) then
         pbind (guard_kill p) (\<lambda>_.
         pbind (wait_rusage n p) (\<lambda>v.
         Call Clock_Now (\<lambda>now.
           Done (Inl (init_run_result\<lparr>status := MEMORY_LIMIT_EXCEEDED,
             time_used := s32 (elapsed_ms start (rv now)), memory_used := ru_maxrss (usage v),
             exit_signal := SIGKILL\<rparr>), release p))))
       else Call Clock_Now (\<lambda>now.
         let elapsed = s32 (elapsed_ms start (rv now)) in
         if s32 (tl_ms + 1000) < elapsed then
           pbind (guard_kill p) (\<lambda>_.
           pbind (wait_rusage n p) (\<lambda>v.
             Done (Inl (init_run_result\<lparr>status := TIME_LIMIT_EXCEEDED, time_used := elapsed,
               memory_used := ru_maxrss (usage v), exit_signal := SIGKILL\<rparr>), release p)))
         else Call (Sleep_Ms (poll_nap ml_kb (ru_maxrss (usage w)))) (\<lambda>_. watch n k start tl_ms ml_kb p)))"

definition run_parent ::
  "GlobalConfig \<Rightarrow> nat \<Rightarrow> nat \<Rightarrow> string \<Rightarrow> string \<Rightarrow> int \<Rightarrow> int \<Rightarrow> int \<Rightarrow> RunResult prog"
where
  "run_parent cfg n k output_path stderr_path tl_ms ml_kb pid =
     (let p0 = process_guard pid in
      pbind (pcatch (setup_cgroup cfg ml_kb pid)
               (\<lambda>e. pbind (process_cleanup n p0) (\<lambda>_. Stop (Threw e)))) (\<lambda>(cg, enabled).
      Call Clock_Now (\<lambda>start.
      pbind (watch n k (rv start) tl_ms ml_kb p0) (\<lambda>(w, p).
      pbind (case w of
          Inl r \<Rightarrow> Done r
        | Inr (st, ru) \<Rightarrow> finish_run cfg cg enabled output_path stderr_path tl_ms ml_kb st ru) (\<lambda>r.
      pbind (drop_cgroup cg) (\<lambda>_.
      pbind (process_cleanup n p) (\<lambda>_. Done r)))))))"

definition run_cloned ::
  "GlobalConfig \<Rightarrow> nat \<Rightarrow> nat \<Rightarrow> RunChildArgs \<Rightarrow> string \<Rightarrow> string \<Rightarrow> int \<Rightarrow> int \<Rightarrow> RunResult prog"
where
  "run_cloned cfg n k args output_path stderr_path tl_ms ml_kb =
     Call (Clone (Run_Child args) clone_flags) (\<lambda>pid.
       if rv pid = -1 then
         pbind (FormatSystemError (er pid) ''clone failed'') (\<lambda>m. Done (system_error ''clone_failed'' m))
       else run_parent cfg n k output_path stderr_path tl_ms ml_kb (rv pid))"

definition output_path_of :: "string \<Rightarrow> string \<Rightarrow> string" where
  "output_path_of exe_path stdout_path =
     (if stdout_path = [] then path_join (parent_path exe_path) ''output.txt'' else stdout_path)"

definition Run ::
  "GlobalConfig \<Rightarrow> nat \<Rightarrow> nat \<Rightarrow> string \<Rightarrow> string \<Rightarrow> string \<Rightarrow> string \<Rightarrow> int \<Rightarrow> int \<Rightarrow> RunResult prog"
where
  "Run cfg n k exe_path stdin_path stdout_path stderr_path tl_ms ml_kb =
     Call (Open ''/dev/null'' 2 0) (\<lambda>a.
       if rv a < 0 then
         pbind (FormatSystemError (er a) ''open /dev/null'') (\<lambda>m. Done (system_error ''open_dev_null_failed'' m))
       else
         with_fd (Done (rv a)) (\<lambda>nul.
         with_fd (open_or_null stdin_path 0 0 nul) (\<lambda>ifd.
         with_fd (open_or_null stdout_path 577 420 nul) (\<lambda>ofd.
         with_fd (open_or_null stderr_path 577 420 nul) (\<lambda>efd.
           run_cloned cfg n k (run_child_args cfg exe_path tl_ms ml_kb ifd ofd efd)
             (output_path_of exe_path stdout_path) stderr_path tl_ms ml_kb)))))"

lemmas sandbox_defs [prog_defs] =
  Sandbox_new_def Cleanup_def write_source_def read_log_def compile_result_def compile_child_def
  compile_guarded_def compile_prepare_def Compile_def open_or_null_def with_fd_def setup_cgroup_def drop_cgroup_def
  run_parent_def run_cloned_def Run_def

subsection \<open>The request directory\<close>

lemma request_dir_shape:
  assumes "IsValidRequestId i" "temp_dir \<noteq> []"
  shows "path_join (request_dir_of temp_dir i) name = request_dir_of temp_dir i @ ''/'' @ name"
proof -
  from valid_id_chars [OF assms(1)] have "i \<noteq> []" "last i \<noteq> slash" using last_in_set by fastforce+
  then show ?thesis by (simp add: request_dir_of_def path_join_def)
qed

text \<open>What a compilation may touch: the directory \<open>d\<close>, files below it, its own child.\<close>

definition request_call :: "string \<Rightarrow> call \<Rightarrow> bool" where
  "request_call d c \<longleftrightarrow>
     (let inside = (\<lambda>p. p = d \<or> in_dir d p) in
      case c of
        Chown p u g \<Rightarrow> inside p
      | Fs_Permissions p m \<Rightarrow> p = d \<and> m = 448
      | Clone ch f \<Rightarrow>
          (case ch of
             Compile_Child a \<Rightarrow> inside (source_path a) \<and> inside (comp_exe_path a) \<and> inside (log_path a)
           | Run_Child _ \<Rightarrow> False)
      | Kill pid s \<Rightarrow> 0 < pid \<and> s = SIGKILL
      | Waitpid pid f \<Rightarrow> 0 < pid
      | Clock_Now \<Rightarrow> True | Sleep_Ms t \<Rightarrow> True | Strerror e \<Rightarrow> True
      | _ \<Rightarrow> (case call_path c of Some p \<Rightarrow> inside p | None \<Rightarrow> False))"

lemma request_call_simps [simp]:
  "request_call d (Chown p u g) \<longleftrightarrow> p = d \<or> in_dir d p"
  "request_call d (Fs_Permissions p m) \<longleftrightarrow> p = d \<and> m = 448"
  "request_call d (Clone (Compile_Child a) f) \<longleftrightarrow>
     (source_path a = d \<or> in_dir d (source_path a)) \<and> (comp_exe_path a = d \<or> in_dir d (comp_exe_path a)) \<and>
     (log_path a = d \<or> in_dir d (log_path a))"
  "request_call d (Kill pid s) \<longleftrightarrow> 0 < pid \<and> s = SIGKILL"
  "request_call d (Waitpid pid fg) \<longleftrightarrow> 0 < pid"
  "request_call d Clock_Now" "request_call d (Sleep_Ms t)" "request_call d (Strerror e)"
  "request_call d (Ofs_Open p) \<longleftrightarrow> p = d \<or> in_dir d p"
  "request_call d (Ofs_Put p v) \<longleftrightarrow> p = d \<or> in_dir d p"
  "request_call d (Ofs_Close p) \<longleftrightarrow> p = d \<or> in_dir d p"
  "request_call d (Read_File p) \<longleftrightarrow> p = d \<or> in_dir d p"
  "request_call d (Fs_Exists p) \<longleftrightarrow> p = d \<or> in_dir d p"
  "request_call d (Fs_Create_Directories p) \<longleftrightarrow> p = d \<or> in_dir d p"
  "request_call d (Fs_Remove_All p) \<longleftrightarrow> p = d \<or> in_dir d p"
  by (simp_all add: request_call_def)

lemma every_FormatSystemError [simp]:
  "every C E R (FormatSystemError e m) \<longleftrightarrow> C (Strerror e) \<and> (\<forall>t. R (m @ '': '' @ text_of t))"
  by (simp add: FormatSystemError_def)

lemma every_guard_wait:
  "(0 < guard_pid p \<Longrightarrow> C (c (guard_pid p))) \<Longrightarrow> E Looping \<Longrightarrow> every C E (\<lambda>_. True) (guard_wait n c p)"
  by (auto simp: guard_wait_def intro: every_retry_eintr)

lemma every_guard_kill:
  "(0 < guard_pid p \<Longrightarrow> C (Kill (guard_pid p) SIGKILL)) \<Longrightarrow> every C E (\<lambda>_. True) (guard_kill p)"
  by (simp add: guard_kill_def)

lemma every_process_cleanup:
  assumes "0 < guard_pid p \<Longrightarrow> C (Kill (guard_pid p) SIGKILL) \<and> C (Waitpid (guard_pid p) WNOHANG) \<and> C (Waitpid (guard_pid p) 0)"
    "E Looping"
  shows "every C E (\<lambda>_. True) (process_cleanup n p)"
  using assms unfolding process_cleanup_def
  by (auto intro!: every_unit_pbind every_retry_eintr every_block)

lemma compile_wait_calls:
  "every (request_call d) (\<lambda>s. s = Looping) (\<lambda>_. True) (compile_wait n k start lim_ms p)"
proof (induction k)
  case (Suc k)
  then show ?case
    by (auto simp: wait_nonblock_def wait_block_def intro!: every_unit_pbind every_guard_wait every_guard_kill)
qed simp

lemma in_dir_join [simp]: "in_dir d (d @ ''/'' @ s)"
  by (simp add: in_dir_def)

lemma compile_result_calls:
  "request_call d (Read_File l) \<Longrightarrow> every (request_call d) E (\<lambda>_. True) (compile_result x l r st)"
  by (auto simp: compile_result_def read_log_def)

lemma compile_guarded_calls:
  assumes "IsValidRequestId i" "temp_dir \<noteq> []" "d = request_dir_of temp_dir i" "length d \<le> 200" "NUL \<notin> set d"
  shows "every (request_call d) (\<lambda>s. s = Looping) (\<lambda>_. True) (compile_guarded cfg n k d r)"
proof -
  note j = request_dir_shape [OF assms(1,2), folded assms(3)]
  have args: "source_path (compile_args d) = d @ ''/main.cpp''" "comp_exe_path (compile_args d) = d @ ''/main''"
    "log_path (compile_args d) = d @ ''/compile_error.log''"
    using assms(4,5) by (simp_all add: compile_args_def j strncpy_z_id)
  have "every (request_call d) (\<lambda>s. s = Looping) (\<lambda>_. True) (compile_child cfg n k d r)"
    unfolding compile_child_def
    using compile_wait_calls compile_result_calls [of d "path_join d ''compile_error.log''"]
    by (auto simp: args j intro!: every_unit_pbind every_process_cleanup split: sum.split)
  then show ?thesis
    by (auto simp: compile_guarded_def directory_guard_def commit_def directory_cleanup_def Let_def
        intro!: every_unit_pbind)
qed

text \<open>
  C8. A request stays inside its own directory. An id that is empty, too long or has a character other
  than letters, digits, underscore and hyphen is refused before anything is touched. For an accepted id
  the directory is a direct child of \<open>temp_dir\<close> (its name has no slash and no dot), different ids have
  different directories, and everything \<open>Compile\<close> and \<open>Cleanup\<close> create, write, read, chown or remove, and
  every path handed to the compiler, is that directory or lies below it; they kill and wait for
  positive process ids only. The directory \<open>temp_dir\<close> is a non-empty path without NUL of at most 130 bytes, so
  that the paths of a request fit the buffers of the compile child.
\<close>

theorem request_stays_in_its_directory:
  assumes "temp_dir \<noteq> []" "NUL \<notin> set temp_dir" "length temp_dir \<le> 130"
  shows "if IsValidRequestId i
    then (let d = request_dir_of temp_dir i in
      (d = temp_dir @ i \<or> d = temp_dir @ ''/'' @ i) \<and> slash \<notin> set i \<and> CHR ''.'' \<notin> set i \<and>
      (\<forall>j. request_dir_of temp_dir j = d \<longrightarrow> j = i) \<and>
      every (request_call d) (\<lambda>s. s = Looping) (\<lambda>_. True) (Compile cfg n k temp_dir i src) \<and>
      every (request_call d) (\<lambda>_. False) (\<lambda>_. True) (Cleanup temp_dir i))
    else Compile cfg n k temp_dir i src = Done (compile_fail msg_bad_request_id) \<and> Cleanup temp_dir i = Done ()"
proof (cases "IsValidRequestId i")
  case False
  then show ?thesis by (simp add: Compile_def Cleanup_def)
next
  case True
  define d where "d = request_dir_of temp_dir i"
  note v = valid_id_chars [OF True]
  note j = request_dir_shape [OF True assms(1), folded d_def]
  have d: "length d \<le> 200" "NUL \<notin> set d"
    using assms v by (auto simp: d_def request_dir_of_def path_join_def)
  have "every (request_call d) (\<lambda>s. s = Looping) (\<lambda>_. True) (compile_prepare cfg d src)"
    by (auto simp: compile_prepare_def write_source_def j intro!: every_unit_pbind split: sum.split)
  then have "every (request_call d) (\<lambda>s. s = Looping) (\<lambda>_. True) (Compile cfg n k temp_dir i src)"
    using True compile_guarded_calls [OF True assms(1) d_def d]
    by (auto simp: Compile_def d_def [symmetric] Let_def intro!: every_unit_pbind split: sum.split)
  moreover have "every (request_call d) (\<lambda>_. False) (\<lambda>_. True) (Cleanup temp_dir i)"
    by (simp add: Cleanup_def d_def [symmetric])
  ultimately show ?thesis
    using True v by (auto simp: d_def request_dir_of_def path_join_inj) (simp_all add: path_join_def)
qed

theorem request_stays_in_its_directory_witness:
  "request_dir_of ''/data/ws'' ''job_1-a'' = ''/data/ws/job_1-a'' \<and>
   every (request_call ''/data/ws/job_1-a'') (\<lambda>s. s = Looping) (\<lambda>_. True)
     (Compile sample_config 3 9 ''/data/ws'' ''job_1-a'' ''int main(){}'') \<and>
   Cleanup ''/data/ws'' ''../etc'' = Done ()"
proof -
  have v: "IsValidRequestId ''job_1-a''" "\<not> IsValidRequestId ''../etc''"
    by (simp_all add: IsValidRequestId_def isalnum_def isdigit_def byte_of_def)
  have d: "request_dir_of ''/data/ws'' ''job_1-a'' = ''/data/ws/job_1-a''"
    by (simp add: request_dir_of_def path_join_def)
  show ?thesis
    using request_stays_in_its_directory [of "''/data/ws''" "''job_1-a''" sample_config 3 9 "''int main(){}''"]
      request_stays_in_its_directory [of "''/data/ws''" "''../etc''" sample_config 3 9 "''int main(){}''"]
    by (simp add: v d Let_def)
qed

subsection \<open>What is left of a request\<close>

definition removes :: "call \<Rightarrow> bool" where
  "removes c \<longleftrightarrow> (case c of Fs_Remove_All p \<Rightarrow> True | Fs_Remove p \<Rightarrow> True | _ \<Rightarrow> False)"

lemma removes_simps [simp]:
  "removes (Fs_Remove_All p)" "removes (Fs_Remove p)" "\<not> removes (Strerror e)" "\<not> removes (Waitpid pid fg)"
  "\<not> removes (Kill pid s)" "\<not> removes Clock_Now" "\<not> removes (Sleep_Ms t)" "\<not> removes (Clone ch f)"
  "\<not> removes (Read_File p)" "\<not> removes (Fs_Exists p)" "\<not> removes (Ofs_Open p)" "\<not> removes (Ofs_Put p v)"
  "\<not> removes (Ofs_Close p)" "\<not> removes (Fs_Create_Directories p)" "\<not> removes (Chown p u g)"
  "\<not> removes (Fs_Permissions p m)"
  by (simp_all add: removes_def)

lemma compile_wait_no_removal:
  "every (\<lambda>c. \<not> removes c) (\<lambda>s. s = Looping) (\<lambda>_. True) (compile_wait n k start lim_ms p)"
proof (induction k)
  case (Suc k)
  then show ?case
    by (auto simp: wait_nonblock_def wait_block_def intro!: every_unit_pbind every_guard_wait every_guard_kill)
qed simp

lemma compile_result_flag:
  "success r = False \<Longrightarrow>
   every (\<lambda>c. \<not> removes c) E (\<lambda>(res, keep). keep = success res) (compile_result x l r st)"
  by (auto simp: compile_result_def read_log_def)

lemma compile_child_flag:
  assumes "success r = False"
  shows "every (\<lambda>c. \<not> removes c) (\<lambda>s. s = Looping) (\<lambda>(res, keep). keep = success res) (compile_child cfg n k d r)"
proof -
  have c: "every (\<lambda>c. \<not> removes c) (\<lambda>s. s = Looping) (\<lambda>_. True) (process_cleanup n p)" for p
    by (rule every_process_cleanup) simp_all
  have "every (\<lambda>c. \<not> removes c) (\<lambda>s. s = Looping)
      (\<lambda>res. every (\<lambda>c. \<not> removes c) (\<lambda>s. s = Looping) (\<lambda>(res, keep). keep = success res)
        (pbind (process_cleanup n p) (\<lambda>_. Done res)))
      (case w of Inl m \<Rightarrow> Done (r\<lparr>comp_error_message := m\<rparr>, False) | Inr st \<Rightarrow> compile_result x l r st)" for w p x l
  proof -
    have "every (\<lambda>c. \<not> removes c) (\<lambda>s. s = Looping) (\<lambda>(res, keep). keep = success res)
      (case w of Inl m \<Rightarrow> Done (r\<lparr>comp_error_message := m\<rparr>, False) | Inr st \<Rightarrow> compile_result x l r st)"
      using assms compile_result_flag [OF assms] by (auto split: sum.split)
    then show ?thesis by (rule every_mono) (auto intro!: every_unit_pbind c)
  qed
  then show ?thesis
    unfolding compile_child_def using compile_wait_no_removal assms
    by (auto simp: every_pbind elim!: every_mono split: prod.split)
qed

lemma compile_prepare_flag:
  "every (\<lambda>c. \<not> removes c) (\<lambda>s. False)
     (\<lambda>x. \<not> success (case x of Inl r \<Rightarrow> r | Inr r \<Rightarrow> r)) (compile_prepare cfg d src)"
  by (auto simp: compile_prepare_def write_source_def every_pbind init_compile_result_def compile_fail_def
      split: sum.split)

text \<open>The directory \<open>d\<close> is looked up and, when it is there, removed.\<close>

definition cleaned :: "string \<Rightarrow> event list \<Rightarrow> bool" where
  "cleaned d u \<longleftrightarrow> (\<exists>a b. u = (Fs_Exists d, a) # (if rv a \<noteq> 0 then [(Fs_Remove_All d, b)] else []))"

lemma runs_directory_cleanup:
  "runs (directory_cleanup g) u (Ret ()) \<Longrightarrow>
   if committed g then u = []
   else cleaned (guard_path g) u"
  by (auto simp: directory_cleanup_def emit_def runs_Call_iff cleaned_def split: if_splits)

lemma compile_guarded_end:
  assumes "success r = False" "runs (compile_guarded cfg n k d r) tr (Ret res)"
  shows "\<exists>t u. tr = t @ u \<and> (\<forall>e \<in> set t. \<not> removes (fst e)) \<and>
     (if success res then u = []
      else cleaned d u)"
proof -
  from assms(2) obtain keep t u where t: "runs (compile_child cfg n k d r) t (Ret (res, keep))"
    and u: "runs (directory_cleanup (if keep then commit (directory_guard d) else directory_guard d)) u (Ret ())"
    and tr: "tr = t @ u"
    by (auto simp: compile_guarded_def Let_def elim!: runs_pbind_RetE)
  have keep: "keep = success res"
    using every_rets [OF t compile_child_flag [OF assms(1)]] by simp
  have "\<forall>e \<in> set t. \<not> removes (fst e)"
    using every_calls [OF t compile_child_flag [OF assms(1)]] by blast
  moreover have "if success res then u = []
      else cleaned d u"
    using runs_directory_cleanup [OF u] keep by (cases keep) (simp_all add: commit_def directory_guard_def)
  ultimately show ?thesis using tr by (intro exI [of _ t] exI [of _ u]) simp
qed

text \<open>
  C11. What a compilation leaves behind. When it succeeds, nothing is ever removed. When it fails after
  its directory is guarded, the last thing that happens is that the directory is looked up and, if it
  is there, removed with everything in it, and nothing is removed before. A failure before the guard
  exists (writing the source, changing owner or permissions) removes nothing at all, so the
  directory stays until \<open>Cleanup\<close>.
\<close>

theorem compile_leaves_directory_iff_success:
  assumes "IsValidRequestId i" "runs (Compile cfg n k temp_dir i src) tr (Ret res)"
  shows "\<exists>t u x. tr = t @ u \<and> runs (compile_prepare cfg (request_dir_of temp_dir i) src) t (Ret x) \<and>
    (\<forall>e \<in> set t. \<not> removes (fst e)) \<and>
    (case x of
       Inl r \<Rightarrow> res = r \<and> \<not> success res \<and> u = []
     | Inr r \<Rightarrow> (\<exists>v w. u = v @ w \<and> (\<forall>e \<in> set v. \<not> removes (fst e)) \<and>
         (if success res then w = []
          else cleaned (request_dir_of temp_dir i) w)))"
proof -
  let ?d = "request_dir_of temp_dir i"
  from assms obtain x t u where t: "runs (compile_prepare cfg ?d src) t (Ret x)"
    and u: "runs (case x of Inl res \<Rightarrow> Done res | Inr r \<Rightarrow> compile_guarded cfg n k ?d r) u (Ret res)"
    and tr: "tr = t @ u"
    by (auto simp: Compile_def Let_def elim!: runs_pbind_RetE)
  have f: "\<not> success (case x of Inl r \<Rightarrow> r | Inr r \<Rightarrow> r)" "\<forall>e \<in> set t. \<not> removes (fst e)"
    using every_rets [OF t compile_prepare_flag] every_calls [OF t compile_prepare_flag] by blast+
  show ?thesis
  proof (cases x)
    case (Inl r)
    then show ?thesis using t u tr f by (intro exI [of _ t] exI [of _ u] exI [of _ x]) simp
  next
    case (Inr r)
    with u f have "success r = False" "runs (compile_guarded cfg n k ?d r) u (Ret res)" by simp_all
    from compile_guarded_end [OF this] show ?thesis
      using t tr f Inr by (intro exI [of _ t] exI [of _ u] exI [of _ x]) simp
  qed
qed

theorem compile_leaves_directory_iff_success_witness:
  "\<exists>res. runs (Compile sample_config 1 1 ''/w'' ''a'' ''src'')
     [(Fs_Create_Directories ''/w/a'', ans 1), (Ofs_Open ''/w/a/main.cpp'', ans 1),
      (Ofs_Put ''/w/a/main.cpp'' ''src'', ans 1), (Ofs_Close ''/w/a/main.cpp'', ans 0),
      (Chown ''/w/a'' (run_uid sample_config) (run_gid sample_config), (ans (-1))\<lparr>er := 1\<rparr>), (Strerror 1, ans 0)]
     (Ret res) \<and> \<not> success res \<and>
   (\<exists>x t u. runs (compile_prepare sample_config ''/w/a'' ''src'') t (Ret x) \<and> (\<forall>e \<in> set t. \<not> removes (fst e)))"
proof -
  have v: "IsValidRequestId ''a''" by (simp add: IsValidRequestId_def isalnum_def isdigit_def byte_of_def)
  have j: "request_dir_of ''/w'' ''a'' = ''/w/a''" "path_join ''/w/a'' ''main.cpp'' = ''/w/a/main.cpp''"
    by (simp_all add: request_dir_of_def path_join_def)
  let ?tr = "[(Fs_Create_Directories ''/w/a'', ans 1), (Ofs_Open ''/w/a/main.cpp'', ans 1),
      (Ofs_Put ''/w/a/main.cpp'' ''src'', ans 1), (Ofs_Close ''/w/a/main.cpp'', ans 0),
      (Chown ''/w/a'' (run_uid sample_config) (run_gid sample_config), (ans (-1))\<lparr>er := 1\<rparr>), (Strerror 1, ans 0)]"
  let ?res = "init_compile_result\<lparr>comp_error_message := msg_chown @ '': ''\<rparr>"
  have run: "runs (Compile sample_config 1 1 ''/w'' ''a'' ''src'') ?tr (Ret ?res)"
    by (simp add: Compile_def compile_prepare_def write_source_def FormatSystemError_def v j text_of_def Let_def)
  from compile_leaves_directory_iff_success [OF v run]
  have c: "\<exists>x t u. runs (compile_prepare sample_config ''/w/a'' ''src'') t (Ret x) \<and> (\<forall>e \<in> set t. \<not> removes (fst e))"
    unfolding j by blast
  have "\<not> success ?res" by (simp add: init_compile_result_def)
  from run this c show ?thesis by (intro exI [of _ ?res] conjI)
qed

end
