(* ===== verification/Sandbox_Termination.thy ===== *)
theory Sandbox_Termination
  imports Sandbox
begin

text \<open>
  The polling loops of \<^verbatim>\<open>Sandbox::Compile\<close> and \<^verbatim>\<open>Sandbox::Run\<close> end. What the operating system has to do
  for it is a condition on the trace: a clock that moves on by at least the time slept
  (\<open>clock_ok\<close>), and system calls that are not interrupted \<open>n\<close> times or more. The interface
  \<open>trace_condition\<close> is all the compositional rules need of such a condition: it also holds of every
  part of a trace.
\<close>

subsection \<open>Programs that do not run out of their bounds\<close>

definition settles :: "(event list \<Rightarrow> bool) \<Rightarrow> 'a prog \<Rightarrow> bool" where
  "settles F p \<longleftrightarrow> (\<forall>tr s. runs p tr (Stopped s) \<longrightarrow> F tr \<longrightarrow> (s = Threw Filesystem_Error))"

lemma settlesD: "settles F p \<Longrightarrow> runs p tr (Stopped s) \<Longrightarrow> F tr \<Longrightarrow> s = Threw Filesystem_Error"
  unfolding settles_def by blast

lemma settles_every: "every C (\<lambda>s. s = Threw Filesystem_Error) R p \<Longrightarrow> settles F p"
  unfolding settles_def using every_stops by blast

lemma settles_Done [simp]: "settles F (Done x)"
  by (simp add: settles_def)

locale trace_condition =
  fixes F :: "event list \<Rightarrow> bool"
  assumes F_part: "F (t @ u @ v) \<Longrightarrow> F u"
begin

lemma F_append: "F (t @ u) \<Longrightarrow> F t \<and> F u"
  using F_part [of "[]" t u] F_part [of t u "[]"] by simp

lemma F_Cons: "F (e # u) \<Longrightarrow> F u"
  using F_append [of "[e]" u] by simp

lemma settles_Call: "(\<And>a. settles F (k a)) \<Longrightarrow> settles F (Call c k)"
  unfolding settles_def by (auto simp: runs_Call_iff dest: F_Cons)

lemma settles_pbind: "settles F p \<Longrightarrow> (\<And>x. settles F (f x)) \<Longrightarrow> settles F (pbind p f)"
  unfolding settles_def by (auto simp: runs_pbind_iff dest!: F_append)

lemma settles_pcatch: "settles F p \<Longrightarrow> settles F (h Filesystem_Error) \<Longrightarrow> settles F (pcatch p h)"
  unfolding settles_def by (blast dest: F_append runs_pcatch)

lemma settles_pfinally: "settles F p \<Longrightarrow> settles F d \<Longrightarrow> settles F (pfinally p d)"
  unfolding settles_def by (auto simp: scope_end_def dest!: runs_pfinally F_append)

end

subsection \<open>The condition on the operating system\<close>

definition slept :: "event list \<Rightarrow> int" where
  "slept tr = sum_list (map (\<lambda>e. case fst e of Sleep_Ms t \<Rightarrow> int t | _ \<Rightarrow> 0) tr)"

lemma slept_simps [simp]:
  "slept [] = 0" "slept (e # tr) = (case fst e of Sleep_Ms t \<Rightarrow> int t | _ \<Rightarrow> 0) + slept tr"
  "slept (tr @ tr') = slept tr + slept tr'"
  by (simp_all add: slept_def)

lemma slept_nonneg: "0 \<le> slept tr"
  by (induction tr) (auto split: call.split)

definition clock_ok :: "event list \<Rightarrow> bool" where
  "clock_ok tr \<longleftrightarrow>
     (\<forall>t a u b v. tr = t @ (Clock_Now, a) # u @ (Clock_Now, b) # v \<longrightarrow>
        rv a + 1000000 * slept u \<le> rv b \<and> rv b - rv a < 2 ^ 31 * 1000000)"

lemma clock_ok_part: "clock_ok (t @ u @ v) \<Longrightarrow> clock_ok u"
  unfolding clock_ok_def
proof (intro allI impI)
  fix t' a u' b v'
  assume *: "\<forall>ta a ua b va. t @ u @ v = ta @ (Clock_Now, a) # ua @ (Clock_Now, b) # va \<longrightarrow>
        rv a + 1000000 * slept ua \<le> rv b \<and> rv b - rv a < 2 ^ 31 * 1000000"
    and u: "u = t' @ (Clock_Now, a) # u' @ (Clock_Now, b) # v'"
  have "t @ u @ v = (t @ t') @ (Clock_Now, a) # u' @ (Clock_Now, b) # (v' @ v)" by (simp add: u)
  with * show "rv a + 1000000 * slept u' \<le> rv b \<and> rv b - rv a < 2 ^ 31 * 1000000" by blast
qed

definition interruptions :: "event list \<Rightarrow> nat" where
  "interruptions tr = length (filter (\<lambda>e. rv (snd e) = -1 \<and> er (snd e) = EINTR) tr)"

lemma interruptions_append [simp]: "interruptions (t @ u) = interruptions t + interruptions u"
  by (simp add: interruptions_def)

text \<open>\<^verbatim>\<open>clone\<close> returns -1 or a process id.\<close>

definition clones_ok :: "event list \<Rightarrow> bool" where
  "clones_ok tr \<longleftrightarrow> list_all (\<lambda>e. (\<exists>c f. fst e = Clone c f) \<longrightarrow> rv (snd e) = -1 \<or> 0 < rv (snd e)) tr"

definition os_ok :: "nat \<Rightarrow> event list \<Rightarrow> bool" where
  "os_ok n tr \<longleftrightarrow> clock_ok tr \<and> interruptions tr < n \<and> clones_ok tr"

interpretation os: trace_condition "os_ok n" for n
  by unfold_locales (auto simp: os_ok_def clones_ok_def dest: clock_ok_part)

lemma retry_eintr_stops:
  "runs (retry_eintr n c) tr (Stopped s) \<Longrightarrow> n \<le> interruptions tr"
proof (induction n arbitrary: tr)
  case (Suc n)
  then show ?case by (auto simp: runs_Call_iff interruptions_def split: if_splits)
qed simp

abbreviation calm :: "nat \<Rightarrow> event list \<Rightarrow> bool" where
  "calm n tr \<equiv> interruptions tr < n"

interpretation calm: trace_condition "calm n" for n
  by unfold_locales simp

lemma settles_mono: "settles G p \<Longrightarrow> (\<And>tr. F tr \<Longrightarrow> G tr) \<Longrightarrow> settles F p"
  unfolding settles_def by blast

lemma settles_os: "settles (calm n) p \<Longrightarrow> settles (os_ok n) p"
  by (erule settles_mono) (simp add: os_ok_def)

lemma settles_retry: "settles (calm n) (retry_eintr n c)"
  by (auto simp: settles_def dest: retry_eintr_stops)

lemma settles_guard_wait: "settles (calm n) (guard_wait n c p)"
  by (simp add: guard_wait_def settles_retry)

lemma settles_cleanup: "settles (calm n) (process_cleanup n p)"
  unfolding process_cleanup_def
  by (auto intro!: calm.settles_pbind settles_retry calm.settles_Call simp: emit_def)

lemma settles_Format: "settles F (FormatSystemError e m)"
  by (rule settles_every [where C = "\<lambda>_. True" and R = "\<lambda>_. True"]) simp

lemma settles_kill: "settles F (guard_kill p)"
  by (rule settles_every [where C = "\<lambda>_. True" and R = "\<lambda>_. True"]) (simp add: guard_kill_def)

lemmas settles_intros =
  calm.settles_pbind calm.settles_Call settles_guard_wait settles_Format settles_kill

lemma kill_and_wait:
  assumes "runs (pbind (guard_kill p) (\<lambda>_. pbind (guard_wait n c p) (\<lambda>v. Done (g v)))) t (Stopped s)" "calm n t"
  shows "s = Threw Filesystem_Error"
proof -
  have "settles (calm n) (pbind (guard_kill p) (\<lambda>_. pbind (guard_wait n c p) (\<lambda>v. Done (g v))))"
    by (intro settles_intros settles_Done)
  from settlesD [OF this assms] show ?thesis .
qed

subsection \<open>The watching loop\<close>

lemma guard_wait_answered:
  "0 < guard_pid p \<Longrightarrow> runs (guard_wait n c p) tr (Ret w) \<Longrightarrow> answered w"
  using retry_eintr_returns by (fastforce simp: guard_wait_def)

lemma elapsed_lower:
  assumes "start + 1000000 * b \<le> t" "t - start < 2 ^ 31 * 1000000" "0 \<le> b"
  shows "b \<le> s32 (elapsed_ms start t)" "b \<le> elapsed_ms start t"
proof -
  have e: "elapsed_ms start t = (t - start) div 1000000"
    using assms by (simp add: elapsed_ms_def c_div_nonneg)
  have "b \<le> (t - start) div 1000000" "(t - start) div 1000000 < 2 ^ 31"
    using assms by auto
  then show "b \<le> s32 (elapsed_ms start t)" "b \<le> elapsed_ms start t"
    using assms(3) by (simp_all add: e s32_id)
qed

text \<open>
  A trace that goes on after a clock reading of \<open>start\<close> with \<open>b\<close> milliseconds of sleep since: every later
  reading has moved on by \<open>b\<close> and by what was slept in between.
\<close>

definition clock_from :: "int \<Rightarrow> int \<Rightarrow> event list \<Rightarrow> bool" where
  "clock_from start b tr \<longleftrightarrow>
     (\<forall>u a v. tr = u @ (Clock_Now, a) # v \<longrightarrow>
        start + 1000000 * (b + slept u) \<le> rv a \<and> rv a - start < 2 ^ 31 * 1000000)"

lemma clock_from_append: "clock_from start b (t @ u) \<Longrightarrow> clock_from start (b + slept t) u"
  unfolding clock_from_def
proof (intro allI impI)
  fix u' a v
  assume *: "\<forall>ua a v. t @ u = ua @ (Clock_Now, a) # v \<longrightarrow>
        start + 1000000 * (b + slept ua) \<le> rv a \<and> rv a - start < 2 ^ 31 * 1000000"
    and u: "u = u' @ (Clock_Now, a) # v"
  have "t @ u = (t @ u') @ (Clock_Now, a) # v" by (simp add: u)
  with * have "start + 1000000 * (b + slept (t @ u')) \<le> rv a \<and> rv a - start < 2 ^ 31 * 1000000" by blast
  then show "start + 1000000 * (b + slept t + slept u') \<le> rv a \<and> rv a - start < 2 ^ 31 * 1000000"
    by (simp add: add.assoc)
qed

lemma clock_from_mono: "clock_from start b tr \<Longrightarrow> b' \<le> b \<Longrightarrow> clock_from start b' tr"
  unfolding clock_from_def by (smt (verit, best))

lemma clock_from_start:
  "clock_ok ((Clock_Now, a) # tr) \<Longrightarrow> clock_from (rv a) 0 tr"
  unfolding clock_ok_def clock_from_def by (metis add_0 append_Nil)

lemma clock_from_now:
  "clock_from start b ((Clock_Now, a) # v) \<Longrightarrow> start + 1000000 * b \<le> rv a \<and> rv a - start < 2 ^ 31 * 1000000"
  unfolding clock_from_def by (metis append_Nil add.right_neutral slept_simps(1))

lemma guard_wait_no_sleep: "runs (guard_wait n (\<lambda>pid. Wait4 pid x) p) tr r \<Longrightarrow> slept tr = 0"
  "runs (guard_wait n (\<lambda>pid. Waitpid pid x) p) tr r \<Longrightarrow> slept tr = 0"
proof -
  have "list_all (\<lambda>e. \<not> (\<exists>t. fst e = Sleep_Ms t)) tr \<Longrightarrow> slept tr = 0" for tr
    by (induction tr) (auto split: call.split)
  moreover have "every (\<lambda>c. \<not> (\<exists>t. c = Sleep_Ms t)) (\<lambda>_. True) (\<lambda>_. True) (guard_wait n (\<lambda>pid. Wait4 pid x) p)"
    "every (\<lambda>c. \<not> (\<exists>t. c = Sleep_Ms t)) (\<lambda>_. True) (\<lambda>_. True) (guard_wait n (\<lambda>pid. Waitpid pid x) p)"
    by (rule every_guard_wait; simp)+
  ultimately show "runs (guard_wait n (\<lambda>pid. Wait4 pid x) p) tr r \<Longrightarrow> slept tr = 0"
    "runs (guard_wait n (\<lambda>pid. Waitpid pid x) p) tr r \<Longrightarrow> slept tr = 0"
    using every_calls unfolding list_all_iff by blast+
qed

text \<open>
  A loop of the two loops' common form, abstractly: poll, leave or read the clock, leave or sleep. It
  can only use up \<open>k\<close> rounds when the clock has not passed the limit after \<open>k - 1\<close> naps.
\<close>

definition next_round :: "'a prog \<Rightarrow> int \<Rightarrow> int \<Rightarrow> nat \<Rightarrow> int \<Rightarrow> int \<Rightarrow> stop \<Rightarrow> bool" where
  "next_round again lmt nap n start b s \<longleftrightarrow> s = Threw Filesystem_Error \<or>
     b \<le> lmt \<and> (\<exists>t. runs again t (Stopped s) \<and> calm n t \<and> clock_from start (b + nap) t)"

lemma clock_round:
  assumes "runs (Call Clock_Now (\<lambda>now. if lmt < f (rv now) then q now else Call (Sleep_Ms d) (\<lambda>_. again))) t (Stopped s)"
    and "calm n t" and "clock_from start b t" and "nap \<le> int d"
    and "\<And>x. start + 1000000 * b \<le> x \<Longrightarrow> x - start < 2 ^ 31 * 1000000 \<Longrightarrow> b \<le> f x"
    and "\<And>a t. runs (q a) t (Stopped s) \<Longrightarrow> calm n t \<Longrightarrow> s = Threw Filesystem_Error"
  shows "next_round again lmt nap n start b s"
proof -
  obtain a t3 where t: "t = (Clock_Now, a) # t3"
    and t3: "runs (if lmt < f (rv a) then q a else Call (Sleep_Ms d) (\<lambda>_. again)) t3 (Stopped s)"
    using assms(1) by (auto simp: runs_Call_iff)
  have calm: "calm n t3" using assms(2) unfolding t by (rule calm.F_Cons)
  show ?thesis
  proof (cases "lmt < f (rv a)")
    case True
    then show ?thesis using assms(6) t3 calm by (simp add: next_round_def)
  next
    case False
    with t3 obtain a' t4 where t3': "t3 = (Sleep_Ms d, a') # t4" and t4: "runs again t4 (Stopped s)"
      by (auto simp: runs_Call_iff)
    have "clock_from start (b + int d) t4"
      using clock_from_append [of start b "[(Clock_Now, a), (Sleep_Ms d, a')]" t4] assms(3) t t3' by simp
    then have "clock_from start (b + nap) t4" using clock_from_mono assms(4) by simp
    moreover have "calm n t4" using calm unfolding t3' by (rule calm.F_Cons)
    moreover have "b \<le> f (rv a)" using clock_from_now [OF assms(3) [unfolded t]] assms(5) by blast
    ultimately show ?thesis using t4 False by (auto simp: next_round_def)
  qed
qed

lemma rounds_bound:
  assumes round: "\<And>k tr b. runs (loop (Suc k)) tr (Stopped s) \<Longrightarrow> calm n tr \<Longrightarrow> clock_from start b tr \<Longrightarrow> 0 \<le> b
      \<Longrightarrow> next_round (loop k) lmt nap n start b s"
    and "0 \<le> nap" and "runs (loop k) tr (Stopped s)" and "calm n tr" and "clock_from start b tr" and "0 \<le> b"
  shows "s = Threw Filesystem_Error \<or> k = 0 \<or> b + nap * (int k - 1) \<le> lmt"
  using assms(3-6)
proof (induction k arbitrary: tr b)
  case (Suc k)
  then consider "s = Threw Filesystem_Error"
    | t where "b \<le> lmt" "runs (loop k) t (Stopped s)" "calm n t" "clock_from start (b + nap) t"
    using round unfolding next_round_def by blast
  then show ?case
  proof cases
    case 2
    have "s = Threw Filesystem_Error \<or> k = 0 \<or> b + nap + nap * (int k - 1) \<le> lmt"
      using Suc.IH [OF 2(2-4)] Suc.prems(4) assms(2) by simp
    then show ?thesis using 2(1) by (auto simp: algebra_simps)
  qed simp
qed simp

lemma watch_round:
  assumes "runs (watch n (Suc k) start tlim ml p) tr (Stopped s)" "0 < guard_pid p" "calm n tr" "clock_from start b tr" "0 \<le> b"
  shows "next_round (watch n k start tlim ml p) (s32 (tlim + 1000)) 10 n start b s"
proof -
  let ?L = "s32 (tlim + 1000)"
  from assms(1) consider
      (wait) "runs (guard_wait n (\<lambda>pid. Wait4 pid WNOHANG) p) tr (Stopped s)"
    | (go) w t1 t2 where "runs (guard_wait n (\<lambda>pid. Wait4 pid WNOHANG) p) t1 (Ret w)" "tr = t1 @ t2"
        "runs (if rv w = -1 then
         (if er w = EINTR then watch n k start tlim ml p
          else pbind (FormatSystemError (er w) ''wait4 failed'') (\<lambda>m.
            Done (Inl (system_error ''waitpid_failed'' m), p)))
       else if rv w \<noteq> 0 then Done (Inr (out w, usage w), release p)
       else if ml < ru_maxrss (usage w) then
         pbind (guard_kill p) (\<lambda>_.
         pbind (wait_rusage n p) (\<lambda>v.
         Call Clock_Now (\<lambda>now.
           Done (Inl (init_run_result\<lparr>status := MEMORY_LIMIT_EXCEEDED,
             time_used := s32 (elapsed_ms start (rv now)), memory_used := ru_maxrss (usage v),
             exit_signal := SIGKILL\<rparr>), release p))))
       else Call Clock_Now (\<lambda>now.
         if ?L < s32 (elapsed_ms start (rv now)) then
           pbind (guard_kill p) (\<lambda>_.
           pbind (wait_rusage n p) (\<lambda>v.
             Done (Inl (init_run_result\<lparr>status := TIME_LIMIT_EXCEEDED, time_used := s32 (elapsed_ms start (rv now)),
               memory_used := ru_maxrss (usage v), exit_signal := SIGKILL\<rparr>), release p)))
         else Call (Sleep_Ms (poll_nap ml (ru_maxrss (usage w)))) (\<lambda>_. watch n k start tlim ml p))) t2 (Stopped s)"
    unfolding watch.simps runs_pbind_iff wait_nonblock_rusage_def Let_def by blast
  then show ?thesis
  proof cases
    case wait
    from settlesD [OF settles_guard_wait this assms(3)] show ?thesis by (simp add: next_round_def)
  next
    case go
    have calm: "calm n t2" using assms(3) go(2) by simp
    have w: "answered w" by (rule guard_wait_answered [OF assms(2) go(1)])
    have cf: "clock_from start b t2"
      using clock_from_append [of start b t1 t2] assms(4) guard_wait_no_sleep(1) [OF go(1)] go(2) by simp
    show ?thesis
    proof (cases "rv w = 0 \<and> \<not> ml < ru_maxrss (usage w)")
      case False
      have leave: "s = Threw Filesystem_Error" if "settles (calm n) q" "runs q t2 (Stopped s)" for q :: "'z prog"
        by (rule settlesD [OF that calm])
      with w go(3) False show ?thesis
        by (auto split: if_splits simp: next_round_def wait_rusage_def elim!: leave [rotated] intro!: settles_intros)
    next
      case True
      show ?thesis
      proof (rule clock_round [OF _ calm cf])
        show "b \<le> s32 (elapsed_ms start x)" if "start + 1000000 * b \<le> x" "x - start < 2 ^ 31 * 1000000" for x
          using elapsed_lower(1) [OF that assms(5)] .
      qed (use go(3) True poll_nap_min kill_and_wait in \<open>auto simp: wait_rusage_def\<close>)
    qed
  qed
qed

lemma watch_rounds:
  assumes "runs (watch n k start tlim ml p) tr (Stopped s)" "0 < guard_pid p" "calm n tr"
    and "clock_from start b tr" "0 \<le> b"
  shows "(s = Threw Filesystem_Error) \<or> k = 0 \<or> b + 10 * (int k - 1) \<le> s32 (tlim + 1000)"
  by (rule rounds_bound [where loop = "\<lambda>k. watch n k start tlim ml p", OF watch_round _ assms(1,3,4,5)]) (simp_all add: assms(2))

lemma compile_wait_round:
  assumes "runs (compile_wait n (Suc k) start limit_ms p) tr (Stopped s)" "0 < guard_pid p" "calm n tr"
    "clock_from start b tr" "0 \<le> b"
  shows "next_round (compile_wait n k start limit_ms p) limit_ms 50 n start b s"
proof -
  from assms(1) consider
      (wait) "runs (guard_wait n (\<lambda>pid. Waitpid pid WNOHANG) p) tr (Stopped s)"
    | (go) w t1 t2 where "runs (guard_wait n (\<lambda>pid. Waitpid pid WNOHANG) p) t1 (Ret w)" "tr = t1 @ t2"
        "runs (if rv w = -1 then
         (if er w = EINTR then compile_wait n k start limit_ms p
          else pbind (FormatSystemError (er w) msg_waitpid) (\<lambda>m. Done (Inl m, p)))
       else if rv w \<noteq> 0 then Done (Inr (out w), release p)
       else Call Clock_Now (\<lambda>now.
         if limit_ms < elapsed_ms start (rv now) then
           pbind (guard_kill p) (\<lambda>_.
           pbind (wait_block n p) (\<lambda>_.
             Done (Inl (msg_compile_timeout @ dec_int limit_ms @ msg_compile_timeout_end), p)))
         else Call (Sleep_Ms 50) (\<lambda>_. compile_wait n k start limit_ms p))) t2 (Stopped s)"
    unfolding compile_wait.simps runs_pbind_iff wait_nonblock_def by blast
  then show ?thesis
  proof cases
    case wait
    from settlesD [OF settles_guard_wait this assms(3)] show ?thesis by (simp add: next_round_def)
  next
    case go
    have calm: "calm n t2" using assms(3) go(2) by simp
    have w: "answered w" by (rule guard_wait_answered [OF assms(2) go(1)])
    have cf: "clock_from start b t2"
      using clock_from_append [of start b t1 t2] assms(4) guard_wait_no_sleep(2) [OF go(1)] go(2) by simp
    show ?thesis
    proof (cases "rv w = 0")
      case False
      with w go(3) show ?thesis by (auto split: if_splits simp: next_round_def FormatSystemError_def runs_Call_iff)
    next
      case True
      show ?thesis
      proof (rule clock_round [OF _ calm cf])
        show "b \<le> elapsed_ms start x" if "start + 1000000 * b \<le> x" "x - start < 2 ^ 31 * 1000000" for x
          using elapsed_lower(2) [OF that assms(5)] .
      qed (use go(3) True kill_and_wait in \<open>auto simp: wait_block_def\<close>)
    qed
  qed
qed

lemma compile_wait_rounds:
  assumes "runs (compile_wait n k start limit_ms p) tr (Stopped s)" "0 < guard_pid p" "calm n tr"
    and "clock_from start b tr" "0 \<le> b"
  shows "(s = Threw Filesystem_Error) \<or> k = 0 \<or> b + 50 * (int k - 1) \<le> limit_ms"
  by (rule rounds_bound [where loop = "\<lambda>k. compile_wait n k start limit_ms p", OF compile_wait_round _ assms(1,3,4,5)])
    (simp_all add: assms(2))

subsection \<open>Compile and Run\<close>

lemma settles_after_clock:
  assumes "\<And>a t s. runs (q a) t (Stopped s) \<Longrightarrow> calm n t \<Longrightarrow> clock_from (rv a) 0 t \<Longrightarrow> s = Threw Filesystem_Error"
    and "\<And>x. settles (os_ok n) (f x)"
  shows "settles (os_ok n) (Call Clock_Now (\<lambda>a. pbind (q a) f))"
  unfolding settles_def
proof (intro allI impI)
  fix tr s
  assume run: "runs (Call Clock_Now (\<lambda>a. pbind (q a) f)) tr (Stopped s)" and ok: "os_ok n tr"
  from run obtain a t where tr: "tr = (Clock_Now, a) # t" and t: "runs (pbind (q a) f) t (Stopped s)"
    by (auto simp: runs_Call_iff)
  have t_ok: "os_ok n t" using ok unfolding tr by (rule os.F_Cons)
  from t consider (w) "runs (q a) t (Stopped s)" | (f) x t1 t2 where "runs (f x) t2 (Stopped s)" "t = t1 @ t2"
    by (auto simp: runs_pbind_iff)
  then show "s = Threw Filesystem_Error"
  proof cases
    case w
    have "clock_from (rv a) 0 t" using ok unfolding tr os_ok_def by (blast intro: clock_from_start)
    with w t_ok show ?thesis by (intro assms(1)) (auto simp: os_ok_def)
  next
    case f
    then show ?thesis using t_ok assms(2) [of x] by (auto dest: os.F_append settlesD)
  qed
qed

lemma settles_watch:
  assumes "0 < guard_pid p" "s32 (tlim + 1000) < 10 * (int k - 1)" "0 < k" "\<And>x. settles (os_ok n) (f x)"
  shows "settles (os_ok n) (Call Clock_Now (\<lambda>start. pbind (watch n k (rv start) tlim ml p) f))"
proof (rule settles_after_clock [OF _ assms(4)])
  fix a t s assume "runs (watch n k (rv a) tlim ml p) t (Stopped s)" "calm n t" "clock_from (rv a) 0 t"
  from watch_rounds [OF this(1) assms(1) this(2,3)] assms(2,3) show "s = Threw Filesystem_Error" by fastforce
qed

lemma settles_compile_wait:
  assumes "0 < guard_pid p" "limit_ms < 50 * (int k - 1)" "0 < k" "\<And>x. settles (os_ok n) (f x)"
  shows "settles (os_ok n) (Call Clock_Now (\<lambda>start. pbind (compile_wait n k (rv start) limit_ms p) f))"
proof (rule settles_after_clock [OF _ assms(4)])
  fix a t s assume "runs (compile_wait n k (rv a) limit_ms p) t (Stopped s)" "calm n t" "clock_from (rv a) 0 t"
  from compile_wait_rounds [OF this(1) assms(1) this(2,3)] assms(2,3) show "s = Threw Filesystem_Error" by fastforce
qed

text \<open>The parts of \<open>Run\<close> and \<open>Compile\<close> that have no loop always return.\<close>

abbreviation never_stops :: "'a prog \<Rightarrow> bool" where
  "never_stops p \<equiv> every (\<lambda>_. True) (\<lambda>_. False) (\<lambda>_. True) p"

lemma manages_never_stops: "manages P p \<Longrightarrow> never_stops p"
  by (erule every_mono) auto

lemma never_stops_every: "never_stops p \<Longrightarrow> every (\<lambda>_. True) E (\<lambda>_. True) p"
  by (erule every_mono) auto

lemma never_stops_settles: "never_stops p \<Longrightarrow> settles F p"
  by (rule settles_every) (erule never_stops_every)

lemma setters_never_stop:
  "never_stops (SetMemoryLimit m b sw)" "never_stops (SetPidsLimit m j)" "never_stops (SetCPULimit m c)"
  "never_stops (SetIOLimit m r w t)" "never_stops (AddProcess m pid)" "never_stops (GetMemoryPeak m)"
  by (rule manages_never_stops [where P = "\<lambda>_. True"], intro manages_setters manages_peak TrueI)+

lemma dtor_never_stops: "never_stops (cgroup_dtor m)"
proof -
  have "never_stops (cgroup_Destroy m)"
    by (rule manages_never_stops [where P = "\<lambda>_. True"], intro manages_destroy TrueI)
  then show ?thesis unfolding cgroup_dtor_def by (auto intro!: every_unit_pbind)
qed

lemma limits_never_stop: "never_stops (apply_cgroup_limits cfg m ml pid)"
  unfolding apply_cgroup_limits_def Let_def
  by (intro every_block) (auto intro!: every_unit_pbind setters_never_stop)

lemma setup_throws: "every (\<lambda>_. True) (\<lambda>s. s = Threw Filesystem_Error) (\<lambda>_. True) (setup_cgroup cfg ml pid)"
proof -
  let ?E = "\<lambda>s. s = Threw Filesystem_Error"
  have mnt: "every (\<lambda>_. True) ?E (\<lambda>_. True) (first_cgroup2_root mnts)" for mnts
    by (induction mnts) (auto simp: fs_exists_throwing_def)
  have "never_stops (cgroup_Create m)" for m
    by (rule manages_never_stops [where P = "\<lambda>_. True"], intro manages_create TrueI)
  then have att: "never_stops (pbind (cgroup_Create m') (\<lambda>(made, m).
            if made then pbind (apply_cgroup_limits cfg m ml pid) (\<lambda>_. Done (Some m, True))
            else Done (Some m, False)))" for m'
    by (intro every_unit_pbind) (auto intro!: every_unit_pbind limits_never_stop)
  show ?thesis
    unfolding setup_cgroup_def GetCgroup2MountRoot_def
    by (rule every_unit_pbind [OF mnt], rule if_split [THEN iffD2])
      (intro conjI impI every_pcatch never_stops_every [OF att], simp)
qed

lemma classify_never_stops: "never_stops (classify_status r marker st tlim ml)"
  by (simp add: classify_status_def classify_signal_def runtime_error_signal_def Let_def)

lemma finish_never_stops: "never_stops (finish_run cfg cg enabled outp errp tlim ml st ru)"
  unfolding finish_run_def measured_memory_def output_limit_hit_def ReadRunExecFailureMarker_def
  by (intro every_unit_pbind)
    (auto simp: Let_def intro!: every_unit_pbind setters_never_stop classify_never_stops split: option.split)

lemma settles_run_parent:
  assumes "0 < pid" "s32 (tlim + 1000) < 10 * (int k - 1)" "0 < k"
  shows "settles (os_ok n) (run_parent cfg n k outp errp tlim ml pid)"
proof -
  have s: "settles (os_ok n) (setup_cgroup cfg ml pid)"
    by (rule settles_every, rule every_mono [OF setup_throws]) auto
  have t: "settles (os_ok n) (Stop (Threw Filesystem_Error))" by (simp add: settles_def)
  have c: "settles (os_ok n) (process_cleanup n p)" for p by (rule settles_os) (rule settles_cleanup)
  have d: "settles (os_ok n) (drop_cgroup cg)" for cg
    by (cases cg) (simp_all add: drop_cgroup_def never_stops_settles dtor_never_stops)
  have f: "settles (os_ok n) (case w of Inl r \<Rightarrow> Done r
        | Inr (st, ru) \<Rightarrow> finish_run cfg cg en outp errp tlim ml st ru)" for w cg en
    by (auto simp: never_stops_settles finish_never_stops split: sum.split prod.split)
  have g: "0 < guard_pid (process_guard pid)" using assms(1) by (simp add: process_guard_def)
  show ?thesis
    unfolding run_parent_def Let_def
    by (auto intro!: os.settles_pbind os.settles_pcatch settles_watch [OF g assms(2,3)] s t c d f split: prod.split)
qed

lemma clones_ok_head: "clones_ok ((Clone ch fg, a) # t) \<Longrightarrow> rv a = -1 \<or> 0 < rv a"
  by (auto simp: clones_ok_def)

lemma settles_Clone:
  assumes "\<And>a. rv a = -1 \<or> 0 < rv a \<Longrightarrow> settles (os_ok n) (f a)"
  shows "settles (os_ok n) (Call (Clone ch fg) f)"
  unfolding settles_def
proof (intro allI impI)
  fix tr s assume "runs (Call (Clone ch fg) f) tr (Stopped s)" and ok: "os_ok n tr"
  then obtain a t where tr: "tr = (Clone ch fg, a) # t" and t: "runs (f a) t (Stopped s)"
    by (auto simp: runs_Call_iff)
  from ok have "rv a = -1 \<or> 0 < rv a" unfolding tr os_ok_def using clones_ok_head by blast
  from settlesD [OF assms [OF this] t] ok show "s = Threw Filesystem_Error" unfolding tr using os.F_Cons by blast
qed

lemma settles_Run:
  assumes "s32 (tlim + 1000) < 10 * (int k - 1)" "0 < k"
  shows "settles (os_ok n) (Run cfg n k exe inp outp errp tlim ml)"
proof -
  have f: "settles (os_ok n) (FormatSystemError e m)" for e m by (rule settles_Format)
  have c: "settles (os_ok n) (auto_close fd)" for fd
    by (rule never_stops_settles) (simp add: auto_close_def)
  have o: "settles (os_ok n) (open_or_null path fl mode nul)" for path fl mode nul
    by (rule never_stops_settles) (auto simp: open_or_null_def every_pbind)
  have w: "settles (os_ok n) get \<Longrightarrow> (\<And>x. settles (os_ok n) (g x)) \<Longrightarrow> settles (os_ok n) (with_fd get g)"
    for get :: "int prog" and g :: "int \<Rightarrow> RunResult prog"
    unfolding with_fd_def by (intro os.settles_pbind os.settles_pfinally c)
  have "settles (os_ok n) (run_cloned cfg n k args outp errp tlim ml)" for args outp errp
    unfolding run_cloned_def
    by (rule settles_Clone) (auto intro!: os.settles_pbind f settles_run_parent assms)
  then show ?thesis
    unfolding Run_def by (auto intro!: os.settles_Call os.settles_pbind w o f)
qed

text \<open>
  C9. \<open>Run\<close> ends. Assume that the clock advances by at least the time slept, that fewer than \<open>n\<close>
  system calls are interrupted and that \<^verbatim>\<open>clone\<close> returns -1 or a process id. Then one poll for
  every 10 milliseconds of the time limit and its grace of one second, and two more, are enough: whatever
  the child does, \<open>Run\<close> returns a result, or the probe of the cgroup file system throws.
\<close>

theorem run_ends_in_time:
  assumes "os_ok n tr" "0 < k" "s32 (tlim + 1000) < 10 * (int k - 1)"
    and "runs (Run cfg n k exe inp outp errp tlim ml) tr r"
  shows "(\<exists>res. r = Ret res) \<or> r = Stopped (Threw Filesystem_Error)"
  using settlesD [OF settles_Run [OF assms(3,2)] _ assms(1)] assms(4) by (cases r) blast+

text \<open>The condition on a concrete trace, event by event.\<close>

lemma clock_from_Nil [simp]: "clock_from start b []"
  by (simp add: clock_from_def)

lemma clock_from_Cons [simp]:
  "clock_from start b ((c, a) # tr) \<longleftrightarrow>
     (c = Clock_Now \<longrightarrow> start + 1000000 * b \<le> rv a \<and> rv a - start < 2 ^ 31 * 1000000) \<and>
     clock_from start (b + slept [(c, a)]) tr"
proof
  assume h: "clock_from start b ((c, a) # tr)"
  then show "(c = Clock_Now \<longrightarrow> start + 1000000 * b \<le> rv a \<and> rv a - start < 2 ^ 31 * 1000000) \<and>
     clock_from start (b + slept [(c, a)]) tr"
    using clock_from_append [of start b "[(c, a)]" tr] clock_from_now by auto
next
  assume h: "(c = Clock_Now \<longrightarrow> start + 1000000 * b \<le> rv a \<and> rv a - start < 2 ^ 31 * 1000000) \<and>
     clock_from start (b + slept [(c, a)]) tr"
  show "clock_from start b ((c, a) # tr)"
    unfolding clock_from_def
  proof (intro allI impI)
    fix u x v assume e: "(c, a) # tr = u @ (Clock_Now, x) # v"
    show "start + 1000000 * (b + slept u) \<le> rv x \<and> rv x - start < 2 ^ 31 * 1000000"
    proof (cases u)
      case Nil
      with e h show ?thesis by simp
    next
      case (Cons e' u')
      with e have e': "e' = (c, a)" "tr = u' @ (Clock_Now, x) # v" by simp_all
      with h have "start + 1000000 * (b + slept [(c, a)] + slept u') \<le> rv x \<and> rv x - start < 2 ^ 31 * 1000000"
        unfolding clock_from_def by blast
      then show ?thesis by (simp add: Cons e' algebra_simps)
    qed
  qed
qed

lemma clock_ok_Nil [simp]: "clock_ok []"
  by (simp add: clock_ok_def)

lemma clock_ok_Cons [simp]:
  "clock_ok ((c, a) # tr) \<longleftrightarrow> (c = Clock_Now \<longrightarrow> clock_from (rv a) 0 tr) \<and> clock_ok tr"
proof
  assume "clock_ok ((c, a) # tr)"
  then show "(c = Clock_Now \<longrightarrow> clock_from (rv a) 0 tr) \<and> clock_ok tr"
    using clock_ok_part [of "[(c, a)]" tr "[]"] clock_from_start by auto
next
  assume h: "(c = Clock_Now \<longrightarrow> clock_from (rv a) 0 tr) \<and> clock_ok tr"
  show "clock_ok ((c, a) # tr)"
    unfolding clock_ok_def
  proof (intro allI impI)
    fix t x u y v assume e: "(c, a) # tr = t @ (Clock_Now, x) # u @ (Clock_Now, y) # v"
    show "rv x + 1000000 * slept u \<le> rv y \<and> rv y - rv x < 2 ^ 31 * 1000000"
    proof (cases t)
      case Nil
      with e h have "clock_from (rv x) 0 (u @ (Clock_Now, y) # v)" by simp
      from clock_from_now [OF clock_from_append [OF this]] show ?thesis by simp
    next
      case (Cons e' t')
      with e have "tr = t' @ (Clock_Now, x) # u @ (Clock_Now, y) # v" by simp
      with h show ?thesis unfolding clock_ok_def by blast
    qed
  qed
qed

lemma poll_nap_idle: "poll_nap 65536 0 = 50"
  using fl_of_int [of 0] fl_of_int [of 65536] by (simp add: poll_nap_def)

text \<open>
  A run that is not over in time: one poll is interrupted, two find the child running, with a nap of 50
  milliseconds between them; then the limit of one second and its grace have passed and the child is killed.
\<close>

definition late_run :: "event list" where
  "late_run =
     [(Open ''/dev/null'' 2 0, ans 3), (Dup 3, ans 4), (Open ''/w/a/out'' 577 420, ans 5), (Dup 3, ans 6),
      (Clone (Run_Child (run_child_args sample_config ''/w/a/main'' 1000 65536 4 5 6)) clone_flags, ans 7),
      (Statfs ''/sys/fs/cgroup/unified'', ans (-1)), (Statfs ''/sys/fs/cgroup'', ans (-1)),
      (Clock_Now, ans 0),
      (Wait4 7 WNOHANG, (ans (-1))\<lparr>er := EINTR\<rparr>), (Wait4 7 WNOHANG, ans 0),
      (Clock_Now, ans 1000000), (Sleep_Ms 50, ans 0),
      (Wait4 7 WNOHANG, ans 0), (Clock_Now, ans 2500000000),
      (Kill 7 SIGKILL, ans 0), (Wait4 7 0, ans 7),
      (Close 6, ans 0), (Close 5, ans 0), (Close 4, ans 0), (Close 3, ans 0)]"

lemma late_run_ok: "os_ok 2 late_run"
  by (simp add: os_ok_def late_run_def interruptions_def clones_ok_def)

lemma late_run_runs:
  "\<exists>res. runs (Run sample_config (Suc (Suc n)) (Suc (Suc k)) ''/w/a/main'' [] ''/w/a/out'' [] 1000 65536) late_run (Ret res) \<and>
     status res = TIME_LIMIT_EXCEEDED"
  by (simp add: late_run_def Run_def with_fd_def open_or_null_def auto_close_def emit_def run_cloned_def
      run_parent_def setup_cgroup_def GetCgroup2MountRoot_def process_guard_def wait_nonblock_rusage_def
      guard_wait_def elapsed_ms_def s32_def guard_kill_def wait_rusage_def drop_cgroup_def process_cleanup_def
      release_def Let_def zero_rusage_def c_div_def poll_nap_idle)

theorem run_ends_in_time_witness:
  "\<exists>r. runs (Run sample_config 2 202 ''/w/a/main'' [] ''/w/a/out'' [] 1000 65536) late_run r \<and> os_ok 2 late_run \<and>
     ((\<exists>res. r = Ret res) \<or> r = Stopped (Threw Filesystem_Error))"
proof -
  let ?p = "Run sample_config 2 202 ''/w/a/main'' [] ''/w/a/out'' [] 1000 65536"
  have "2 = Suc (Suc 0)" "202 = Suc (Suc 200)" by simp_all
  then obtain r where run: "runs ?p late_run r" using late_run_runs by metis
  have s: "s32 (1000 + 1000) < 10 * (int 202 - 1)" by (simp add: s32_id)
  have "(0 :: nat) < 202" by simp
  from run_ends_in_time [OF late_run_ok this s run] run late_run_ok show ?thesis by blast
qed

lemma settles_Compile:
  assumes "s32 (compile_real_limit cfg * 1000) < 50 * (int k - 1)" "0 < k"
  shows "settles (os_ok n) (Compile cfg n k temp_dir i src)"
proof -
  have f: "settles (os_ok n) (FormatSystemError e m)" for e m by (rule settles_Format)
  have c: "settles (os_ok n) (process_cleanup n p)" for p by (rule settles_os) (rule settles_cleanup)
  have r: "settles (os_ok n) (compile_result x l r st)" for x l r st
    by (rule never_stops_settles) (auto simp: compile_result_def read_log_def)
  have pr: "settles (os_ok n) (compile_prepare cfg d src)" for d
    by (rule never_stops_settles, rule every_mono [OF compile_prepare_flag]) simp_all
  have d: "settles (os_ok n) (directory_cleanup g)" for g
    by (rule never_stops_settles) (simp add: directory_cleanup_def)
  have "settles (os_ok n) (compile_child cfg n k dd r0)" for dd r0
    unfolding compile_child_def
  proof (rule settles_Clone)
    fix a :: answer assume "rv a = -1 \<or> 0 < rv a"
    then have g: "rv a \<noteq> -1 \<Longrightarrow> 0 < guard_pid (process_guard (rv a))" by (auto simp: process_guard_def)
    show "settles (os_ok n) (if rv a = -1 then
         pbind (FormatSystemError (er a) msg_clone_compile) (\<lambda>m. Done (r0\<lparr>comp_error_message := m\<rparr>, False))
       else Call Clock_Now (\<lambda>start.
         pbind (compile_wait n k (rv start) (s32 (compile_real_limit cfg * 1000)) (process_guard (rv a)))
           (\<lambda>(w, p).
         pbind (case w of
             Inl m \<Rightarrow> Done (r0\<lparr>comp_error_message := m\<rparr>, False)
           | Inr st \<Rightarrow> compile_result (path_join dd ''main'') (path_join dd ''compile_error.log'') r0 st)
           (\<lambda>res.
         pbind (process_cleanup n p) (\<lambda>_. Done res)))))"
      by (auto intro!: os.settles_pbind f c r settles_compile_wait [OF g assms] split: sum.split prod.split)
  qed
  then show ?thesis
    unfolding Compile_def compile_guarded_def Let_def
    by (auto intro!: os.settles_pbind pr d split: sum.split prod.split)
qed

text \<open>
  C10. \<open>Compile\<close> ends: under the same assumptions, one poll for every 50 milliseconds of the
  configured limit and two more are enough for it to return a result; it never throws.
\<close>

theorem compile_ends_in_time:
  assumes "os_ok n tr" "0 < k" "s32 (compile_real_limit cfg * 1000) < 50 * (int k - 1)"
    and "runs (Compile cfg n k temp_dir i src) tr r"
  shows "\<exists>res. r = Ret res"
proof (cases r)
  case (Stopped s)
  have "every (\<lambda>_. True) (\<lambda>s. s = Looping) (\<lambda>_. True) (compile_guarded cfg n k d r0)"
    if "success r0 = False" for d r0
    unfolding compile_guarded_def Let_def
    by (rule every_unit_pbind, rule every_mono [OF compile_child_flag [OF that]])
      (auto simp: directory_cleanup_def intro!: every_unit_pbind)
  then have "every (\<lambda>_. True) (\<lambda>s. s = Looping) (\<lambda>_. True) (Compile cfg n k temp_dir i src)"
    unfolding Compile_def Let_def every_pbind
    by (auto intro!: every_mono [OF compile_prepare_flag] simp: every_pbind split: sum.split)
  then have "s = Looping" using every_stops assms(4) Stopped by blast
  moreover have "s = Threw Filesystem_Error"
    using settlesD [OF settles_Compile [OF assms(3,2)] _ assms(1)] assms(4) Stopped by blast
  ultimately show ?thesis by simp
qed simp

text \<open>
  A compilation that succeeds at the third look: one poll is interrupted, two find the compiler running,
  with a nap after each, and the next one finds it ended with exit code 0.
\<close>

definition slow_compile :: "event list" where
  "slow_compile =
     [(Fs_Create_Directories ''/w/a'', ans 1), (Ofs_Open ''/w/a/main.cpp'', ans 1),
      (Ofs_Put ''/w/a/main.cpp'' ''x'', ans 1), (Ofs_Close ''/w/a/main.cpp'', ans 0),
      (Chown ''/w/a'' (run_uid sample_config) (run_gid sample_config), ans 0), (Fs_Permissions ''/w/a'' 448, ans 0),
      (Clone (Compile_Child (compile_args ''/w/a'')) clone_flags, ans 7), (Clock_Now, ans 0),
      (Waitpid 7 WNOHANG, (ans (-1))\<lparr>er := EINTR\<rparr>), (Waitpid 7 WNOHANG, ans 0),
      (Clock_Now, ans 1000000), (Sleep_Ms 50, ans 0),
      (Waitpid 7 WNOHANG, ans 0), (Clock_Now, ans 60000000), (Sleep_Ms 50, ans 0),
      (Waitpid 7 WNOHANG, ans 7)]"

lemma slow_compile_ok: "os_ok 2 slow_compile"
  by (simp add: os_ok_def slow_compile_def interruptions_def clones_ok_def)

lemma slow_compile_runs:
  "\<exists>res. runs (Compile sample_config (Suc (Suc n)) (Suc (Suc (Suc k))) ''/w'' ''a'' ''x'') slow_compile (Ret res) \<and> success res"
proof -
  have v: "IsValidRequestId ''a''" by (simp add: IsValidRequestId_def isalnum_def isdigit_def byte_of_def)
  have j: "request_dir_of ''/w'' ''a'' = ''/w/a''" "path_join ''/w/a'' ''main.cpp'' = ''/w/a/main.cpp''"
    by (simp_all add: request_dir_of_def path_join_def)
  have l: "s32 (compile_real_limit sample_config * 1000) = 15000" by (simp add: sample_config_def s32_id)
  show ?thesis
    by (simp add: slow_compile_def Compile_def compile_prepare_def write_source_def compile_guarded_def compile_child_def
        v j l Let_def wait_nonblock_def guard_wait_def process_guard_def elapsed_ms_def c_div_def compile_result_def
        WIFEXITED_def WEXITSTATUS_def process_cleanup_def release_def directory_cleanup_def commit_def)
qed

theorem compile_ends_in_time_witness:
  "\<exists>r. runs (Compile sample_config 2 302 ''/w'' ''a'' ''x'') slow_compile r \<and> os_ok 2 slow_compile \<and> (\<exists>res. r = Ret res)"
proof -
  have "2 = Suc (Suc 0)" "302 = Suc (Suc (Suc 299))" by simp_all
  then obtain r where run: "runs (Compile sample_config 2 302 ''/w'' ''a'' ''x'') slow_compile r"
    using slow_compile_runs by metis
  have s: "s32 (compile_real_limit sample_config * 1000) < 50 * (int 302 - 1)"
    by (simp add: sample_config_def s32_id)
  have "(0 :: nat) < 302" by simp
  from compile_ends_in_time [OF slow_compile_ok this s run] run slow_compile_ok show ?thesis by blast
qed

end
