(* ===== verification/Sandbox_Resources.thy ===== *)
theory Sandbox_Resources
  imports Sandbox_Termination "HOL-Library.Multiset"
begin

text \<open>
  What \<^verbatim>\<open>Sandbox::Run\<close> owes the system: every descriptor it opens is closed, the child it clones is
  reaped, and the cgroup layer is set up in full and on one directory.
\<close>

subsection \<open>The calls of the parent\<close>

definition parent_call :: "call \<Rightarrow> bool" where
  "parent_call c \<longleftrightarrow>
     (case c of
        Clone ch f \<Rightarrow> True | Strerror e \<Rightarrow> True | Strsignal s \<Rightarrow> True | Statfs p \<Rightarrow> True | Stat p \<Rightarrow> True
      | Clock_Now \<Rightarrow> True | Wait4 pid f \<Rightarrow> True | Waitpid pid f \<Rightarrow> True | Kill pid s \<Rightarrow> 0 < pid \<and> s = SIGKILL
      | Sleep_Ms t \<Rightarrow> True | Usleep t \<Rightarrow> True
      | _ \<Rightarrow> call_path c \<noteq> None)"

lemma parent_call_simps [simp]:
  "parent_call (Clone ch f)" "parent_call (Strerror e)" "parent_call (Strsignal s)" "parent_call (Statfs p)"
  "parent_call Clock_Now" "parent_call (Wait4 pid fg)" "parent_call (Waitpid pid fg)"
  "parent_call (Kill pid s) \<longleftrightarrow> 0 < pid \<and> s = SIGKILL" "parent_call (Sleep_Ms t)"
  "parent_call (Fs_Exists p)" "parent_call (Fs_File_Size p)" "parent_call (Read_File p)"
  by (simp_all add: parent_call_def)

lemma manager_parent: "manager_call P c \<Longrightarrow> parent_call c"
  by (auto simp: manager_call_def parent_call_def split: option.splits call.splits)

abbreviation parental :: "'a prog \<Rightarrow> bool" where
  "parental \<equiv> every parent_call (\<lambda>_. True) (\<lambda>_. True)"

text \<open>Parts that also always return.\<close>

abbreviation steady :: "'a prog \<Rightarrow> bool" where
  "steady \<equiv> every parent_call (\<lambda>_. False) (\<lambda>_. True)"

lemma manages_steady: "manages P p \<Longrightarrow> steady p"
  by (erule every_mono) (auto dest: manager_parent)

lemma steady_every: "steady p \<Longrightarrow> every parent_call E (\<lambda>_. True) p"
  by (erule every_mono) simp_all

lemma steady_setters:
  "steady (SetMemoryLimit m b sw)" "steady (SetPidsLimit m j)" "steady (SetCPULimit m c)"
  "steady (SetIOLimit m r w t)" "steady (AddProcess m pid)" "steady (GetMemoryPeak m)"
  by (rule manages_steady [where P = "\<lambda>_. True"], intro manages_setters manages_peak TrueI)+

lemma steady_dtor: "steady (cgroup_dtor m)"
proof -
  have "steady (cgroup_Destroy m)"
    by (rule manages_steady [where P = "\<lambda>_. True"], intro manages_destroy TrueI)
  then show ?thesis unfolding cgroup_dtor_def by (auto intro!: every_unit_pbind)
qed

lemma steady_limits: "steady (apply_cgroup_limits cfg m ml pid)"
  unfolding apply_cgroup_limits_def Let_def
  by (intro every_block) (auto intro!: every_unit_pbind steady_setters)

lemma parental_setup: "parental (setup_cgroup cfg ml pid)"
proof -
  have mnt: "parental (first_cgroup2_root mnts)" for mnts
    by (induction mnts) (auto simp: fs_exists_throwing_def)
  have "steady (cgroup_Create m)" for m
    by (rule manages_steady [where P = "\<lambda>_. True"], intro manages_create TrueI)
  then have att: "steady (pbind (cgroup_Create m') (\<lambda>(made, m).
            if made then pbind (apply_cgroup_limits cfg m ml pid) (\<lambda>_. Done (Some m, True))
            else Done (Some m, False)))" for m'
    by (intro every_unit_pbind) (auto intro!: every_unit_pbind steady_limits)
  show ?thesis
    unfolding setup_cgroup_def GetCgroup2MountRoot_def
    by (rule every_unit_pbind [OF mnt], rule if_split [THEN iffD2])
      (intro conjI impI every_pcatch steady_every [OF att], simp)
qed

lemma parental_wait:
  "parental (guard_wait n (\<lambda>pid. Wait4 pid fg) p)" "parental (guard_wait n (\<lambda>pid. Waitpid pid fg) p)"
  "parental (guard_kill p)" "parental (process_cleanup n p)"
  by (auto intro: every_guard_wait every_guard_kill every_process_cleanup)

lemma parental_watch: "parental (watch n k start tlim ml p)"
proof (induction k)
  case (Suc k)
  have leave: "parental (pbind (guard_kill p) (\<lambda>_. pbind (wait_rusage n p) f))"
    if "\<And>v. parental (f v)" for f :: "answer \<Rightarrow> ((RunResult + int \<times> rusage) \<times> ProcessGuard) prog"
    unfolding wait_rusage_def by (intro every_unit_pbind parental_wait that)
  show ?case
    unfolding watch.simps wait_nonblock_rusage_def Let_def
    by (rule every_unit_pbind [OF parental_wait(1)]) (simp add: Suc leave every_pbind [of _ _ _ "FormatSystemError _ _"])
qed simp

lemma parental_finish: "parental (finish_run cfg cg enabled outp errp tlim ml st ru)"
proof -
  have "parental (classify_status r marker st tlim ml)" for r marker
    by (simp add: classify_status_def classify_signal_def runtime_error_signal_def Let_def)
  then show ?thesis
    unfolding finish_run_def measured_memory_def output_limit_hit_def ReadRunExecFailureMarker_def
    by (auto simp: Let_def intro!: every_unit_pbind steady_setters(6) [THEN steady_every] split: option.split)
qed

lemma parental_run_cloned: "parental (run_cloned cfg n k args outp errp tlim ml)"
proof -
  have drop: "parental (drop_cgroup cg)" for cg
    by (cases cg) (simp_all add: drop_cgroup_def steady_every [OF steady_dtor])
  have catch: "parental (pcatch (setup_cgroup cfg ml pid) (\<lambda>e. pbind (process_cleanup n p) (\<lambda>_. Stop (Threw e))))"
    for pid p
    by (rule every_pcatch, rule every_mono [OF parental_setup])
      (auto intro!: every_unit_pbind parental_wait split: stop.split)
  have "parental (run_parent cfg n k outp errp tlim ml pid)" for pid
    unfolding run_parent_def Let_def
    by (auto intro!: every_unit_pbind catch parental_watch parental_finish drop parental_wait
        split: sum.split prod.split)
  then show ?thesis unfolding run_cloned_def by (auto intro!: every_unit_pbind)
qed

subsection \<open>Descriptors\<close>

text \<open>The descriptors a trace obtains, and those it closes.\<close>

definition obtained :: "event list \<Rightarrow> int multiset" where
  "obtained tr = mset (map (\<lambda>e. rv (snd e))
     (filter (\<lambda>e. ((\<exists>p f m. fst e = Open p f m) \<or> (\<exists>d. fst e = Dup d)) \<and> 0 \<le> rv (snd e)) tr))"

definition closed :: "event list \<Rightarrow> int multiset" where
  "closed tr = mset (concat (map (\<lambda>e. case fst e of Close d \<Rightarrow> [d] | _ \<Rightarrow> []) tr))"

lemma obtained_simps [simp]:
  "obtained [] = {#}" "obtained (t @ u) = obtained t + obtained u"
  by (simp_all add: obtained_def)

lemma closed_simps [simp]: "closed [] = {#}" "closed (t @ u) = closed t + closed u"
  by (simp_all add: closed_def)

definition fd_call :: "call \<Rightarrow> bool" where
  "fd_call c \<longleftrightarrow> (case c of Open p f m \<Rightarrow> True | Dup d \<Rightarrow> True | Close d \<Rightarrow> True | _ \<Rightarrow> False)"

lemma parent_no_fd: "parent_call c \<Longrightarrow> \<not> fd_call c"
  by (auto simp: parent_call_def fd_call_def split: call.splits)

lemma no_fd_calls: "\<forall>e \<in> set tr. \<not> fd_call (fst e) \<Longrightarrow> obtained tr = {#} \<and> closed tr = {#}"
  by (induction tr) (auto simp: obtained_def closed_def fd_call_def split: call.split)

text \<open>A program that closes what it obtains, however it ends.\<close>

definition balanced :: "'a prog \<Rightarrow> bool" where
  "balanced p \<longleftrightarrow> (\<forall>tr r. runs p tr r \<longrightarrow> \<not> no_unwind r \<longrightarrow> obtained tr = closed tr)"

lemma balanced_parental: "parental p \<Longrightarrow> balanced p"
  unfolding balanced_def using every_calls parent_no_fd no_fd_calls by metis

lemma runs_auto_close:
  "runs (auto_close fd) t r \<Longrightarrow> r = Ret () \<and> obtained t = {#} \<and> closed t = (if 0 \<le> fd then {#fd#} else {#})"
  by (auto simp: auto_close_def emit_def runs_Call_iff obtained_def closed_def split: if_splits)

text \<open>A program that yields one new descriptor, or a negative number.\<close>

definition yields_fd :: "int prog \<Rightarrow> bool" where
  "yields_fd p \<longleftrightarrow>
     (\<forall>tr r. runs p tr r \<longrightarrow>
        (\<exists>fd. r = Ret fd \<and> closed tr = {#} \<and> obtained tr = (if 0 \<le> fd then {#fd#} else {#})))"

lemma yields_open_or_null: "yields_fd (open_or_null path fg md nul)"
proof -
  have s: "obtained (e # tr) = obtained [e] + obtained tr" "closed (e # tr) = closed [e] + closed tr"
    for e tr by (simp_all add: obtained_def closed_def)
  show ?thesis
    unfolding yields_fd_def open_or_null_def
    by (cases "path = []")
      (auto simp: runs_Call_iff obtained_def closed_def split: if_splits)
qed

lemma balanced_with_fd:
  assumes "yields_fd get" "\<And>fd. balanced (f fd)" shows "balanced (with_fd get f)"
  unfolding balanced_def
proof (intro allI impI)
  fix tr r assume run: "runs (with_fd get f) tr r" and nu: "\<not> no_unwind r"
  from run assms(1) obtain fd t u where t: "obtained t = (if 0 \<le> fd then {#fd#} else {#})" "closed t = {#}"
    and u: "runs (pfinally (f fd) (auto_close fd)) u r" and tr: "tr = t @ u"
    unfolding with_fd_def runs_pbind_iff yields_fd_def by blast
  from runs_pfinally [OF u] nu obtain r0 u1 u2 where
    u1: "runs (f fd) u1 r0" and u2: "scope_end (auto_close fd) r0 u2 r" "u = u1 @ u2" by blast
  from u2(1) have e: "r = r0" "closed u2 = (if 0 \<le> fd then {#fd#} else {#})" "obtained u2 = {#}"
    by (auto simp: scope_end_def dest!: runs_auto_close)
  from assms(2) u1 nu e(1) have "obtained u1 = closed u1" unfolding balanced_def by blast
  then show "obtained tr = closed tr" using t e u2(2) tr by simp
qed

text \<open>
  C21. \<open>Run\<close> leaks no descriptor: when it returns or throws, the descriptors it obtained by opening files
  or duplicating \<^verbatim>\<open>/dev/null\<close> are exactly, with multiplicity, the ones it closed, whichever of
  the files could be opened and however the run went.
\<close>

theorem run_closes_descriptors:
  assumes "runs (Run cfg n k exe inp outp errp tlim ml) tr r" "\<nexists>s. r = Stopped s \<and> (\<forall>e. s \<noteq> Threw e)"
  shows "obtained tr = closed tr"
proof -
  have fmt: "runs (FormatSystemError e m) t x \<Longrightarrow> obtained t = {#} \<and> closed t = {#}" for e m t x
    by (auto simp: FormatSystemError_def runs_Call_iff obtained_def closed_def)
  have nu: "\<not> no_unwind r" using assms(2) by (simp add: no_unwind_def)
  from assms(1) obtain a t where tr: "tr = (Open ''/dev/null'' 2 0, a) # t"
    and t: "runs (if rv a < 0 then
         pbind (FormatSystemError (er a) ''open /dev/null'') (\<lambda>m. Done (system_error ''open_dev_null_failed'' m))
       else
         with_fd (Done (rv a)) (\<lambda>nul.
         with_fd (open_or_null inp 0 0 nul) (\<lambda>ifd.
         with_fd (open_or_null outp 577 420 nul) (\<lambda>ofd.
         with_fd (open_or_null errp 577 420 nul) (\<lambda>efd.
           run_cloned cfg n k (run_child_args cfg exe tlim ml ifd ofd efd)
             (output_path_of exe outp) errp tlim ml))))) t r"
    unfolding Run_def runs_Call_iff by blast
  let ?body = "\<lambda>nul. with_fd (open_or_null inp 0 0 nul) (\<lambda>ifd.
         with_fd (open_or_null outp 577 420 nul) (\<lambda>ofd.
         with_fd (open_or_null errp 577 420 nul) (\<lambda>efd.
           run_cloned cfg n k (run_child_args cfg exe tlim ml ifd ofd efd)
             (output_path_of exe outp) errp tlim ml)))"
  have head: "obtained tr = (if 0 \<le> rv a then {#rv a#} else {#}) + obtained t" "closed tr = closed t"
    by (simp_all add: tr obtained_def closed_def)
  show ?thesis
  proof (cases "rv a < 0")
    case True
    with t head show ?thesis by (auto simp: runs_pbind_iff dest!: fmt)
  next
    case False
    have "balanced (?body nul)" for nul
      by (intro balanced_with_fd yields_open_or_null balanced_parental parental_run_cloned)
    moreover from False t have "runs (pfinally (?body (rv a)) (auto_close (rv a))) t r"
      by (simp add: with_fd_def)
    ultimately show ?thesis
      using runs_pfinally [of "?body (rv a)" "auto_close (rv a)" t r] nu False head
      by (auto simp: scope_end_def balanced_def dest!: runs_auto_close)
  qed
qed

theorem run_closes_descriptors_witness:
  "\<exists>tr r. runs (Run sample_config 1 1 ''/m'' [] [] [] 1000 65536) tr r \<and> obtained tr = closed tr \<and>
     obtained tr = {#3, 4, 5, 6#}"
proof -
  let ?p = "Run sample_config 1 1 ''/m'' [] [] [] 1000 65536"
  obtain args where run: "runs ?p
      [(Open ''/dev/null'' 2 0, ans 3), (Dup 3, ans 4), (Dup 3, ans 5), (Dup 3, ans 6),
       (Clone (Run_Child args) clone_flags, (ans (-1))\<lparr>er := 11\<rparr>), (Strerror 11, ans 0),
       (Close 6, ans 0), (Close 5, ans 0), (Close 4, ans 0), (Close 3, ans 0)]
      (Ret (system_error ''clone_failed'' ''clone failed: ''))"
    by (simp add: Run_def with_fd_def open_or_null_def run_cloned_def FormatSystemError_def auto_close_def
        emit_def text_of_def)
  show ?thesis using run run_closes_descriptors [OF run] by (fastforce simp: obtained_def closed_def)
qed

subsection \<open>The child\<close>

lemma runs_pcatch_Threw:
  "runs (pcatch p h) tr (Stopped (Threw e)) \<Longrightarrow>
   \<exists>e' t1 t2. runs p t1 (Stopped (Threw e')) \<and> runs (h e') t2 (Stopped (Threw e)) \<and> tr = t1 @ t2"
  by (drule runs_pcatch) auto

text \<open>
  How a child can be over for its parent: a poll answered with its end; it was killed and a wait without
  a time limit came back afterwards; or the kernel refused to wait for it, because there is no such
  child. An interrupted wait does not count, nor one that answers "still running", nor a wait without
  a limit that no kill came before.
\<close>

definition poll_ended :: "int \<Rightarrow> event \<Rightarrow> bool" where
  "poll_ended pid e \<longleftrightarrow> (fst e = Wait4 pid WNOHANG \<or> fst e = Waitpid pid WNOHANG) \<and> rv (snd e) \<noteq> 0 \<and> rv (snd e) \<noteq> -1"

definition killed_and_waited :: "int \<Rightarrow> event list \<Rightarrow> bool" where
  "killed_and_waited pid tr \<longleftrightarrow>
     (\<exists>t k u c a v. tr = t @ (Kill pid SIGKILL, k) # u @ (c, a) # v \<and>
        (c = Wait4 pid 0 \<or> c = Waitpid pid 0) \<and> answered a)"

definition wait_refused :: "int \<Rightarrow> event \<Rightarrow> bool" where
  "wait_refused pid e \<longleftrightarrow> fst e = Waitpid pid WNOHANG \<and> rv (snd e) = -1 \<and> er (snd e) \<noteq> EINTR"

definition child_over :: "int \<Rightarrow> event list \<Rightarrow> bool" where
  "child_over pid tr \<longleftrightarrow>
     (\<exists>e \<in> set tr. poll_ended pid e) \<or> killed_and_waited pid tr \<or> (\<exists>e \<in> set tr. wait_refused pid e)"

lemma child_over_mono:
  assumes "child_over pid u" shows "child_over pid (t @ u @ v)"
proof -
  have "killed_and_waited pid (t @ u @ v)" if "killed_and_waited pid u"
  proof -
    from that obtain a k b c x d where "u = a @ (Kill pid SIGKILL, k) # b @ (c, x) # d"
      and c: "c = Wait4 pid 0 \<or> c = Waitpid pid 0" "answered x"
      unfolding killed_and_waited_def by blast
    then have "t @ u @ v = (t @ a) @ (Kill pid SIGKILL, k) # b @ (c, x) # (d @ v)" by simp
    with c show ?thesis unfolding killed_and_waited_def by blast
  qed
  with assms show ?thesis by (auto simp: child_over_def)
qed

lemma child_over_append: "child_over pid t \<Longrightarrow> child_over pid (t @ u)" "child_over pid u \<Longrightarrow> child_over pid (t @ u)"
  using child_over_mono [of pid t "[]" u] child_over_mono [of pid u t "[]"] by simp_all

lemma child_over_Cons: "child_over pid u \<Longrightarrow> child_over pid (e # u)"
  using child_over_append(2) [of pid u "[e]"] by simp

lemma guard_wait_event:
  assumes "0 < guard_pid p" "runs (guard_wait n c p) tr (Ret w)"
  shows "(c (guard_pid p), w) \<in> set tr \<and> answered w"
  using assms retry_eintr_returns [of n "c (guard_pid p)" tr w] by (auto simp: guard_wait_def)

lemma kill_wait_settles:
  assumes "0 < guard_pid p" "runs (pbind (guard_kill p) (\<lambda>_. pbind (wait_rusage n p) f)) tr (Ret x)"
  shows "child_over (guard_pid p) tr"
proof -
  from assms obtain k w t2 t3 where w: "runs (guard_wait n (\<lambda>pid. Wait4 pid 0) p) t2 (Ret w)"
    and tr: "tr = (Kill (guard_pid p) SIGKILL, k) # t2 @ t3"
    by (auto simp: guard_kill_def wait_rusage_def runs_Call_iff elim!: runs_pbind_RetE)
  from retry_eintr_returns [of n "Wait4 (guard_pid p) 0" t2 w] w assms(1) obtain t
    where "t2 = t @ [(Wait4 (guard_pid p) 0, w)]" and "answered w" by (auto simp: guard_wait_def)
  with tr have "tr = [] @ (Kill (guard_pid p) SIGKILL, k) # t @ (Wait4 (guard_pid p) 0, w) # t3" "answered w"
    by simp_all
  then show ?thesis unfolding child_over_def killed_and_waited_def by blast
qed

lemma cleanup_settles:
  assumes "process_owns p" "runs (process_cleanup n p) tr (Ret ())"
  shows "child_over (guard_pid p) tr"
proof -
  let ?p = "guard_pid p"
  from process_cleanup_returns [OF assms] obtain t w u where a: "answered w" and tr: "tr = t @ (Waitpid ?p WNOHANG, w) # u"
    and u: "if rv w = 0
     then \<exists>ka v r. interrupted (Waitpid ?p 0) v \<and> answered r \<and> u = (Kill ?p SIGKILL, ka) # v @ [(Waitpid ?p 0, r)]
     else u = []" by blast
  consider "rv w = 0" | "rv w = -1" | "rv w \<noteq> 0" "rv w \<noteq> -1" by blast
  then show ?thesis
  proof cases
    case 1
    with u obtain ka v r where "answered r" "u = [] @ (Kill ?p SIGKILL, ka) # v @ (Waitpid ?p 0, r) # []" by auto
    then have "killed_and_waited ?p u" unfolding killed_and_waited_def by blast
    then show ?thesis unfolding tr by (intro child_over_append(2) child_over_Cons) (simp add: child_over_def)
  qed (use a tr in \<open>auto simp: child_over_def poll_ended_def wait_refused_def\<close>)
qed

lemma watch_settles:
  assumes "0 < guard_pid p" "runs (watch n k start tlim ml p) tr (Ret (w, q))"
  shows "child_over (guard_pid p) tr \<or> q = p \<and> (\<exists>r. w = Inl r)"
  using assms(2)
proof (induction k arbitrary: tr)
  case (Suc k)
  from Suc.prems obtain a t1 t2 where w: "runs (guard_wait n (\<lambda>pid. Wait4 pid WNOHANG) p) t1 (Ret a)"
    and tr: "tr = t1 @ t2"
    and rest: "runs (if rv a = -1 then
         (if er a = EINTR then watch n k start tlim ml p
          else pbind (FormatSystemError (er a) ''wait4 failed'') (\<lambda>m.
            Done (Inl (system_error ''waitpid_failed'' m), p)))
       else if rv a \<noteq> 0 then Done (Inr (out a, usage a), release p)
       else if ml < ru_maxrss (usage a) then
         pbind (guard_kill p) (\<lambda>_.
         pbind (wait_rusage n p) (\<lambda>v.
         Call Clock_Now (\<lambda>now.
           Done (Inl (init_run_result\<lparr>status := MEMORY_LIMIT_EXCEEDED,
             time_used := s32 (elapsed_ms start (rv now)), memory_used := ru_maxrss (usage v),
             exit_signal := SIGKILL\<rparr>), release p))))
       else Call Clock_Now (\<lambda>now.
         let elapsed = s32 (elapsed_ms start (rv now)) in
         if s32 (tlim + 1000) < elapsed then
           pbind (guard_kill p) (\<lambda>_.
           pbind (wait_rusage n p) (\<lambda>v.
             Done (Inl (init_run_result\<lparr>status := TIME_LIMIT_EXCEEDED, time_used := elapsed,
               memory_used := ru_maxrss (usage v), exit_signal := SIGKILL\<rparr>), release p)))
         else Call (Sleep_Ms (poll_nap ml (ru_maxrss (usage a)))) (\<lambda>_. watch n k start tlim ml p))) t2 (Ret (w, q))"
    unfolding watch.simps wait_nonblock_rusage_def by (rule runs_pbind_RetE)
  have e: "(Wait4 (guard_pid p) WNOHANG, a) \<in> set t1" "answered a"
    using guard_wait_event [OF assms(1) w] by blast+
  consider (err) "rv a = -1" | (gone) "rv a \<noteq> 0" "rv a \<noteq> -1" | (runs) "rv a = 0" by blast
  then show ?case
  proof cases
    case err
    with e(2) rest show ?thesis by (auto elim!: runs_pbind_RetE)
  next
    case gone
    then have "poll_ended (guard_pid p) (Wait4 (guard_pid p) WNOHANG, a)" by (simp add: poll_ended_def)
    with e(1) have "child_over (guard_pid p) t1" unfolding child_over_def by blast
    then show ?thesis unfolding tr by (simp add: child_over_append)
  next
    case runs
    have "child_over (guard_pid p) t2 \<or> q = p \<and> (\<exists>r. w = Inl r)"
    proof (cases "ml < ru_maxrss (usage a)")
      case True
      with runs rest show ?thesis by (auto dest!: kill_wait_settles [OF assms(1)])
    next
      case False
      with runs rest show ?thesis
        by (auto simp: runs_Call_iff Let_def intro: child_over_Cons split: if_splits
            dest!: kill_wait_settles [OF assms(1)] Suc.IH)
    qed
    then show ?thesis unfolding tr by (auto intro: child_over_append)
  qed
qed simp

lemma watch_ends: "every (\<lambda>_. True) (\<lambda>s. s = Looping) (\<lambda>_. True) (watch n k start tlim ml p)"
proof (induction k)
  case (Suc k)
  have wait: "every (\<lambda>_. True) (\<lambda>s. s = Looping) (\<lambda>_. True) (guard_wait n c p)" for c
    by (rule every_guard_wait) simp_all
  have leave: "every (\<lambda>_. True) (\<lambda>s. s = Looping) (\<lambda>_. True) (pbind (guard_kill p) (\<lambda>_. pbind (wait_rusage n p) f))"
    if "\<And>v. every (\<lambda>_. True) (\<lambda>s. s = Looping) (\<lambda>_. True) (f v)"
    for f :: "answer \<Rightarrow> ((RunResult + int \<times> rusage) \<times> ProcessGuard) prog"
    unfolding wait_rusage_def by (intro every_unit_pbind every_guard_kill wait that TrueI)
  show ?case
    unfolding watch.simps wait_nonblock_rusage_def Let_def
    by (rule every_unit_pbind [OF wait])
      (simp add: Suc leave every_pbind [of _ _ _ "FormatSystemError _ _"])
qed simp

lemma failed_setup_settles:
  fixes q :: "'a prog"
  assumes "process_owns p" and "runs (pcatch q (\<lambda>e. pbind (process_cleanup n p) (\<lambda>_. Stop (Threw e)))) tr
    (Stopped (Threw e))"
  shows "child_over (guard_pid p) tr"
proof -
  from runs_pcatch_Threw [OF assms(2)] obtain e' t1 t2 where
    u: "runs (pbind (process_cleanup n p) (\<lambda>_. Stop (Threw e'))) t2 (Stopped (Threw e) :: 'a outcome)" "tr = t1 @ t2"
    by blast
  have calm: "every (\<lambda>_. True) (\<lambda>s. \<forall>e. s \<noteq> Threw e) (\<lambda>_. True) (process_cleanup n p)"
    by (rule every_process_cleanup) simp_all
  from u(1) have "runs (process_cleanup n p) t2 (Ret ()) \<or> runs (process_cleanup n p) t2 (Stopped (Threw e))"
    by (auto simp: runs_pbind_iff)
  then have "runs (process_cleanup n p) t2 (Ret ())" using every_stops [OF _ calm] by blast
  from cleanup_settles [OF assms(1) this] show ?thesis unfolding u(2) by (rule child_over_append)
qed

lemma drop_cgroup_steady: "steady (drop_cgroup cg)"
  by (cases cg) (simp_all add: drop_cgroup_def steady_dtor)

text \<open>The scope that ends the run: the guard still owns its child only after a failed poll.\<close>

lemma scope_end_settles:
  assumes "process_owns p"
    and "runs (pbind (drop_cgroup cg) (\<lambda>_. pbind (process_cleanup n p) (\<lambda>_. Done r0))) tr r"
    and "\<nexists>s. r = Stopped s \<and> (\<forall>e. s \<noteq> Threw e)"
  shows "child_over (guard_pid p) tr"
proof -
  from assms(2) every_stops [OF _ drop_cgroup_steady] obtain t u where
    u: "runs (pbind (process_cleanup n p) (\<lambda>_. Done r0)) u r" and tr: "tr = t @ u"
    unfolding runs_pbind_iff [of "drop_cgroup cg"] by blast
  have "every (\<lambda>_. True) (\<lambda>s. \<forall>e. s \<noteq> Threw e) (\<lambda>_. True) (process_cleanup n p)"
    by (rule every_process_cleanup) simp_all
  then have "\<not> runs (process_cleanup n p) u (Stopped s)" if "r = Stopped s" for s
    using every_stops assms(3) that by blast
  with u have "runs (process_cleanup n p) u (Ret ())" by (auto simp: runs_pbind_iff)
  from cleanup_settles [OF assms(1) this] show ?thesis unfolding tr by (rule child_over_append)
qed

text \<open>
  C20. No child survives \<open>Run\<close>. Once a child has been cloned, a run that returns or throws has either
  seen a poll report the end of this very child, or killed it with \<^verbatim>\<open>SIGKILL\<close> and afterwards waited for
  it without a time limit, or polled it in the clean-up of the guard and been told by the kernel that
  there is no such child to wait for. A failed or interrupted wait elsewhere is not enough: the guard
  then still owns the child and cleans up.
\<close>

theorem run_reaps_child:
  assumes "0 < pid" "runs (run_parent cfg n k outp errp tlim ml pid) tr r"
    and "\<nexists>s. r = Stopped s \<and> (\<forall>e. s \<noteq> Threw e)"
  shows "(\<exists>e \<in> set tr. (fst e = Wait4 pid WNOHANG \<or> fst e = Waitpid pid WNOHANG) \<and> rv (snd e) \<noteq> 0 \<and> rv (snd e) \<noteq> -1) \<or>
    (\<exists>t ka u c a v. tr = t @ (Kill pid SIGKILL, ka) # u @ (c, a) # v \<and> (c = Wait4 pid 0 \<or> c = Waitpid pid 0) \<and>
       \<not> (rv a = -1 \<and> er a = EINTR)) \<or>
    (\<exists>a. (Waitpid pid WNOHANG, a) \<in> set tr \<and> rv a = -1 \<and> er a \<noteq> EINTR)"
proof -
  let ?p = "process_guard pid"
  have p: "0 < guard_pid ?p" "guard_pid ?p = pid" "process_owns ?p"
    using assms(1) by (simp_all add: process_guard_def process_owns_def)
  let ?h = "\<lambda>e. pbind (process_cleanup n ?p) (\<lambda>_. Stop (Threw e)) :: (CgroupManager option \<times> bool) prog"
  let ?first = "pcatch (setup_cgroup cfg ml pid) ?h"
  from assms(2) [unfolded run_parent_def Let_def runs_pbind_iff [of ?first]] consider
      (stop) s where "r = Stopped s" "runs ?first tr (Stopped s)"
    | (go) cg en t1 t2 where "tr = t1 @ t2" "runs (Call Clock_Now (\<lambda>start.
      pbind (watch n k (rv start) tlim ml ?p) (\<lambda>(w, p).
      pbind (case w of
          Inl r \<Rightarrow> Done r
        | Inr (st, ru) \<Rightarrow> finish_run cfg cg en outp errp tlim ml st ru) (\<lambda>r.
      pbind (drop_cgroup cg) (\<lambda>_.
      pbind (process_cleanup n p) (\<lambda>_. Done r)))))) t2 r"
    by auto
  then have "child_over pid tr"
  proof cases
    case stop
    from assms(3) stop(1) obtain e where s: "s = Threw e" by blast
    from failed_setup_settles [OF p(3) stop(2) [unfolded s]] p(2) show ?thesis by simp
  next
    case go
    then obtain a t3 where t2: "t2 = (Clock_Now, a) # t3" and t3: "runs (
      pbind (watch n k (rv a) tlim ml ?p) (\<lambda>(w, p).
      pbind (case w of
          Inl r \<Rightarrow> Done r
        | Inr (st, ru) \<Rightarrow> finish_run cfg cg en outp errp tlim ml st ru) (\<lambda>r.
      pbind (drop_cgroup cg) (\<lambda>_.
      pbind (process_cleanup n p) (\<lambda>_. Done r))))) t3 r"
      unfolding runs_Call_iff by blast
    have watch_calm: "every (\<lambda>_. True) (\<lambda>s. s = Looping) (\<lambda>_. True) (watch n k (rv a) tlim ml ?p)"
      by (rule watch_ends)
    from t3 [unfolded runs_pbind_iff [of "watch n k (rv a) tlim ml ?p"]] consider
        (w) s where "r = Stopped s" "runs (watch n k (rv a) tlim ml ?p) t3 (Stopped s)"
      | (r) w q u1 u2 where "runs (watch n k (rv a) tlim ml ?p) u1 (Ret (w, q))" "t3 = u1 @ u2"
          "runs (pbind (case w of
              Inl r \<Rightarrow> Done r
            | Inr (st, ru) \<Rightarrow> finish_run cfg cg en outp errp tlim ml st ru) (\<lambda>r.
            pbind (drop_cgroup cg) (\<lambda>_.
            pbind (process_cleanup n q) (\<lambda>_. Done r)))) u2 r"
      by auto
    then show ?thesis
    proof cases
      case w
      from every_stops [OF w(2) watch_calm] w(1) assms(3) show ?thesis by auto
    next
      case r
      from watch_settles [OF p(1) r(1)] have "child_over pid u1 \<or> child_over pid u2"
      proof
        assume "q = ?p \<and> (\<exists>r. w = Inl r)"
        with r(3) scope_end_settles [OF p(3) _ assms(3)] p(2) show ?thesis by auto
      qed (simp add: p(2))
      then show ?thesis unfolding go(1) t2 r(2) by (auto intro: child_over_append child_over_Cons)
    qed
  qed
  then show ?thesis
    unfolding child_over_def poll_ended_def killed_and_waited_def wait_refused_def by force
qed

theorem run_reaps_child_witness:
  "\<exists>tr r. runs (run_parent sample_config 1 1 [] [] 1000 65536 7) tr (Ret r) \<and> status r = TIME_LIMIT_EXCEEDED \<and>
     (\<exists>t ka u c a v. tr = t @ (Kill 7 SIGKILL, ka) # u @ (c, a) # v \<and> (c = Wait4 7 0 \<or> c = Waitpid 7 0) \<and>
       \<not> (rv a = -1 \<and> er a = EINTR))"
proof -
  let ?p = "run_parent sample_config 1 1 [] [] 1000 65536 7"
  let ?r = "init_run_result\<lparr>status := TIME_LIMIT_EXCEEDED, time_used := 5000, exit_signal := SIGKILL\<rparr>"
  define tr where "tr =
      [(Statfs ''/sys/fs/cgroup/unified'', ans (-1)), (Statfs ''/sys/fs/cgroup'', ans (-1)),
       (Clock_Now, ans 0), (Wait4 7 WNOHANG, ans 0), (Clock_Now, ans 5000000000),
       (Kill 7 SIGKILL, ans 0), (Wait4 7 0, ans 7)]"
  have run: "runs ?p tr (Ret ?r)"
    by (simp add: tr_def run_parent_def setup_cgroup_def GetCgroup2MountRoot_def process_guard_def wait_nonblock_rusage_def
        guard_wait_def elapsed_ms_def s32_def guard_kill_def wait_rusage_def drop_cgroup_def process_cleanup_def
        release_def ans_def Let_def init_run_result_def c_div_def zero_rusage_def)
  have "\<not> (\<exists>e \<in> set tr. (fst e = Wait4 7 WNOHANG \<or> fst e = Waitpid 7 WNOHANG) \<and> rv (snd e) \<noteq> 0 \<and> rv (snd e) \<noteq> -1)"
    "\<not> (\<exists>a. (Waitpid 7 WNOHANG, a) \<in> set tr \<and> rv a = -1 \<and> er a \<noteq> EINTR)"
    by (simp_all add: tr_def)
  moreover have "(0 :: int) < 7" "\<nexists>s. Ret ?r = Stopped s \<and> (\<forall>e. s \<noteq> Threw e)" by simp_all
  ultimately have "\<exists>t ka u c a v. tr = t @ (Kill 7 SIGKILL, ka) # u @ (c, a) # v \<and>
      (c = Wait4 7 0 \<or> c = Waitpid 7 0) \<and> \<not> (rv a = -1 \<and> er a = EINTR)"
    using run_reaps_child [OF _ run] by blast
  moreover have "status ?r = TIME_LIMIT_EXCEEDED" by simp
  ultimately show ?thesis using run by blast
qed

subsection \<open>The cgroup of a run\<close>

text \<open>
  A trace that tries to write \<open>v\<close> to the control file \<open>p\<close>, and whether the program takes it for done:
  the file cannot be opened, or it is opened, given the value and closed.
\<close>

definition writes :: "string \<Rightarrow> string \<Rightarrow> event list \<Rightarrow> bool \<Rightarrow> bool" where
  "writes p v t good \<longleftrightarrow>
     (\<exists>a b c. if rv a = 0 then t = [(Ofs_Open p, a)] \<and> \<not> good
              else t = [(Ofs_Open p, a), (Ofs_Put p v, b), (Ofs_Close p, c)] \<and> (good \<longleftrightarrow> rv b \<noteq> 0))"

lemma runs_WriteToFile: "runs (WriteToFile p v) t (Ret good) \<Longrightarrow> writes p v t good"
  by (auto simp: WriteToFile_def writes_def runs_Call_iff split: if_splits)

lemma ignored_result: "runs (pbind p (\<lambda>_ :: bool. Done ())) t (Ret ()) \<Longrightarrow> \<exists>b. runs p t (Ret b)"
  by (auto elim!: runs_pbind_RetE)

text \<open>The limits, each with its own file and its own value.\<close>

definition writes_memory :: "string \<Rightarrow> int \<Rightarrow> event list \<Rightarrow> bool" where
  "writes_memory own kb t \<longleftrightarrow>
     (\<exists>good t1 t2. t = t1 @ t2 \<and> writes (own @ ''/memory.max'') (dec_int (kb * 1024 mod 2 ^ 64)) t1 good \<and>
        (if good then (\<exists>g. writes (own @ ''/memory.swap.max'') ''0'' t2 g) else t2 = []))"

definition writes_io :: "string \<Rightarrow> int \<Rightarrow> int \<Rightarrow> string \<Rightarrow> event list \<Rightarrow> bool" where
  "writes_io own r w target t \<longleftrightarrow>
     (if r \<le> 0 \<and> w \<le> 0 then t = []
      else (\<exists>a u g. t = (Stat target, a) # u \<and>
        (if rv a \<noteq> 0 then u = []
         else writes (own @ ''/io.max'')
           (dec_int (uint (dev_major (word_of_int (out a)))) @ '':'' @ dec_int (uint (dev_minor (word_of_int (out a)))) @
            (if 0 < r then '' rbps='' @ dec_int r else []) @ (if 0 < w then '' wbps='' @ dec_int w else [])) u g)))"

lemma limits_written:
  assumes "created m"
  shows "runs (SetPidsLimit m j) t (Ret b) \<Longrightarrow> writes (cgroup_path m @ ''/pids.max'') (dec_int j) t b"
    and "runs (SetMemoryLimit m (word_of_int kb * 1024) True) t (Ret b) \<Longrightarrow> writes_memory (cgroup_path m) kb t"
    and "0 < c \<Longrightarrow> runs (SetCPULimit m c) t (Ret b) \<Longrightarrow>
      writes (cgroup_path m @ ''/cpu.max'') (dec_int (quota_us c) @ '' '' @ dec_int 100000) t b"
    and "runs (SetIOLimit m x y p) t (Ret b) \<Longrightarrow> writes_io (cgroup_path m) x y p t"
    and "runs (AddProcess m pid) t (Ret b) \<Longrightarrow> writes (cgroup_path m @ ''/cgroup.procs'') (dec_int pid) t b"
proof -
  show "runs (SetPidsLimit m j) t (Ret b) \<Longrightarrow> writes (cgroup_path m @ ''/pids.max'') (dec_int j) t b"
    using assms by (simp add: SetPidsLimit_def runs_WriteToFile)
  show "0 < c \<Longrightarrow> runs (SetCPULimit m c) t (Ret b) \<Longrightarrow>
      writes (cgroup_path m @ ''/cpu.max'') (dec_int (quota_us c) @ '' '' @ dec_int 100000) t b"
    using assms runs_WriteToFile by (simp add: SetCPULimit_def)
  show "runs (AddProcess m pid) t (Ret b) \<Longrightarrow> writes (cgroup_path m @ ''/cgroup.procs'') (dec_int pid) t b"
    using assms by (simp add: AddProcess_def runs_WriteToFile)
  show "writes_io (cgroup_path m) x y p t" if run: "runs (SetIOLimit m x y p) t (Ret b)"
  proof (cases "x \<le> 0 \<and> y \<le> 0")
    case True
    with run assms show ?thesis by (simp add: SetIOLimit_def writes_io_def)
  next
    case False
    let ?f = "cgroup_path m @ ''/io.max''"
    from run assms False obtain a u where t: "t = (Stat p, a) # u"
      and u: "runs (if rv a \<noteq> 0 then Done False else WriteToFile ?f (io_max_line (word_of_int (out a)) x y)) u (Ret b)"
      by (auto simp: SetIOLimit_def runs_Call_iff)
    have "if rv a \<noteq> 0 then u = [] else writes ?f (io_max_line (word_of_int (out a)) x y) u b"
      using u runs_WriteToFile by (cases "rv a = 0") simp_all
    then show ?thesis
      unfolding writes_io_def t io_max_line_def if_not_P [OF False] by (intro exI [of _ a] exI [of _ u] exI [of _ b]) simp
  qed
  assume "runs (SetMemoryLimit m (word_of_int kb * 1024) True) t (Ret b)"
  then obtain good t1 t2 where
    1: "runs (WriteToFile (cgroup_path m @ ''/memory.max'') (dec_int (uint (word_of_int kb * 1024 :: 64 word)))) t1 (Ret good)"
    and 2: "runs (if \<not> good then Done False
      else pbind (WriteToFile (cgroup_path m @ ''/memory.swap.max'') ''0'') (\<lambda>_. Done True)) t2 (Ret b)"
    and t: "t = t1 @ t2"
    using assms unfolding SetMemoryLimit_def by (simp cong: if_cong) (erule runs_pbind_RetE, rule that)
  have v: "uint (word_of_int kb * 1024 :: 64 word) = kb * 1024 mod 2 ^ 64"
    by (simp add: uint_word_ariths unsigned_of_int take_bit_eq_mod mod_mult_left_eq)
  have "if good then \<exists>g. writes (cgroup_path m @ ''/memory.swap.max'') ''0'' t2 g else t2 = []"
    using 2 by (cases good) (auto elim!: runs_pbind_RetE dest!: runs_WriteToFile intro: exI)
  with runs_WriteToFile [OF 1, unfolded v] show "writes_memory (cgroup_path m) kb t"
    unfolding writes_memory_def t by (intro exI conjI) (rule refl, assumption+)
qed

lemma limits_in_order:
  assumes "runs (apply_cgroup_limits cfg m ml pid) u (Ret ())" and c: "created m"
  shows "\<exists>u1 u2 u3 u4 u5 b1 b3 b5. u = u1 @ u2 @ u3 @ u4 @ u5 \<and>
    writes (cgroup_path m @ ''/pids.max'') (dec_int (if 0 < cgroup_pids_limit cfg then cgroup_pids_limit cfg else 20)) u1 b1 \<and>
    writes_memory (cgroup_path m) ml u2 \<and>
    writes (cgroup_path m @ ''/cpu.max'')
      (dec_int (quota_us (if 0 < cgroup_cpu_max_cores cfg then cgroup_cpu_max_cores cfg else 1)) @ '' '' @ dec_int 100000) u3 b3 \<and>
    writes_io (cgroup_path m) (cgroup_io_read_bps cfg) (cgroup_io_write_bps cfg) (workspace_root cfg) u4 \<and>
    writes (cgroup_path m @ ''/cgroup.procs'') (dec_int pid) u5 b5"
proof -
  let ?c = "if 0 < cgroup_cpu_max_cores cfg then cgroup_cpu_max_cores cfg else 1"
  from assms(1) obtain u1 u2 u3 u4 u5 b1 b2 b3 b4 b5 where
    us: "u = u1 @ u2 @ u3 @ u4 @ u5" and
    u1: "runs (SetPidsLimit m (if 0 < cgroup_pids_limit cfg then cgroup_pids_limit cfg else 20)) u1 (Ret b1)" and
    u2: "runs (SetMemoryLimit m (word_of_int ml * 1024) True) u2 (Ret b2)" and
    u3: "runs (SetCPULimit m ?c) u3 (Ret b3)" and
    u4: "runs (SetIOLimit m (cgroup_io_read_bps cfg) (cgroup_io_write_bps cfg) (workspace_root cfg)) u4 (Ret b4)" and
    u5: "runs (AddProcess m pid) u5 (Ret b5)"
    unfolding apply_cgroup_limits_def Let_def runs_block_Ret_iff list_all2_Cons1 list_all2_Nil
    by (fastforce dest!: ignored_result)
  have "0 < ?c" by simp
  from us limits_written(1) [OF c u1] limits_written(2) [OF c u2] limits_written(3) [OF c this u3]
    limits_written(4) [OF c u4] limits_written(5) [OF c u5]
  show ?thesis by (intro exI conjI)
qed

text \<open>What is opened for writing while the cgroup is created.\<close>

definition opens_subtree_control :: "call \<Rightarrow> bool" where
  "opens_subtree_control c \<longleftrightarrow> (\<forall>p. c = Ofs_Open p \<longrightarrow> suffix ''/cgroup.subtree_control'' p)"

lemma create_opens: "every opens_subtree_control (\<lambda>_. True) (\<lambda>_. True) (cgroup_Create m)"
proof -
  let ?every = "every opens_subtree_control (\<lambda>_. True) (\<lambda>_. True)"
  have w: "?every (WriteToFile (p @ ''/cgroup.subtree_control'') v)" for p v
    by (auto simp: WriteToFile_def opens_subtree_control_def suffix_def)
  have r: "?every (ReadFromFile p)" for p
    by (auto simp: ReadFromFile_def opens_subtree_control_def split: option.split)
  have "?every (enable_controllers m)"
    unfolding enable_controllers_def Let_def by (auto intro!: every_unit_pbind w r)
  then have "?every (EnsureParentReady m)" by (auto simp: EnsureParentReady_def opens_subtree_control_def)
  then show ?thesis
    unfolding cgroup_Create_def by (auto intro!: every_unit_pbind simp: opens_subtree_control_def)
qed

lemma mount_root_opens: "every opens_subtree_control (\<lambda>_. True) (\<lambda>_. True) GetCgroup2MountRoot"
proof -
  have "every opens_subtree_control (\<lambda>_. True) (\<lambda>_. True) (first_cgroup2_root ms)" for ms
    by (induction ms) (auto simp: fs_exists_throwing_def opens_subtree_control_def)
  then show ?thesis by (simp only: GetCgroup2MountRoot_def)
qed

lemma first_cgroup2_root_mem: "runs (first_cgroup2_root ms) t (Ret x) \<Longrightarrow> x \<noteq> [] \<Longrightarrow> x \<in> set ms"
  by (induction ms arbitrary: t)
    (auto simp: runs_Call_iff runs_pbind_iff fs_exists_throwing_def split: if_splits)

lemma setup_cgroup_attached:
  assumes "runs (setup_cgroup cfg ml pid) tr (Ret (Some m, True))"
  shows "\<exists>mnt t u. mnt \<in> {''/sys/fs/cgroup/unified'', ''/sys/fs/cgroup''} \<and> tr = t @ u
    \<and> m = (new_cgroup (mnt @ ''/deep_oj'') (''run_'' @ dec_int pid))\<lparr>created := True\<rparr>
    \<and> list_all (\<lambda>e. opens_subtree_control (fst e)) t \<and> runs (apply_cgroup_limits cfg m ml pid) u (Ret ())"
proof -
  let ?g = "\<lambda>mnt. new_cgroup (mnt @ ''/deep_oj'') (''run_'' @ dec_int pid)"
  let ?att = "\<lambda>mnt. pbind (cgroup_Create (?g mnt)) (\<lambda>(made, m).
            if made then pbind (apply_cgroup_limits cfg m ml pid) (\<lambda>_. Done (Some m, True))
            else Done (Some m, False))"
  from assms obtain mnt t1 t2 where mnt: "runs GetCgroup2MountRoot t1 (Ret mnt)"
    and "runs (if mnt = [] then Done (None, False) else pcatch (?att mnt) (\<lambda>e. Done (None, False))) t2 (Ret (Some m, True))"
    and tr: "tr = t1 @ t2"
    unfolding setup_cgroup_def by (rule runs_pbind_RetE)
  then have ne: "mnt \<noteq> []" and "runs (pcatch (?att mnt) (\<lambda>e. Done (None, False))) t2 (Ret (Some m, True))"
    by (simp_all split: if_splits)
  then have "runs (?att mnt) t2 (Ret (Some m, True))" using runs_pcatch by fastforce
  then obtain made m' t3 u where mk: "runs (cgroup_Create (?g mnt)) t3 (Ret (made, m'))" and t2: "t2 = t3 @ u"
    and "runs (if made then pbind (apply_cgroup_limits cfg m' ml pid) (\<lambda>_. Done (Some m', True))
            else Done (Some m', False)) u (Ret (Some m, True))"
    by (elim runs_pbind_RetE) (simp split: prod.splits)
  then have made: made and m': "m' = m" and u: "runs (apply_cgroup_limits cfg m ml pid) u (Ret ())"
    by (auto split: if_splits elim!: runs_pbind_RetE)
  have "m = (?g mnt)\<lparr>created := True\<rparr>"
    using cgroup_Create_Ret [OF _ mk] made m' by (simp add: new_cgroup_def)
  moreover have "mnt \<in> {''/sys/fs/cgroup/unified'', ''/sys/fs/cgroup''}"
    using first_cgroup2_root_mem [OF mnt [unfolded GetCgroup2MountRoot_def] ne]
    by (simp only: list.set)
  moreover have "tr = (t1 @ t3) @ u" by (simp add: tr t2)
  moreover have "list_all (\<lambda>e. opens_subtree_control (fst e)) (t1 @ t3)"
    using every_calls [OF mnt mount_root_opens] every_calls [OF mk create_opens] by (auto simp: list_all_iff)
  ultimately show ?thesis using u by blast
qed

lemma runs_pcatch_Ret: "runs p t (Ret x) \<Longrightarrow> runs (pcatch p h) t (Ret x)"
  by (induction p t "Ret x :: 'a outcome" rule: runs.induct) (auto intro: runs_Call)

text \<open>
  C22. A cgroup that counts as enabled was created, belongs to this child alone, and every limit was
  attempted, with its configured value, before the child became a member. While the cgroup is made
  nothing is opened for writing but \<^verbatim>\<open>cgroup.subtree_control\<close>. Then come, in this order and with nothing in
  between: the process limit (20 when none is configured); the memory limit of the task in bytes, and
  when it was accepted swap is set to 0; the CPU quota of the configured cores (1 when none) per
  100 milliseconds; unless both rates are switched off, the I/O rates for the device of the working
  directory, when it has one; and last the process id of this child to \<^verbatim>\<open>cgroup.procs\<close>. A file that
  cannot be opened is passed over; \<open>writes\<close> says which writes the environment let happen.
\<close>

theorem cgroup_limits_before_membership:
  assumes "runs (setup_cgroup cfg ml pid) tr (Ret (Some m, True))"
  shows "\<exists>mnt own t u1 u2 u3 u4 u5 b1 b3 b5. mnt \<in> {''/sys/fs/cgroup/unified'', ''/sys/fs/cgroup''} \<and>
    own = mnt @ ''/deep_oj/run_'' @ dec_int pid \<and> created m \<and> cgroup_path m = own \<and>
    tr = t @ u1 @ u2 @ u3 @ u4 @ u5 \<and>
    (\<forall>p a. (Ofs_Open p, a) \<in> set t \<longrightarrow> suffix ''/cgroup.subtree_control'' p) \<and>
    writes (own @ ''/pids.max'') (dec_int (if 0 < cgroup_pids_limit cfg then cgroup_pids_limit cfg else 20)) u1 b1 \<and>
    writes_memory own ml u2 \<and>
    writes (own @ ''/cpu.max'')
      (dec_int (quota_us (if 0 < cgroup_cpu_max_cores cfg then cgroup_cpu_max_cores cfg else 1)) @ '' '' @ dec_int 100000) u3 b3 \<and>
    writes_io own (cgroup_io_read_bps cfg) (cgroup_io_write_bps cfg) (workspace_root cfg) u4 \<and>
    writes (own @ ''/cgroup.procs'') (dec_int pid) u5 b5"
proof -
  obtain mnt t u where mnt: "mnt \<in> {''/sys/fs/cgroup/unified'', ''/sys/fs/cgroup''}" and tr: "tr = t @ u"
    and m: "m = (new_cgroup (mnt @ ''/deep_oj'') (''run_'' @ dec_int pid))\<lparr>created := True\<rparr>"
    and t: "list_all (\<lambda>e. opens_subtree_control (fst e)) t"
    and u: "runs (apply_cgroup_limits cfg m ml pid) u (Ret ())"
    using setup_cgroup_attached [OF assms] by (elim exE conjE)
  have c: "created m" by (simp add: m)
  have own: "cgroup_path m = mnt @ ''/deep_oj/run_'' @ dec_int pid" by (simp add: m new_cgroup_def)
  have "\<forall>p a. (Ofs_Open p, a) \<in> set t \<longrightarrow> suffix ''/cgroup.subtree_control'' p"
    using t by (auto simp: list_all_iff opens_subtree_control_def)
  moreover obtain u1 u2 u3 u4 u5 b1 b3 b5 where us: "u = u1 @ u2 @ u3 @ u4 @ u5"
    and w: "writes (cgroup_path m @ ''/pids.max'') (dec_int (if 0 < cgroup_pids_limit cfg then cgroup_pids_limit cfg else 20)) u1 b1"
      "writes_memory (cgroup_path m) ml u2"
      "writes (cgroup_path m @ ''/cpu.max'')
        (dec_int (quota_us (if 0 < cgroup_cpu_max_cores cfg then cgroup_cpu_max_cores cfg else 1)) @ '' '' @ dec_int 100000) u3 b3"
      "writes_io (cgroup_path m) (cgroup_io_read_bps cfg) (cgroup_io_write_bps cfg) (workspace_root cfg) u4"
      "writes (cgroup_path m @ ''/cgroup.procs'') (dec_int pid) u5 b5"
    using limits_in_order [OF u c] by (elim exE conjE)
  moreover have "tr = t @ u1 @ u2 @ u3 @ u4 @ u5" by (simp only: tr us)
  ultimately show ?thesis using mnt own c by (intro exI conjI) (assumption | rule refl)+
qed

theorem cgroup_limits_before_membership_witness:
  "let own = ''/sys/fs/cgroup/unified/deep_oj/run_7'' in
   \<exists>tr m t u b. runs (setup_cgroup sample_config 65536 7) tr (Ret (Some m, True)) \<and> cgroup_path m = own \<and>
     (Ofs_Put (own @ ''/pids.max'') (dec_int 20), ans 1) \<in> set tr \<and>
     (Ofs_Put (own @ ''/memory.max'') (dec_int 67108864), ans 1) \<in> set tr \<and>
     (Ofs_Put (own @ ''/memory.swap.max'') ''0'', ans 1) \<in> set tr \<and>
     (Ofs_Put (own @ ''/cpu.max'') (dec_int (quota_us 1) @ '' '' @ dec_int 100000), ans 1) \<in> set tr \<and>
     (Ofs_Put (own @ ''/io.max'') (io_max_line 2049 104857600 104857600), ans 1) \<in> set tr \<and>
     (Ofs_Put (own @ ''/cgroup.procs'') (dec_int 7), ans 1) \<in> set tr \<and>
     tr = t @ u \<and> writes (own @ ''/cgroup.procs'') (dec_int 7) u b"
proof -
  let ?d = "''/sys/fs/cgroup/unified/deep_oj''" and ?r = "''/sys/fs/cgroup/unified/deep_oj/run_7''"
  let ?m = "\<lparr>cgroup_root = ?d, job_id = ''run_7'', cgroup_path = ?r, created = True\<rparr>"
  have dec: "dec_int 7 = ''7''" by (simp add: dec_int_def dec_nat.simps char_of_def bit_0)
  have parent: "parent_path ?d = ''/sys/fs/cgroup/unified''"
    by (simp add: parent_path_def strip_slashes_def)
  have list: "buildControllerEnableList ''memory'' = ''+memory''" "buildControllerEnableList [] = []"
    by (simp_all add: buildControllerEnableList_def wanted_controllers_def contains.simps)
  let ?put = "\<lambda>p v. [(Ofs_Open p, ans 1), (Ofs_Put p v, ans 1), (Ofs_Close p, ans 0)]"
  have put: "runs (WriteToFile p v) (?put p v) (Ret True)" for p v by (simp add: WriteToFile_def)
  let ?mk = "[(Statfs ''/sys/fs/cgroup/unified'', (ans 0)\<lparr>out := CGROUP2_SUPER_MAGIC\<rparr>),
      (Fs_Exists ''/sys/fs/cgroup/unified/cgroup.controllers'', ans 1),
      (Fs_Exists ?d, ans 1), (Read_File ''/sys/fs/cgroup/unified/cgroup.controllers'', ans 0),
      (Read_File (?d @ ''/cgroup.controllers''), (ans 0)\<lparr>body := Some ''memory''\<rparr>)]
     @ ?put (?d @ ''/cgroup.subtree_control'') ''+memory'' @ [(Fs_Create_Directories ?r, ans 1)]"
  define lim where "lim = ?put (?r @ ''/pids.max'') (dec_int 20) @ ?put (?r @ ''/memory.max'') (dec_int 67108864)
     @ ?put (?r @ ''/memory.swap.max'') ''0''
     @ ?put (?r @ ''/cpu.max'') (dec_int (quota_us 1) @ '' '' @ dec_int 100000)
     @ [(Stat ''/data/workspace'', (ans 0)\<lparr>out := 2049\<rparr>)]
     @ ?put (?r @ ''/io.max'') (io_max_line 2049 104857600 104857600)
     @ ?put (?r @ ''/cgroup.procs'') (dec_int 7)"
  have lim: "runs (apply_cgroup_limits sample_config ?m 65536 7) lim (Ret ())"
    by (simp add: lim_def apply_cgroup_limits_def SetPidsLimit_def SetMemoryLimit_def SetCPULimit_def SetIOLimit_def
        AddProcess_def WriteToFile_def Let_def sample_config_def)
  have att: "runs (pbind (apply_cgroup_limits sample_config ?m 65536 7) (\<lambda>_. Done (Some ?m, True))) (lim @ []) (Ret (Some ?m, True))"
    by (rule runs_pbind_Ret [OF lim]) simp
  have mnt: "runs GetCgroup2MountRoot (take 2 ?mk) (Ret ''/sys/fs/cgroup/unified'')"
    by (simp add: GetCgroup2MountRoot_def fs_exists_throwing_def ans_def)
  have made: "runs (cgroup_Create (new_cgroup ?d ''run_7'')) (drop 2 ?mk) (Ret (True, ?m))"
    by (simp add: new_cgroup_def cgroup_Create_def EnsureParentReady_def enable_controllers_def ReadFromFile_def
        first_line_def parent list WriteToFile_def Let_def)
  have "runs (pbind (cgroup_Create (new_cgroup ?d ''run_7'')) (\<lambda>(made, m).
            if made then pbind (apply_cgroup_limits sample_config m 65536 7) (\<lambda>_. Done (Some m, True))
            else Done (Some m, False))) (drop 2 ?mk @ lim @ []) (Ret (Some ?m, True))"
    by (rule runs_pbind_Ret [OF made]) (use att in simp)
  note inside = runs_pcatch_Ret [OF this, of "\<lambda>e. Done (None, False)"]
  have "runs (setup_cgroup sample_config 65536 7) (take 2 ?mk @ drop 2 ?mk @ lim @ []) (Ret (Some ?m, True))"
    unfolding setup_cgroup_def by (rule runs_pbind_Ret [OF mnt]) (use inside in \<open>simp add: dec\<close>)
  then have run: "runs (setup_cgroup sample_config 65536 7) (?mk @ lim) (Ret (Some ?m, True))"
    by (simp only: append_assoc [symmetric] append_take_drop_id append_Nil2)
  from cgroup_limits_before_membership [OF run] obtain own t u1 u2 u3 u4 u5 b where
    "cgroup_path ?m = own" "?mk @ lim = t @ u1 @ u2 @ u3 @ u4 @ u5" "writes (own @ ''/cgroup.procs'') (dec_int 7) u5 b"
    by blast
  then have "?mk @ lim = (t @ u1 @ u2 @ u3 @ u4) @ u5" "writes (?r @ ''/cgroup.procs'') (dec_int 7) u5 b" by simp_all
  moreover have "{(Ofs_Put (?r @ ''/pids.max'') (dec_int 20), ans 1), (Ofs_Put (?r @ ''/memory.max'') (dec_int 67108864), ans 1),
      (Ofs_Put (?r @ ''/memory.swap.max'') ''0'', ans 1),
      (Ofs_Put (?r @ ''/cpu.max'') (dec_int (quota_us 1) @ '' '' @ dec_int 100000), ans 1),
      (Ofs_Put (?r @ ''/io.max'') (io_max_line 2049 104857600 104857600), ans 1),
      (Ofs_Put (?r @ ''/cgroup.procs'') (dec_int 7), ans 1)} \<subseteq> set (?mk @ lim)"
    by (simp add: lim_def)
  ultimately show ?thesis
    unfolding Let_def using run
    by (intro exI [of _ "?mk @ lim"] exI [of _ ?m] exI [of _ "t @ u1 @ u2 @ u3 @ u4"] exI [of _ u5] exI [of _ b]) simp
qed

end
