(* ===== verification/Runner_Config.thy ===== *)
theory Runner_Config
  imports Sandbox_Internal
begin

text \<open>
  \<^verbatim>\<open>src/core/worker/config.cpp\<close>: reading the runner configuration.

  yaml-cpp is not part of the repository: a parsed document and what can be asked of its nodes
  is the parameter \<open>y\<close> of type \<open>'n yaml\<close>. A look-up of a key can throw or find no node; a
  conversion that throws is \<open>None\<close>. Every failure of \<open>LoadConfig\<close>, a missing key as well as an
  exception, ends the process with \<^verbatim>\<open>EXIT_FAILURE\<close>; the model returns which it was.
\<close>

record 'n yaml =
  y_get :: "'n \<Rightarrow> string \<Rightarrow> 'n option option"
  y_is_sequence :: "'n \<Rightarrow> bool"
  y_items :: "'n \<Rightarrow> 'n list"
  as_long_long :: "'n \<Rightarrow> int option"
  as_int :: "'n \<Rightarrow> int option"
  as_unsigned_long :: "'n \<Rightarrow> int option"
  as_double :: "'n \<Rightarrow> rat option"
  as_string :: "'n \<Rightarrow> string option"

text \<open>What the conversions promise: a converted number is in the range of its type.\<close>

definition yaml_ranges :: "'n yaml \<Rightarrow> bool" where
  "yaml_ranges y \<longleftrightarrow>
     (\<forall>n v. as_int y n = Some v \<longrightarrow> - (2 ^ 31) \<le> v \<and> v < 2 ^ 31) \<and>
     (\<forall>n v. as_long_long y n = Some v \<longrightarrow> - (2 ^ 63) \<le> v \<and> v < 2 ^ 63) \<and>
     (\<forall>n v. as_unsigned_long y n = Some v \<longrightarrow> 0 \<le> v \<and> v < 2 ^ 64)"

datatype load_error = Missing_Node string | Not_A_Sequence string | Yaml_Error

definition conv :: "'a option \<Rightarrow> load_error + 'a" where
  "conv r = (case r of None \<Rightarrow> Inl Yaml_Error | Some v \<Rightarrow> Inr v)"

definition child_node :: "'n yaml \<Rightarrow> 'n \<Rightarrow> string \<Rightarrow> load_error + 'n option" where
  "child_node y n k = conv (y_get y n k)"

text \<open>\<^verbatim>\<open>CHECK_NODE(node[k], name)\<close> followed by the use of \<^verbatim>\<open>node[k]\<close>.\<close>

definition check_node :: "'n yaml \<Rightarrow> 'n \<Rightarrow> string \<Rightarrow> string \<Rightarrow> load_error + 'n" where
  "check_node y n k name =
     ebind (child_node y n k) (\<lambda>c. case c of None \<Rightarrow> Inl (Missing_Node name) | Some m \<Rightarrow> Inr m)"

text \<open>\<^verbatim>\<open>if (n[k]) field = n[k].as<T>();\<close>, and the conditional expression with a default.\<close>

definition opt_field ::
  "'n yaml \<Rightarrow> 'n \<Rightarrow> string \<Rightarrow> ('n \<Rightarrow> 'v option) \<Rightarrow> ('v \<Rightarrow> 'c \<Rightarrow> 'c) \<Rightarrow> 'c \<Rightarrow> load_error + 'c"
where
  "opt_field y n k as upd cfg =
     ebind (child_node y n k) (\<lambda>c.
       case c of None \<Rightarrow> Inr cfg | Some m \<Rightarrow> ebind (conv (as m)) (\<lambda>v. Inr (upd v cfg)))"

definition zero_config :: GlobalConfig where
  "zero_config =
     \<lparr>workspace_root = [], compiler_path = [], mount_dirs = [], mount_files = [],
      compile_cpu_limit = 0, compile_real_limit = 0, compile_mem_limit = 0,
      max_output_size = 0, output_buffer_size = 0, run_tmpfs_size_mb = 0,
      compile_tmpfs_size_mb = 0, compile_log_max_bytes = 0, compile_max_errors = 0,
      run_uid = 0, run_gid = 0, cgroup_pids_limit = 0, cgroup_cpu_max_cores = 0,
      cgroup_io_read_bps = 0, cgroup_io_write_bps = 0\<rparr>"

definition default_config :: GlobalConfig where
  "default_config =
     zero_config
       \<lparr>run_tmpfs_size_mb := 64, compile_tmpfs_size_mb := 128,
        compile_log_max_bytes := 16 * 1024 * 1024, compile_max_errors := 10,
        cgroup_pids_limit := 20, cgroup_cpu_max_cores := 1,
        cgroup_io_read_bps := 100 * 1024 * 1024, cgroup_io_write_bps := 100 * 1024 * 1024\<rparr>"

definition output_defaults :: "GlobalConfig \<Rightarrow> GlobalConfig" where
  "output_defaults cfg =
     cfg\<lparr>max_output_size := 10 * 1024 * 1024, output_buffer_size := 2 * 1024 * 1024\<rparr>"

definition load_runner :: "'n yaml \<Rightarrow> 'n \<Rightarrow> GlobalConfig \<Rightarrow> load_error + GlobalConfig" where
  "load_runner y config cfg =
     ebind (child_node y config ''runner'') (\<lambda>r.
       case r of
         None \<Rightarrow> Inr (output_defaults cfg)
       | Some runner \<Rightarrow>
           ebind (opt_field y runner ''max_output_size'' (as_long_long y)
                    (\<lambda>v c. c\<lparr>max_output_size := v\<rparr>) (output_defaults cfg)) (\<lambda>c1.
           ebind (opt_field y runner ''output_buffer_size'' (as_long_long y)
                    (\<lambda>v c. c\<lparr>output_buffer_size := v\<rparr>) c1) (\<lambda>c2.
           ebind (opt_field y runner ''tmpfs_size_mb'' (as_long_long y)
                    (\<lambda>v c. c\<lparr>run_tmpfs_size_mb := v\<rparr>) c2) (\<lambda>c3.
           ebind (opt_field y runner ''cgroup_pids_limit'' (as_int y)
                    (\<lambda>v c. c\<lparr>cgroup_pids_limit := v\<rparr>) c3) (\<lambda>c4.
           ebind (opt_field y runner ''cgroup_cpu_max_cores'' (as_double y)
                    (\<lambda>v c. c\<lparr>cgroup_cpu_max_cores := v\<rparr>) c4) (\<lambda>c5.
           ebind (opt_field y runner ''cgroup_io_read_bps'' (as_long_long y)
                    (\<lambda>v c. c\<lparr>cgroup_io_read_bps := v\<rparr>) c5) (\<lambda>c6.
           opt_field y runner ''cgroup_io_write_bps'' (as_long_long y)
             (\<lambda>v c. c\<lparr>cgroup_io_write_bps := v\<rparr>) c6)))))))"

text \<open>The loop over a list of paths: it stops at 16 entries, so later ones are not even converted.\<close>

definition load_mounts :: "'n yaml \<Rightarrow> 'n list \<Rightarrow> load_error + string list" where
  "load_mounts y nodes =
     ebind (emap (\<lambda>n. conv (as_string y n)) (take 16 nodes)) (\<lambda>ss. Inr (map (strncpy_z 255) ss))"

definition load_path :: "'n yaml \<Rightarrow> 'n \<Rightarrow> GlobalConfig \<Rightarrow> load_error + GlobalConfig" where
  "load_path y config cfg =
     ebind (check_node y config ''path'' ''path'') (\<lambda>pathNode.
     ebind (check_node y pathNode ''workspace_root'' ''path.workspace_root'') (\<lambda>wsNode.
     ebind (check_node y pathNode ''compiler_bin'' ''path.compiler_bin'') (\<lambda>compNode.
     ebind (check_node y pathNode ''mount_dirs'' ''path.mount_dirs'') (\<lambda>mdirs.
     ebind (conv (as_string y wsNode)) (\<lambda>workspace.
     ebind (conv (as_string y compNode)) (\<lambda>compiler.
     if \<not> y_is_sequence y mdirs then Inl (Not_A_Sequence ''path.mount_dirs'')
     else
       ebind (load_mounts y (y_items y mdirs)) (\<lambda>dirs.
       ebind (child_node y pathNode ''mount_files'') (\<lambda>mf.
       ebind (case mf of
                None \<Rightarrow> Inr []
              | Some mfiles \<Rightarrow> if y_is_sequence y mfiles then load_mounts y (y_items y mfiles) else Inr [])
         (\<lambda>files.
       Inr (cfg\<lparr>workspace_root := strncpy_z 255 workspace, compiler_path := strncpy_z 255 compiler,
                mount_dirs := dirs, mount_files := files\<rparr>))))))))))"

definition load_compile :: "'n yaml \<Rightarrow> 'n \<Rightarrow> GlobalConfig \<Rightarrow> load_error + GlobalConfig" where
  "load_compile y config cfg =
     ebind (check_node y config ''compile'' ''compile'') (\<lambda>compileNode.
     ebind (check_node y compileNode ''cpu_limit_s'' ''compile.cpu_limit_s'') (\<lambda>cpuNode.
     ebind (check_node y compileNode ''real_time_limit_s'' ''compile.real_time_limit_s'') (\<lambda>realNode.
     ebind (check_node y compileNode ''memory_limit_mb'' ''compile.memory_limit_mb'') (\<lambda>memNode.
     ebind (conv (as_int y cpuNode)) (\<lambda>cpu.
     ebind (conv (as_int y realNode)) (\<lambda>real.
     ebind (conv (as_long_long y memNode)) (\<lambda>mem_mb.
     ebind (opt_field y compileNode ''tmpfs_size_mb'' (as_long_long y)
              (\<lambda>v c. c\<lparr>compile_tmpfs_size_mb := v\<rparr>)
              (cfg\<lparr>compile_cpu_limit := cpu, compile_real_limit := real,
                   compile_mem_limit := s64 (mem_mb * 1024 * 1024)\<rparr>)) (\<lambda>c1.
     ebind (opt_field y compileNode ''log_max_size_mb'' (as_long_long y)
              (\<lambda>v c. c\<lparr>compile_log_max_bytes := s64 (v * 1024 * 1024)\<rparr>) c1) (\<lambda>c2.
     ebind (opt_field y compileNode ''max_errors'' (as_int y)
              (\<lambda>v c. c\<lparr>compile_max_errors := v\<rparr>) c2) (\<lambda>c3.
     Inr (if compile_max_errors c3 \<le> 0 then c3\<lparr>compile_max_errors := 10\<rparr> else c3)))))))))))"

definition load_security :: "'n yaml \<Rightarrow> 'n \<Rightarrow> GlobalConfig \<Rightarrow> load_error + GlobalConfig" where
  "load_security y config cfg =
     ebind (check_node y config ''security'' ''security'') (\<lambda>secNode.
     ebind (check_node y secNode ''run_as_uid'' ''security.run_as_uid'') (\<lambda>uidNode.
     ebind (check_node y secNode ''run_as_gid'' ''security.run_as_gid'') (\<lambda>gidNode.
     ebind (conv (as_unsigned_long y uidNode)) (\<lambda>uid.
     ebind (conv (as_unsigned_long y gidNode)) (\<lambda>gid.
     Inr (cfg\<lparr>run_uid := word_of_int uid, run_gid := word_of_int gid\<rparr>))))))"

definition LoadConfig :: "'n yaml \<Rightarrow> (string \<Rightarrow> 'n option) \<Rightarrow> string \<Rightarrow> load_error + GlobalConfig" where
  "LoadConfig y LoadFile path =
     ebind (conv (LoadFile path)) (\<lambda>config.
     ebind (load_runner y config default_config) (\<lambda>c1.
     ebind (load_path y config c1) (\<lambda>c2.
     ebind (load_compile y config c2) (\<lambda>c3.
     load_security y config c3))))"

subsection \<open>Reading one field\<close>

lemma conv_Inr [simp]: "conv r = Inr v \<longleftrightarrow> r = Some v"
  by (simp add: conv_def split: option.splits)

lemma check_node_Inr: "check_node y n k name = Inr m \<longleftrightarrow> y_get y n k = Some (Some m)"
  by (auto simp: check_node_def child_node_def ebind_Inr_iff split: option.splits)

lemma opt_field_Inr:
  "opt_field y n k as upd cfg = Inr c \<Longrightarrow>
   y_get y n k = Some None \<and> c = cfg \<or> (\<exists>m v. y_get y n k = Some (Some m) \<and> as m = Some v \<and> c = upd v cfg)"
  by (cases "y_get y n k") (auto simp: opt_field_def child_node_def ebind_Inr_iff split: option.splits)

text \<open>An invariant of the configuration that one optional field keeps.\<close>

lemma opt_field_inv:
  assumes "opt_field y n k as upd cfg = Inr c" "I cfg" "\<And>m v. as m = Some v \<Longrightarrow> I (upd v cfg)"
  shows "I c"
  using opt_field_Inr [OF assms(1)] assms(2,3) by blast

text \<open>A list of mounts as the document has it: the first 16 texts, in order, each cut to its buffer.\<close>

definition mounts_of :: "'n yaml \<Rightarrow> 'n list \<Rightarrow> string list \<Rightarrow> bool" where
  "mounts_of y nodes ds \<longleftrightarrow>
     list_all2 (\<lambda>n d. \<exists>s. as_string y n = Some s \<and> d = strncpy_z 255 s) (take 16 nodes) ds"

lemma load_mounts_Inr:
  assumes "load_mounts y nodes = Inr ds"
  shows "length ds \<le> 16 \<and> list_all fits256 ds \<and> mounts_of y nodes ds"
proof -
  from assms obtain ss where ss: "emap (\<lambda>n. conv (as_string y n)) (take 16 nodes) = Inr ss"
    and ds: "ds = map (strncpy_z 255) ss"
    by (auto simp: load_mounts_def ebind_Inr_iff)
  from emap_Inr [OF ss] have l: "list_all2 (\<lambda>n s. as_string y n = Some s) (take 16 nodes) ss" by simp
  then have "length ss \<le> 16" by (simp add: list_all2_lengthD [symmetric])
  moreover have "list_all2 (\<lambda>n d. \<exists>s. as_string y n = Some s \<and> d = strncpy_z 255 s) (take 16 nodes) ds"
    unfolding ds list_all2_map2 using l by (rule list_all2_mono) blast
  ultimately show ?thesis by (simp add: ds list_all_iff mounts_of_def)
qed

subsection \<open>The sections of the file\<close>

text \<open>
  The part of the invariant that each section of the document establishes. \<open>num_ok\<close>: the numeric
  fields hold values of their C types.
\<close>

definition num_ok :: "GlobalConfig \<Rightarrow> bool" where
  "num_ok c \<longleftrightarrow>
     - (2 ^ 31) \<le> compile_cpu_limit c \<and> compile_cpu_limit c < 2 ^ 31 \<and>
     - (2 ^ 31) \<le> compile_real_limit c \<and> compile_real_limit c < 2 ^ 31 \<and>
     - (2 ^ 31) \<le> cgroup_pids_limit c \<and> cgroup_pids_limit c < 2 ^ 31 \<and>
     - (2 ^ 31) \<le> compile_max_errors c \<and> compile_max_errors c < 2 ^ 31 \<and>
     - (2 ^ 63) \<le> max_output_size c \<and> max_output_size c < 2 ^ 63 \<and>
     - (2 ^ 63) \<le> output_buffer_size c \<and> output_buffer_size c < 2 ^ 63 \<and>
     - (2 ^ 63) \<le> run_tmpfs_size_mb c \<and> run_tmpfs_size_mb c < 2 ^ 63 \<and>
     - (2 ^ 63) \<le> compile_mem_limit c \<and> compile_mem_limit c < 2 ^ 63 \<and>
     - (2 ^ 63) \<le> compile_tmpfs_size_mb c \<and> compile_tmpfs_size_mb c < 2 ^ 63 \<and>
     - (2 ^ 63) \<le> compile_log_max_bytes c \<and> compile_log_max_bytes c < 2 ^ 63 \<and>
     - (2 ^ 63) \<le> cgroup_io_read_bps c \<and> cgroup_io_read_bps c < 2 ^ 63 \<and>
     - (2 ^ 63) \<le> cgroup_io_write_bps c \<and> cgroup_io_write_bps c < 2 ^ 63"

lemma s64_range: "- (2 ^ 63) \<le> s64 x \<and> s64 x < 2 ^ 63"
  using sint_range_size [of "word_of_int x :: 64 word"] by (simp add: s64_def word_size)

lemma num_ok_default: "num_ok (output_defaults default_config)"
  by (simp add: num_ok_def output_defaults_def default_config_def zero_config_def)

lemma num_ok_upd:
  assumes "num_ok c"
  shows "- (2 ^ 63) \<le> v \<and> v < 2 ^ 63 \<Longrightarrow> num_ok (c\<lparr>max_output_size := v\<rparr>)"
    "- (2 ^ 63) \<le> v \<and> v < 2 ^ 63 \<Longrightarrow> num_ok (c\<lparr>output_buffer_size := v\<rparr>)"
    "- (2 ^ 63) \<le> v \<and> v < 2 ^ 63 \<Longrightarrow> num_ok (c\<lparr>run_tmpfs_size_mb := v\<rparr>)"
    "- (2 ^ 31) \<le> v \<and> v < 2 ^ 31 \<Longrightarrow> num_ok (c\<lparr>cgroup_pids_limit := v\<rparr>)"
    "num_ok (c\<lparr>cgroup_cpu_max_cores := q\<rparr>)"
    "- (2 ^ 63) \<le> v \<and> v < 2 ^ 63 \<Longrightarrow> num_ok (c\<lparr>cgroup_io_read_bps := v\<rparr>)"
    "- (2 ^ 63) \<le> v \<and> v < 2 ^ 63 \<Longrightarrow> num_ok (c\<lparr>cgroup_io_write_bps := v\<rparr>)"
    "- (2 ^ 63) \<le> v \<and> v < 2 ^ 63 \<Longrightarrow> num_ok (c\<lparr>compile_tmpfs_size_mb := v\<rparr>)"
    "num_ok (c\<lparr>compile_log_max_bytes := s64 x\<rparr>)"
    "- (2 ^ 31) \<le> v \<and> v < 2 ^ 31 \<Longrightarrow> num_ok (c\<lparr>compile_max_errors := v\<rparr>)"
    "- (2 ^ 31) \<le> v \<and> v < 2 ^ 31 \<Longrightarrow> - (2 ^ 31) \<le> v' \<and> v' < 2 ^ 31 \<Longrightarrow>
       num_ok (c\<lparr>compile_cpu_limit := v, compile_real_limit := v', compile_mem_limit := s64 x\<rparr>)"
    "num_ok (c\<lparr>workspace_root := a, compiler_path := b, mount_dirs := ds, mount_files := fs\<rparr>)"
    "num_ok (c\<lparr>run_uid := u1, run_gid := u2\<rparr>)"
  using assms s64_range [of x] by (auto simp: num_ok_def)

lemma yaml_rangesD:
  assumes "yaml_ranges y"
  shows "as_int y n = Some v \<Longrightarrow> - (2 ^ 31) \<le> v \<and> v < 2 ^ 31"
    "as_long_long y n = Some v \<Longrightarrow> - (2 ^ 63) \<le> v \<and> v < 2 ^ 63"
    "as_unsigned_long y n = Some v \<Longrightarrow> 0 \<le> v \<and> v < 2 ^ 64"
  using assms unfolding yaml_ranges_def by blast+

lemma load_runner_num_ok:
  assumes "load_runner y config default_config = Inr c" "yaml_ranges y"
  shows "num_ok c"
proof -
  note step = opt_field_inv [where I = num_ok] and r = yaml_rangesD [OF assms(2)]
  have "num_ok c" if "load_runner y config default_config = Inr c" "child_node y config ''runner'' = Inr (Some n)" for n
  proof -
    from that obtain c1 c2 c3 c4 c5 c6 where
      "opt_field y n ''max_output_size'' (as_long_long y) (\<lambda>v c. c\<lparr>max_output_size := v\<rparr>) (output_defaults default_config) = Inr c1"
      "opt_field y n ''output_buffer_size'' (as_long_long y) (\<lambda>v c. c\<lparr>output_buffer_size := v\<rparr>) c1 = Inr c2"
      "opt_field y n ''tmpfs_size_mb'' (as_long_long y) (\<lambda>v c. c\<lparr>run_tmpfs_size_mb := v\<rparr>) c2 = Inr c3"
      "opt_field y n ''cgroup_pids_limit'' (as_int y) (\<lambda>v c. c\<lparr>cgroup_pids_limit := v\<rparr>) c3 = Inr c4"
      "opt_field y n ''cgroup_cpu_max_cores'' (as_double y) (\<lambda>v c. c\<lparr>cgroup_cpu_max_cores := v\<rparr>) c4 = Inr c5"
      "opt_field y n ''cgroup_io_read_bps'' (as_long_long y) (\<lambda>v c. c\<lparr>cgroup_io_read_bps := v\<rparr>) c5 = Inr c6"
      "opt_field y n ''cgroup_io_write_bps'' (as_long_long y) (\<lambda>v c. c\<lparr>cgroup_io_write_bps := v\<rparr>) c6 = Inr c"
      by (auto simp: load_runner_def ebind_Inr_iff)
    note s = this
    have c1: "num_ok c1" by (rule step [OF s(1) num_ok_default]) (erule num_ok_upd(1) [OF num_ok_default r(2)])
    have c2: "num_ok c2" by (rule step [OF s(2) c1]) (erule num_ok_upd(2) [OF c1 r(2)])
    have c3: "num_ok c3" by (rule step [OF s(3) c2]) (erule num_ok_upd(3) [OF c2 r(2)])
    have c4: "num_ok c4" by (rule step [OF s(4) c3]) (erule num_ok_upd(4) [OF c3 r(1)])
    have c5: "num_ok c5" by (rule step [OF s(5) c4]) (rule num_ok_upd(5) [OF c4])
    have c6: "num_ok c6" by (rule step [OF s(6) c5]) (erule num_ok_upd(6) [OF c5 r(2)])
    show ?thesis by (rule step [OF s(7) c6]) (erule num_ok_upd(7) [OF c6 r(2)])
  qed
  with assms(1) num_ok_default show ?thesis
    by (auto simp: load_runner_def ebind_Inr_iff split: option.splits)
qed

text \<open>The optional list of files: missing or not a sequence counts as empty.\<close>

definition load_files :: "'n yaml \<Rightarrow> 'n option \<Rightarrow> load_error + string list" where
  "load_files y mf =
     (case mf of
        None \<Rightarrow> Inr []
      | Some f \<Rightarrow> if y_is_sequence y f then load_mounts y (y_items y f) else Inr [])"

lemma load_path_Inr:
  "load_path y config c = Inr d \<Longrightarrow>
   \<exists>p w k m ws cb dirs files.
    y_get y config ''path'' = Some (Some p) \<and>
    y_get y p ''workspace_root'' = Some (Some w) \<and> as_string y w = Some ws \<and>
    y_get y p ''compiler_bin'' = Some (Some k) \<and> as_string y k = Some cb \<and>
    y_get y p ''mount_dirs'' = Some (Some m) \<and> y_is_sequence y m \<and>
    load_mounts y (y_items y m) = Inr dirs \<and>
    (\<exists>mf. y_get y p ''mount_files'' = Some mf \<and> load_files y mf = Inr files) \<and>
    d = c\<lparr>workspace_root := strncpy_z 255 ws, compiler_path := strncpy_z 255 cb,
          mount_dirs := dirs, mount_files := files\<rparr>"
  by (auto simp: load_path_def check_node_Inr child_node_def ebind_Inr_iff load_files_def split: if_splits)

lemma load_compile_Inr:
  assumes "load_compile y config c = Inr d"
  obtains n nc nr nm cpu real mem c1 c2 c3 where
    "y_get y config ''compile'' = Some (Some n)"
    "y_get y n ''cpu_limit_s'' = Some (Some nc)" "as_int y nc = Some cpu"
    "y_get y n ''real_time_limit_s'' = Some (Some nr)" "as_int y nr = Some real"
    "y_get y n ''memory_limit_mb'' = Some (Some nm)" "as_long_long y nm = Some mem"
    "opt_field y n ''tmpfs_size_mb'' (as_long_long y) (\<lambda>v c. c\<lparr>compile_tmpfs_size_mb := v\<rparr>)
       (c\<lparr>compile_cpu_limit := cpu, compile_real_limit := real,
          compile_mem_limit := s64 (mem * 1024 * 1024)\<rparr>) = Inr c1"
    "opt_field y n ''log_max_size_mb'' (as_long_long y)
       (\<lambda>v c. c\<lparr>compile_log_max_bytes := s64 (v * 1024 * 1024)\<rparr>) c1 = Inr c2"
    "opt_field y n ''max_errors'' (as_int y) (\<lambda>v c. c\<lparr>compile_max_errors := v\<rparr>) c2 = Inr c3"
    "d = (if compile_max_errors c3 \<le> 0 then c3\<lparr>compile_max_errors := 10\<rparr> else c3)"
  using assms by (auto simp: load_compile_def check_node_Inr ebind_Inr_iff split: if_split_asm)

text \<open>The fields that a section leaves alone.\<close>

abbreviation same_paths :: "GlobalConfig \<Rightarrow> GlobalConfig \<Rightarrow> bool" where
  "same_paths c d \<equiv> workspace_root d = workspace_root c \<and> compiler_path d = compiler_path c \<and>
     mount_dirs d = mount_dirs c \<and> mount_files d = mount_files c"

lemma load_compile_ok:
  assumes "load_compile y config c = Inr d" "num_ok c" "yaml_ranges y"
  shows "num_ok d \<and> 0 < compile_max_errors d \<and> same_paths c d"
  using assms(1)
proof (rule load_compile_Inr)
  fix n nc nr nm cpu real mem c1 c2 c3
  assume cpu: "as_int y nc = Some cpu" and real: "as_int y nr = Some real"
    and s1: "opt_field y n ''tmpfs_size_mb'' (as_long_long y) (\<lambda>v c. c\<lparr>compile_tmpfs_size_mb := v\<rparr>)
       (c\<lparr>compile_cpu_limit := cpu, compile_real_limit := real,
          compile_mem_limit := s64 (mem * 1024 * 1024)\<rparr>) = Inr c1"
    and s2: "opt_field y n ''log_max_size_mb'' (as_long_long y)
       (\<lambda>v c. c\<lparr>compile_log_max_bytes := s64 (v * 1024 * 1024)\<rparr>) c1 = Inr c2"
    and s3: "opt_field y n ''max_errors'' (as_int y) (\<lambda>v c. c\<lparr>compile_max_errors := v\<rparr>) c2 = Inr c3"
    and d: "d = (if compile_max_errors c3 \<le> 0 then c3\<lparr>compile_max_errors := 10\<rparr> else c3)"
  let ?I = "\<lambda>c'. num_ok c' \<and> same_paths c c'"
  note r = yaml_rangesD [OF assms(3)]
  let ?c0 = "c\<lparr>compile_cpu_limit := cpu, compile_real_limit := real, compile_mem_limit := s64 (mem * 1024 * 1024)\<rparr>"
  have c0: "?I ?c0" using num_ok_upd(11) [OF assms(2) r(1) [OF cpu] r(1) [OF real]] by simp
  have c1: "?I c1" by (rule opt_field_inv [where I = ?I, OF s1 c0]) (use num_ok_upd(8) [OF _ r(2)] c0 in auto)
  have c2: "?I c2" by (rule opt_field_inv [where I = ?I, OF s2 c1]) (use num_ok_upd(9) c1 in auto)
  have c3: "?I c3" by (rule opt_field_inv [where I = ?I, OF s3 c2]) (use num_ok_upd(10) [OF _ r(1)] c2 in auto)
  have "num_ok (c3\<lparr>compile_max_errors := 10\<rparr>)" by (rule num_ok_upd(10)) (use c3 in auto)
  with c3 d show ?thesis by auto
qed

lemma load_security_Inr:
  "load_security y config c = Inr d \<Longrightarrow>
   \<exists>n nu ng u g. y_get y config ''security'' = Some (Some n) \<and>
     y_get y n ''run_as_uid'' = Some (Some nu) \<and> as_unsigned_long y nu = Some u \<and>
     y_get y n ''run_as_gid'' = Some (Some ng) \<and> as_unsigned_long y ng = Some g \<and>
     d = c\<lparr>run_uid := word_of_int u, run_gid := word_of_int g\<rparr>"
  by (auto simp: load_security_def check_node_Inr ebind_Inr_iff)

subsection \<open>Properties\<close>

text \<open>
  C19. A configuration that loads is well formed: both paths and every mount entry fit their 256 byte
  buffers, at most 16 directories and 16 files are mounted, every number is in the range of its C
  type (all of them: the limits of the compiler in seconds, bytes and megabytes, the output, the
  scratch space, the log, the processes and the I/O rates) and at least one compiler error is reported.
  The working directory and the compiler are those of the file cut to 255 bytes; the directories, and the
  files when the document has a sequence of them, are its first 16 entries, in order, cut likewise, and
  no files otherwise; the identity the sandbox drops to is the configured one modulo \<open>2^32\<close>.
\<close>

theorem load_config_wf:
  assumes "LoadConfig y LoadFile path = Inr cfg" and "yaml_ranges y"
  shows "config_wf cfg \<and> num_ok cfg \<and> 0 < compile_max_errors cfg \<and>
    (\<exists>doc p w k m mf n nu ng ws cb u g.
      LoadFile path = Some doc \<and> y_get y doc ''path'' = Some (Some p) \<and>
      y_get y p ''workspace_root'' = Some (Some w) \<and> as_string y w = Some ws \<and>
      workspace_root cfg = strncpy_z 255 ws \<and>
      y_get y p ''compiler_bin'' = Some (Some k) \<and> as_string y k = Some cb \<and>
      compiler_path cfg = strncpy_z 255 cb \<and>
      y_get y p ''mount_dirs'' = Some (Some m) \<and> y_is_sequence y m \<and>
      mounts_of y (y_items y m) (mount_dirs cfg) \<and>
      y_get y p ''mount_files'' = Some mf \<and>
      (case mf of
         Some f \<Rightarrow> if y_is_sequence y f then mounts_of y (y_items y f) (mount_files cfg) else mount_files cfg = []
       | None \<Rightarrow> mount_files cfg = []) \<and>
      y_get y doc ''security'' = Some (Some n) \<and>
      y_get y n ''run_as_uid'' = Some (Some nu) \<and> as_unsigned_long y nu = Some u \<and>
      y_get y n ''run_as_gid'' = Some (Some ng) \<and> as_unsigned_long y ng = Some g \<and>
      uint (run_uid cfg) = u mod 2 ^ 32 \<and> uint (run_gid cfg) = g mod 2 ^ 32)"
proof -
  from assms(1) obtain doc c1 c2 c3 where doc: "LoadFile path = Some doc"
    and 1: "load_runner y doc default_config = Inr c1" and 2: "load_path y doc c1 = Inr c2"
    and 3: "load_compile y doc c2 = Inr c3" and 4: "load_security y doc c3 = Inr cfg"
    by (auto simp: LoadConfig_def ebind_Inr_iff)
  from load_path_Inr [OF 2] obtain p w k m mf ws cb dirs files where
    p: "y_get y doc ''path'' = Some (Some p)"
      "y_get y p ''workspace_root'' = Some (Some w)" "as_string y w = Some ws"
      "y_get y p ''compiler_bin'' = Some (Some k)" "as_string y k = Some cb"
      "y_get y p ''mount_dirs'' = Some (Some m)" "y_is_sequence y m" "y_get y p ''mount_files'' = Some mf"
    and dirs: "load_mounts y (y_items y m) = Inr dirs" and files: "load_files y mf = Inr files"
    and c2: "c2 = c1\<lparr>workspace_root := strncpy_z 255 ws, compiler_path := strncpy_z 255 cb,
       mount_dirs := dirs, mount_files := files\<rparr>"
    by blast
  have fl: "length files \<le> 16" "list_all fits256 files"
    "case mf of Some f \<Rightarrow> if y_is_sequence y f then mounts_of y (y_items y f) files else files = [] | None \<Rightarrow> files = []"
    using files load_mounts_Inr by (auto simp: load_files_def split: option.splits if_splits)
  have "num_ok c2" unfolding c2 by (rule num_ok_upd(12)) (rule load_runner_num_ok [OF 1 assms(2)])
  from load_compile_ok [OF 3 this assms(2)]
  have c3: "num_ok c3" "0 < compile_max_errors c3" "same_paths c2 c3" by auto
  from load_security_Inr [OF 4] obtain n nu ng u g where s: "y_get y doc ''security'' = Some (Some n)"
    "y_get y n ''run_as_uid'' = Some (Some nu)" "as_unsigned_long y nu = Some u"
    "y_get y n ''run_as_gid'' = Some (Some ng)" "as_unsigned_long y ng = Some g"
    and cfg: "cfg = c3\<lparr>run_uid := word_of_int u, run_gid := word_of_int g\<rparr>" by blast
  have "config_wf cfg"
    using load_mounts_Inr [OF dirs] fl c3(3) by (auto simp: config_wf_def cfg c2)
  moreover have "num_ok cfg" unfolding cfg by (rule num_ok_upd(13)) (rule c3(1))
  moreover have "0 < compile_max_errors cfg" using c3(2) by (simp add: cfg)
  moreover have c: "workspace_root cfg = strncpy_z 255 ws" "compiler_path cfg = strncpy_z 255 cb"
    "mount_dirs cfg = dirs" "mount_files cfg = files" using c3(3) by (simp_all add: cfg c2)
  moreover have "uint (run_uid cfg) = u mod 2 ^ 32" "uint (run_gid cfg) = g mod 2 ^ 32"
    by (simp_all add: cfg unsigned_of_int take_bit_eq_mod)
  moreover have "mounts_of y (y_items y m) (mount_dirs cfg)" using load_mounts_Inr [OF dirs] c(3) by simp
  moreover have "case mf of Some f \<Rightarrow> if y_is_sequence y f then mounts_of y (y_items y f) (mount_files cfg) else mount_files cfg = []
      | None \<Rightarrow> mount_files cfg = []" using fl(3) by (simp only: c(4))
  ultimately show ?thesis
    using doc p s by (intro conjI exI)
qed

text \<open>A small document model for which the laws of the parameter hold.\<close>

datatype ynode = YScalar string | YSeq "ynode list" | YMap "(string \<times> ynode) list"

definition scalar_text :: "ynode \<Rightarrow> string option" where
  "scalar_text n = (case n of YScalar s \<Rightarrow> Some s | _ \<Rightarrow> None)"

definition ynode_ops :: "ynode yaml" where
  "ynode_ops =
     \<lparr>y_get = (\<lambda>n k. case n of YMap kvs \<Rightarrow> Some (map_of kvs k) | _ \<Rightarrow> None),
      y_is_sequence = (\<lambda>n. case n of YSeq _ \<Rightarrow> True | _ \<Rightarrow> False),
      y_items = (\<lambda>n. case n of YSeq ns \<Rightarrow> ns | _ \<Rightarrow> []),
      as_long_long = (\<lambda>n. Option.bind (scalar_text n) (\<lambda>s. ok_of (stoll s))),
      as_int = (\<lambda>n. Option.bind (scalar_text n) (\<lambda>s. ok_of (stoi s))),
      as_unsigned_long = (\<lambda>n. Option.bind (scalar_text n) (\<lambda>s. map_option uint (ok_of (stoull s)))),
      as_double = (\<lambda>n. Option.bind (scalar_text n) (\<lambda>s. map_option of_int (ok_of (stoll s)))),
      as_string = scalar_text\<rparr>"

definition sample_doc :: ynode where
  "sample_doc = YMap
     [(''path'', YMap [(''workspace_root'', YScalar ''/data/workspace''),
                       (''compiler_bin'', YScalar ''/usr/bin/g++''),
                       (''mount_dirs'', YSeq [YScalar ''/lib'', YScalar ''/usr'']),
                       (''mount_files'', YSeq [YScalar ''/dev/null''])]),
      (''compile'', YMap [(''cpu_limit_s'', YScalar ''10''), (''real_time_limit_s'', YScalar ''15''),
                          (''memory_limit_mb'', YScalar ''1024'')]),
      (''security'', YMap [(''run_as_uid'', YScalar ''65534''), (''run_as_gid'', YScalar ''65534'')])]"

lemma sto_signed_range: "sto_signed w s = Inr v \<Longrightarrow> - (2 ^ (w - 1)) \<le> v \<and> v < 2 ^ (w - 1)"
  by (auto simp: sto_signed_def Let_def split: option.splits if_splits)

lemma ynode_ranges: "yaml_ranges ynode_ops"
proof -
  have "- (2 ^ 31) \<le> v \<and> v < 2 ^ 31" if "ok_of (stoi s) = Some v" for s v
    using that sto_signed_range [of 32 s v] by (auto simp: stoi_def ok_of_def split: sum.splits)
  moreover have "- (2 ^ 63) \<le> v \<and> v < 2 ^ 63" if "ok_of (stoll s) = Some v" for s v
    using that sto_signed_range [of 64 s v] by (auto simp: stoll_def ok_of_def split: sum.splits)
  moreover have "0 \<le> uint w \<and> uint w < 2 ^ 64" for w :: "64 word"
    using uint_bounded [of w] by simp
  ultimately show ?thesis
    unfolding yaml_ranges_def ynode_ops_def by (auto simp: bind_eq_Some_conv)
qed

lemma ynode_numbers:
  "as_int ynode_ops (YScalar ''10'') = Some 10" "as_int ynode_ops (YScalar ''15'') = Some 15"
  "as_long_long ynode_ops (YScalar ''1024'') = Some 1024"
  "as_unsigned_long ynode_ops (YScalar ''65534'') = Some 65534"
  by (simp_all add: ynode_ops_def scalar_text_def scan_eval)

lemma ynode_lookup [simp]:
  "y_get ynode_ops (YMap kvs) key = Some (map_of kvs key)" "y_is_sequence ynode_ops (YSeq ns)"
  "y_items ynode_ops (YSeq ns) = ns" "as_string ynode_ops (YScalar s) = Some s"
  by (simp_all add: ynode_ops_def scalar_text_def)

lemma sample_doc_loads: "\<exists>cfg. LoadConfig ynode_ops (\<lambda>_. Some sample_doc) ''config.yaml'' = Inr cfg"
  by (simp add: LoadConfig_def load_runner_def load_path_def load_compile_def load_security_def
      check_node_def child_node_def opt_field_def load_mounts_def conv_def sample_doc_def ynode_numbers)

theorem load_config_wf_witness:
  "\<exists>cfg. LoadConfig ynode_ops (\<lambda>_. Some sample_doc) ''config.yaml'' = Inr cfg \<and> yaml_ranges ynode_ops \<and>
     config_wf cfg \<and> num_ok cfg \<and> 0 < compile_max_errors cfg"
proof -
  obtain cfg where "LoadConfig ynode_ops (\<lambda>_. Some sample_doc) ''config.yaml'' = Inr cfg"
    using sample_doc_loads by blast
  with load_config_wf [OF this ynode_ranges] ynode_ranges show ?thesis by blast
qed

definition tiny_path :: ynode where
  "tiny_path = YMap [(''workspace_root'', YScalar ''/w''), (''compiler_bin'', YScalar ''/usr/bin/g++''),
                     (''mount_dirs'', YSeq [])]"

definition tiny_compile :: ynode where
  "tiny_compile = YMap [(''cpu_limit_s'', YScalar ''10''), (''real_time_limit_s'', YScalar ''15''),
                        (''memory_limit_mb'', YScalar ''1024'')]"

definition tiny_security :: ynode where
  "tiny_security = YMap [(''run_as_uid'', YScalar ''65534''), (''run_as_gid'', YScalar ''65534'')]"

definition tiny_doc :: ynode where
  "tiny_doc = YMap [(''path'', tiny_path), (''compile'', tiny_compile), (''security'', tiny_security)]"

text \<open>
  What a document that only has the required keys means: every optional setting takes its
  default. 10 MiB of output with 2 MiB of slack, 64 MiB of scratch space for a run and 128 MiB for a
  compilation, 16 MiB of compiler log, 10 errors, 20 processes, one core and 100 MiB/s of I/O.
\<close>

theorem load_config_defaults:
  assumes "LoadFile path = Some doc" "y_get y doc ''runner'' = Some None"
    "y_get y doc ''path'' = Some (Some p)"
    "y_get y p ''workspace_root'' = Some (Some w)" "as_string y w = Some ws"
    "y_get y p ''compiler_bin'' = Some (Some k)" "as_string y k = Some cb"
    "y_get y p ''mount_dirs'' = Some (Some m)" "y_is_sequence y m" "y_items y m = []"
    "y_get y p ''mount_files'' = Some None"
    "y_get y doc ''compile'' = Some (Some n)"
    "y_get y n ''cpu_limit_s'' = Some (Some nc)" "as_int y nc = Some cpu"
    "y_get y n ''real_time_limit_s'' = Some (Some nr)" "as_int y nr = Some rt"
    "y_get y n ''memory_limit_mb'' = Some (Some nm)" "as_long_long y nm = Some mem"
    "0 \<le> mem" "mem < 2 ^ 43"
    "y_get y n ''tmpfs_size_mb'' = Some None" "y_get y n ''log_max_size_mb'' = Some None"
    "y_get y n ''max_errors'' = Some None"
    "y_get y doc ''security'' = Some (Some sn)"
    "y_get y sn ''run_as_uid'' = Some (Some nu)" "as_unsigned_long y nu = Some u"
    "y_get y sn ''run_as_gid'' = Some (Some ng)" "as_unsigned_long y ng = Some g"
  shows "LoadConfig y LoadFile path = Inr
     \<lparr>workspace_root = strncpy_z 255 ws, compiler_path = strncpy_z 255 cb, mount_dirs = [], mount_files = [],
      compile_cpu_limit = cpu, compile_real_limit = rt, compile_mem_limit = 1048576 * mem,
      max_output_size = 10485760, output_buffer_size = 2097152, run_tmpfs_size_mb = 64,
      compile_tmpfs_size_mb = 128, compile_log_max_bytes = 16777216, compile_max_errors = 10,
      run_uid = word_of_int u, run_gid = word_of_int g, cgroup_pids_limit = 20,
      cgroup_cpu_max_cores = 1, cgroup_io_read_bps = 104857600, cgroup_io_write_bps = 104857600\<rparr>"
proof -
  have m: "s64 (1048576 * mem) = 1048576 * mem" using assms(19,20) by (intro s64_id) simp_all
  show ?thesis
    by (simp add: LoadConfig_def load_runner_def load_path_def load_compile_def load_security_def
        check_node_def child_node_def opt_field_def load_mounts_def conv_def output_defaults_def
        default_config_def zero_config_def assms m)
qed

theorem load_config_defaults_witness:
  "\<exists>cfg. LoadConfig ynode_ops (\<lambda>_. Some tiny_doc) ''c'' = Inr cfg \<and>
     compile_mem_limit cfg = 1073741824 \<and> max_output_size cfg = 10485760 \<and> cgroup_pids_limit cfg = 20"
  using load_config_defaults [where y = ynode_ops and LoadFile = "\<lambda>_. Some tiny_doc" and doc = tiny_doc
      and path = "''c''" and p = tiny_path and w = "YScalar ''/w''" and k = "YScalar ''/usr/bin/g++''"
      and m = "YSeq []" and n = tiny_compile and nc = "YScalar ''10''" and nr = "YScalar ''15''"
      and nm = "YScalar ''1024''" and sn = tiny_security and nu = "YScalar ''65534''" and ng = "YScalar ''65534''"
      and mem = 1024]
  by (simp add: tiny_doc_def tiny_path_def tiny_compile_def tiny_security_def ynode_numbers)

end
