(* ===== verification/Judge_Engine.thy ===== *)
theory Judge_Engine
  imports Sandbox_Resources Runner_Config
begin

text \<open>
  \<^verbatim>\<open>src/core/worker/main.cpp\<close>: the command line program \<^verbatim>\<open>judge_engine\<close>. It reads its options, loads and
  validates the configuration and then prints a protocol answer, removes a request directory, compiles
  or runs; the result is one line of JSON on the standard output.

  Not in the repository and therefore parameters: \<^verbatim>\<open>getopt_long\<close> (the list of options it returns, each
  with its argument), the YAML library (\<open>y\<close> and \<open>LoadFile\<close>, as in \<open>Runner_Config\<close>) and the JSON library,
  whose objects are built here as association lists and printed by \<open>dump\<close>; a text that is not UTF-8 makes
  \<^verbatim>\<open>dump\<close> throw, which is \<open>dump obj = None\<close>. The usage text and other diagnostics go to \<^verbatim>\<open>std::cerr\<close>.
\<close>

subsection \<open>Data\<close>

record ExecutionConfig =
  src_path :: string
  code_path :: string
  input_path :: string
  output_path :: string
  error_path :: string
  time_limit :: int
  memory_limit :: int
  work_dir :: string
  request_id :: string
  run_job_id :: string
  attempt_id :: int
  compile_only :: bool
  cleanup_only :: bool
  self_test :: bool
  attempt_explicit :: bool

definition default_execution :: ExecutionConfig where
  "default_execution =
     \<lparr>src_path = [], code_path = [], input_path = [], output_path = [], error_path = [],
      time_limit = 1000, memory_limit = 131072, work_dir = [], request_id = [], run_job_id = [],
      attempt_id = -1, compile_only = False, cleanup_only = False, self_test = False,
      attempt_explicit = False\<rparr>"

record VerdictAndStatus =
  verdict :: string
  status_text :: string

datatype jval = JInt int | JStr string

type_synonym json = "(string \<times> jval) list"

text \<open>\<^verbatim>\<open>out["k"] = v\<close>\<close>

definition put :: "string \<Rightarrow> jval \<Rightarrow> json \<Rightarrow> json" where
  "put k v obj = filter (\<lambda>(k', _). k' \<noteq> k) obj @ [(k, v)]"

subsection \<open>Helpers\<close>

text \<open>\<open>None\<close> when the configuration is valid, otherwise the message.\<close>

definition ValidateConfig :: "GlobalConfig \<Rightarrow> string option prog" where
  "ValidateConfig g =
     (if workspace_root g = [] then Done (Some ''workspace_root not set'')
      else if compiler_path g = [] then Done (Some ''compiler_path not set'')
      else pbind (fs_exists_throwing (workspace_root g)) (\<lambda>there.
        if \<not> there then Done (Some (''workspace_root not found: '' @ workspace_root g))
        else Call (Access (compiler_path g) 1) (\<lambda>a.
          if rv a \<noteq> 0 then Done (Some (''compiler not executable: '' @ compiler_path g))
          else Done None)))"

definition ParseAttemptID :: "string \<Rightarrow> int option" where
  "ParseAttemptID raw = ok_of (stoll raw)"

definition FillRunMetaFromEnv :: "ExecutionConfig \<Rightarrow> ExecutionConfig prog" where
  "FillRunMetaFromEnv config =
     pbind (if run_job_id config = [] then
              Call (Getenv ''JUDGE_JOB_ID'') (\<lambda>a.
                case body a of None \<Rightarrow> Done config | Some j \<Rightarrow> Done (config\<lparr>run_job_id := j\<rparr>))
            else Done config) (\<lambda>config.
     if \<not> attempt_explicit config then
       Call (Getenv ''JUDGE_ATTEMPT_ID'') (\<lambda>a.
         case body a of
           None \<Rightarrow> Done config
         | Some raw \<Rightarrow>
             (case ParseAttemptID raw of
                None \<Rightarrow> Done config
              | Some v \<Rightarrow> Done (config\<lparr>attempt_id := v, attempt_explicit := True\<rparr>)))
     else Done config)"

definition ToVerdictAndStatus :: "SandboxStatus \<Rightarrow> VerdictAndStatus" where
  "ToVerdictAndStatus st =
     (case st of
        OK \<Rightarrow> \<lparr>verdict = ''OK'', status_text = ''Finished''\<rparr>
      | TIME_LIMIT_EXCEEDED \<Rightarrow> \<lparr>verdict = ''TLE'', status_text = ''Time Limit Exceeded''\<rparr>
      | MEMORY_LIMIT_EXCEEDED \<Rightarrow> \<lparr>verdict = ''MLE'', status_text = ''Memory Limit Exceeded''\<rparr>
      | OUTPUT_LIMIT_EXCEEDED \<Rightarrow> \<lparr>verdict = ''OLE'', status_text = ''Output Limit Exceeded''\<rparr>
      | SYSTEM_ERROR \<Rightarrow> \<lparr>verdict = ''SE'', status_text = ''System Error''\<rparr>
      | RUNTIME_ERROR \<Rightarrow> \<lparr>verdict = ''RE'', status_text = ''Runtime Error''\<rparr>)"

definition BuildRunJSON ::
  "string \<Rightarrow> int \<Rightarrow> string \<Rightarrow> int \<Rightarrow> int \<Rightarrow> int \<Rightarrow> string \<Rightarrow> int \<Rightarrow> string \<Rightarrow> string \<Rightarrow> json"
where
  "BuildRunJSON jid attempt vd time_ms mem_kb sig sb_error code st_text err_msg =
     (let obj = put ''exit_code'' (JInt code)
        (put ''memory_used'' (JInt mem_kb)
        (put ''time_used'' (JInt time_ms)
        (put ''status'' (JStr st_text)
        (put ''sandbox_error'' (JStr sb_error)
        (put ''exit_signal'' (JInt sig)
        (put ''mem_kb'' (JInt mem_kb)
        (put ''time_ms'' (JInt time_ms)
        (put ''verdict'' (JStr vd)
        (put ''attempt_id'' (JInt attempt)
        (put ''job_id'' (JStr jid)
        (put ''schema_version'' (JInt 1) [])))))))))))
      in if err_msg \<noteq> [] then put ''error'' (JStr err_msg) obj else obj)"

definition EmitJSONLine :: "(json \<Rightarrow> string option) \<Rightarrow> json \<Rightarrow> unit prog" where
  "EmitJSONLine dump obj =
     (case dump obj of
        None \<Rightarrow> Stop (Threw Json_Exception)
      | Some line \<Rightarrow> emit (Stdout (line @ [CHR 0x0A])))"

text \<open>The object that \<^verbatim>\<open>EmitRunSystemError\<close> emits.\<close>

definition run_error_json :: "ExecutionConfig \<Rightarrow> string \<Rightarrow> string \<Rightarrow> json" where
  "run_error_json config sb_error err_msg =
     BuildRunJSON (run_job_id config) (attempt_id config) ''SE'' 0 0 0 sb_error 0 ''System Error'' err_msg"

subsection \<open>Options\<close>

text \<open>What \<^verbatim>\<open>getopt_long\<close> returns: a short option, or the number of a long one; \<^verbatim>\<open>'?'\<close> for errors.\<close>

datatype option_id = Short char | Long nat

text \<open>One option: an exit status, or the new configuration of the run and of the runner.\<close>

definition apply_option ::
  "'n yaml \<Rightarrow> (string \<Rightarrow> 'n option) \<Rightarrow> option_id \<Rightarrow> string \<Rightarrow> ExecutionConfig \<times> GlobalConfig \<Rightarrow>
   (int + ExecutionConfig \<times> GlobalConfig) prog"
where
  "apply_option y LoadFile opt arg s =
     (case s of (c, g) \<Rightarrow>
      (case opt of
         Short ch \<Rightarrow>
           if ch = CHR ''s'' then Done (Inr (c\<lparr>src_path := arg\<rparr>, g))
           else if ch = CHR ''r'' then Done (Inr (c\<lparr>request_id := arg\<rparr>, g))
           else if ch = CHR ''c'' then Done (Inr (c\<lparr>code_path := arg\<rparr>, g))
           else if ch = CHR ''t'' then
             (case stoi arg of Inl e \<Rightarrow> Stop (Threw e) | Inr v \<Rightarrow> Done (Inr (c\<lparr>time_limit := v\<rparr>, g)))
           else if ch = CHR ''m'' then
             (case stoi arg of Inl e \<Rightarrow> Stop (Threw e) | Inr v \<Rightarrow> Done (Inr (c\<lparr>memory_limit := v\<rparr>, g)))
           else if ch = CHR ''i'' then Done (Inr (c\<lparr>input_path := arg\<rparr>, g))
           else if ch = CHR ''o'' then Done (Inr (c\<lparr>output_path := arg\<rparr>, g))
           else if ch = CHR ''e'' then Done (Inr (c\<lparr>error_path := arg\<rparr>, g))
           else if ch = CHR ''w'' then Done (Inr (c\<lparr>work_dir := arg\<rparr>, g))
           else if ch = CHR ''C'' then
             (case LoadConfig y LoadFile arg of Inl e \<Rightarrow> Stop (Exited 1) | Inr g' \<Rightarrow> Done (Inr (c, g')))
           else if ch = CHR ''h'' then Done (Inl 0)
           else Done (Inl 1)
       | Long j \<Rightarrow>
           if j = 1 then Done (Inr (c\<lparr>compile_only := True\<rparr>, g))
           else if j = 2 then Done (Inr (c\<lparr>cleanup_only := True\<rparr>, g))
           else if j = 3 then Done (Inr (c\<lparr>run_job_id := arg\<rparr>, g))
           else if j = 4 then
             (case ParseAttemptID arg of
                None \<Rightarrow> Done (Inr (c\<lparr>attempt_id := -1\<rparr>, g))
              | Some v \<Rightarrow> Done (Inr (c\<lparr>attempt_id := v, attempt_explicit := True\<rparr>, g)))
           else if j = 5 then Done (Inr (c\<lparr>self_test := True\<rparr>, g))
           else Done (Inl 1)))"

fun parse_options ::
  "'n yaml \<Rightarrow> (string \<Rightarrow> 'n option) \<Rightarrow> (option_id \<times> string) list \<Rightarrow> ExecutionConfig \<times> GlobalConfig \<Rightarrow>
   (int + ExecutionConfig \<times> GlobalConfig) prog"
where
  "parse_options y LoadFile [] s = Done (Inr s)"
| "parse_options y LoadFile ((opt, arg) # rest) s =
     pbind (apply_option y LoadFile opt arg s) (\<lambda>r.
       case r of Inl code \<Rightarrow> Done (Inl code) | Inr s' \<Rightarrow> parse_options y LoadFile rest s')"

subsection \<open>Modes\<close>

text \<open>A mode ends with an answer to print, if any, and the exit status.\<close>

definition self_test_answer :: "ExecutionConfig \<Rightarrow> json" where
  "self_test_answer config =
     (let missing_job_id = run_job_id config = [];
          missing_attempt_id = \<not> attempt_explicit config
      in if missing_job_id \<or> missing_attempt_id then
           BuildRunJSON (run_job_id config) (if missing_attempt_id then -1 else attempt_id config) ''SE'' 0 0 0
             (if missing_job_id then ''missing_job_id'' else ''missing_attempt_id'') 0 ''System Error''
             (if missing_job_id then ''missing required --job_id/JUDGE_JOB_ID''
              else ''missing required --attempt_id/JUDGE_ATTEMPT_ID'')
         else BuildRunJSON (run_job_id config) (attempt_id config) ''OK'' 1 64 0 [] 0 ''Finished'' [])"

definition invalid_config_answer :: "ExecutionConfig \<Rightarrow> string \<Rightarrow> json" where
  "invalid_config_answer config cfg_err =
     (if code_path config \<noteq> [] \<or> input_path config \<noteq> [] \<or> output_path config \<noteq> []
      then run_error_json config ''config_invalid'' cfg_err
      else put ''error'' (JStr cfg_err) (put ''status'' (JStr ''System Error'') (put ''schema_version'' (JInt 1) [])))"

definition cleanup_mode :: "string \<Rightarrow> ExecutionConfig \<Rightarrow> (json option \<times> int) prog" where
  "cleanup_mode temp_dir config =
     (if request_id config = [] then Done (None, 1)
      else pbind (Cleanup temp_dir (request_id config)) (\<lambda>_.
        Done (Some (put ''request_id'' (JStr (request_id config))
                (put ''status'' (JStr ''Cleaned'') (put ''schema_version'' (JInt 1) []))), 0)))"

definition compile_answer :: "CompileResult \<Rightarrow> json" where
  "compile_answer cres =
     (let obj = put ''schema_version'' (JInt 1) []
      in if success cres
         then put ''exe_path'' (JStr (res_exe_path cres)) (put ''status'' (JStr ''Compiled'') obj)
         else put ''error'' (JStr (comp_error_message cres)) (put ''status'' (JStr ''Compile Error'') obj))"

definition compile_mode ::
  "GlobalConfig \<Rightarrow> nat \<Rightarrow> nat \<Rightarrow> string \<Rightarrow> ExecutionConfig \<Rightarrow> (json option \<times> int) prog"
where
  "compile_mode g n k temp_dir config =
     (if src_path config = [] \<or> request_id config = [] then Done (None, 1)
      else Call (Read_File (src_path config)) (\<lambda>a.
        case body a of
          None \<Rightarrow> Done (None, 1)
        | Some source_code \<Rightarrow>
            pbind (Compile g n k temp_dir (request_id config) source_code) (\<lambda>cres.
              Done (Some (compile_answer cres), if success cres then 0 else 2))))"

definition run_answer :: "ExecutionConfig \<Rightarrow> RunResult \<Rightarrow> json" where
  "run_answer config rres =
     (let mapped = ToVerdictAndStatus (status rres);
          sb_error = (if verdict mapped = ''SE'' \<and> sandbox_error rres = [] then ''system_error''
                      else sandbox_error rres)
      in BuildRunJSON (run_job_id config) (attempt_id config) (verdict mapped) (time_used rres)
           (memory_used rres) (exit_signal rres) sb_error (exit_code rres) (status_text mapped)
           (error_message rres))"

definition run_mode :: "GlobalConfig \<Rightarrow> nat \<Rightarrow> nat \<Rightarrow> ExecutionConfig \<Rightarrow> (json option \<times> int) prog" where
  "run_mode g n k config =
     (if code_path config = [] \<or> input_path config = [] \<or> output_path config = [] then
        Done (Some (run_error_json config ''missing_run_args'' ''run mode requires -c, -i and -o''), 1)
      else if run_job_id config = [] then
        Done (Some (run_error_json config ''missing_job_id'' ''missing required --job_id/JUDGE_JOB_ID''), 1)
      else if \<not> attempt_explicit config then
        Done (Some (run_error_json config ''missing_attempt_id''
          ''missing required --attempt_id/JUDGE_ATTEMPT_ID''), 1)
      else
        let wd = (if work_dir config = [] then parent_path (code_path config) else work_dir config);
            ep = (if error_path config = [] then path_join wd ''stderr.txt'' else error_path config)
        in pbind (Run g n k (code_path config) (input_path config) (output_path config) ep
             (time_limit config) (memory_limit config)) (\<lambda>rres.
           Done (Some (run_answer config rres), 0)))"

definition after_options ::
  "nat \<Rightarrow> nat \<Rightarrow> ExecutionConfig \<Rightarrow> GlobalConfig \<Rightarrow> (json option \<times> int) prog"
where
  "after_options n k config0 g =
     pbind (FillRunMetaFromEnv config0) (\<lambda>config.
     if self_test config then Done (Some (self_test_answer config), 0)
     else pbind (ValidateConfig g) (\<lambda>bad.
       case bad of
         Some cfg_err \<Rightarrow> Done (Some (invalid_config_answer config cfg_err), 1)
       | None \<Rightarrow>
           pbind (Sandbox_new (workspace_root g)) (\<lambda>temp_dir.
             if cleanup_only config then cleanup_mode temp_dir config
             else if compile_only config \<or> src_path config \<noteq> [] then compile_mode g n k temp_dir config
             else run_mode g n k config)))"

definition main ::
  "'n yaml \<Rightarrow> (string \<Rightarrow> 'n option) \<Rightarrow> (json \<Rightarrow> string option) \<Rightarrow> nat \<Rightarrow> nat \<Rightarrow> (option_id \<times> string) list \<Rightarrow> int prog"
where
  "main y LoadFile dump n k opts =
     pbind (parse_options y LoadFile opts (default_execution, zero_config)) (\<lambda>r.
       case r of
         Inl code \<Rightarrow> Done code
       | Inr (config, g) \<Rightarrow>
           pbind (after_options n k config g) (\<lambda>(answer, code).
           pbind (case answer of None \<Rightarrow> Done () | Some obj \<Rightarrow> EmitJSONLine dump obj) (\<lambda>_.
             Done code)))"


lemmas engine_defs [prog_defs] =
  FillRunMetaFromEnv_def ValidateConfig_def EmitJSONLine_def cleanup_mode_def compile_mode_def run_mode_def
  after_options_def main_def

subsection \<open>What is printed\<close>

text \<open>The texts a trace writes to the standard output.\<close>

definition printed :: "event list \<Rightarrow> string list" where
  "printed tr = concat (map (\<lambda>e. case fst e of Stdout s \<Rightarrow> [s] | _ \<Rightarrow> []) tr)"

definition mute :: "call \<Rightarrow> bool" where
  "mute c \<longleftrightarrow> (case c of Stdout s \<Rightarrow> False | _ \<Rightarrow> True)"

lemma printed_simps [simp]:
  "printed [] = []" "printed (t @ u) = printed t @ printed u" "printed ((Stdout s, a) # t) = s # printed t"
  "mute c \<Longrightarrow> printed ((c, a) # t) = printed t"
  by (auto simp: printed_def mute_def split: call.splits)

lemma mute_printed: "\<forall>e \<in> set tr. mute (fst e) \<Longrightarrow> printed tr = []"
  by (induction tr) auto

text \<open>Calls that neither print nor clone a run child.\<close>

definition preparing :: "call \<Rightarrow> bool" where
  "preparing c \<longleftrightarrow> mute c \<and> (\<forall>a f. c \<noteq> Clone (Run_Child a) f)"

lemma preparing_simps [simp]:
  "preparing (Clone (Compile_Child a) f)" "preparing (Kill pid s)" "preparing (Waitpid pid fg)" "preparing (Wait4 pid fg)"
  "preparing Clock_Now" "preparing (Sleep_Ms t)" "preparing (Strerror e)" "preparing (Strsignal e)"
  "preparing (Ofs_Open p)" "preparing (Ofs_Put p v)" "preparing (Ofs_Close p)" "preparing (Read_File p)"
  "preparing (Fs_Exists p)" "preparing (Fs_Create_Directories p)" "preparing (Fs_Remove_All p)"
  "preparing (Chown p u g)" "preparing (Fs_Permissions p m)" "preparing (Access p j)" "preparing (Getenv v)"
  by (simp_all add: preparing_def mute_def)

lemma parent_call_mute: "parent_call c \<Longrightarrow> mute c"
  by (auto simp: parent_call_def mute_def split: call.splits)

abbreviation prepares :: "'a prog \<Rightarrow> bool" where
  "prepares \<equiv> every preparing (\<lambda>_. True) (\<lambda>_. True)"

lemma prepares_Compile: "prepares (Compile cfg n k temp_dir i src)"
proof -
  have w: "prepares (compile_wait n k start lim_ms p)" for start lim_ms p
    by (induction k)
      (auto simp: wait_nonblock_def wait_block_def intro!: every_unit_pbind every_guard_wait every_guard_kill)
  have r: "prepares (compile_result x l r st)" for x l r st
    by (auto simp: compile_result_def read_log_def)
  have c: "prepares (compile_child cfg n k d r)" for d r
    unfolding compile_child_def
    by (auto intro!: every_unit_pbind every_process_cleanup w r split: sum.split)
  have g: "prepares (compile_guarded cfg n k d r)" for d r
    by (auto simp: compile_guarded_def directory_cleanup_def Let_def intro!: every_unit_pbind c)
  have p: "prepares (compile_prepare cfg d src)" for d
    by (auto simp: compile_prepare_def write_source_def intro!: every_unit_pbind split: sum.split)
  show ?thesis by (auto simp: Compile_def Let_def intro!: every_unit_pbind p g split: sum.split)
qed

lemma mute_Run: "every mute (\<lambda>_. True) (\<lambda>_. True) (Run cfg n k x inp outp errp tlim ml)"
proof -
  have c: "every mute (\<lambda>_. True) (\<lambda>_. True) (run_cloned cfg n k args outp errp tlim ml)" for args outp errp
    by (rule every_mono [OF parental_run_cloned parent_call_mute])
  have fd: "every mute (\<lambda>_. True) (\<lambda>_. True) (with_fd get f)"
    if "every mute (\<lambda>_. True) (\<lambda>_. True) get" "\<And>d. every mute (\<lambda>_. True) (\<lambda>_. True) (f d)"
    for get and f :: "int \<Rightarrow> RunResult prog"
    unfolding with_fd_def using that
    by (intro every_unit_pbind every_pfinally) (auto simp: auto_close_def mute_def)
  have o: "every mute (\<lambda>_. True) (\<lambda>_. True) (open_or_null p fg m d)" for p fg m d
    by (auto simp: open_or_null_def mute_def intro!: every_unit_pbind)
  show ?thesis
    unfolding Run_def by (auto simp: mute_def intro!: fd o c every_unit_pbind)
qed


text \<open>An answer object: its keys are distinct and it carries the version of the protocol.\<close>

definition wf_answer :: "json \<Rightarrow> bool" where
  "wf_answer obj \<longleftrightarrow> distinct (map fst obj) \<and> map_of obj ''schema_version'' = Some (JInt 1)"

lemma map_of_put [simp]: "map_of (put k v obj) q = (if q = k then Some v else map_of obj q)"
  by (induction obj) (auto simp: put_def map_add_def split: option.splits)

lemma keys_put [simp]: "map fst (put k v obj) = filter (\<lambda>q. q \<noteq> k) (map fst obj) @ [k]"
  by (induction obj) (auto simp: put_def)

lemma wf_put: "distinct (map fst obj) \<Longrightarrow> distinct (map fst (put k v obj))"
  by simp

lemma map_of_BuildRunJSON:
  "map_of (BuildRunJSON jid n vd ms kb sg sb code st err) q =
     (if q = ''error'' \<and> err \<noteq> [] then Some (JStr err)
      else map_of [(''schema_version'', JInt 1), (''job_id'', JStr jid), (''attempt_id'', JInt n), (''verdict'', JStr vd),
        (''time_ms'', JInt ms), (''mem_kb'', JInt kb), (''exit_signal'', JInt sg), (''sandbox_error'', JStr sb),
        (''status'', JStr st), (''time_used'', JInt ms), (''memory_used'', JInt kb), (''exit_code'', JInt code)] q)"
  by (cases "err = []") (simp_all add: BuildRunJSON_def Let_def put_def)

lemma keys_BuildRunJSON:
  "map fst (BuildRunJSON jid n vd ms kb sg sb code st err) =
     [''schema_version'', ''job_id'', ''attempt_id'', ''verdict'', ''time_ms'', ''mem_kb'', ''exit_signal'',
      ''sandbox_error'', ''status'', ''time_used'', ''memory_used'', ''exit_code''] @
     (if err \<noteq> [] then [''error''] else [])"
  by (simp add: BuildRunJSON_def)

lemma wf_BuildRunJSON [simp]: "wf_answer (BuildRunJSON jid n vd ms kb sg sb code st err)"
  unfolding wf_answer_def keys_BuildRunJSON map_of_BuildRunJSON by simp

lemma wf_answers [simp]:
  "wf_answer (self_test_answer c)" "wf_answer (run_error_json c e m)" "wf_answer (run_answer c r)"
  "wf_answer (invalid_config_answer c m)" "wf_answer (compile_answer cr)"
  by (simp_all add: self_test_answer_def run_error_json_def run_answer_def Let_def)
    (simp_all add: invalid_config_answer_def run_error_json_def compile_answer_def Let_def
      wf_answer_def [of "put _ _ _"] del: map_of.simps)

definition mode_result :: "json option \<times> int \<Rightarrow> bool" where
  "mode_result x \<longleftrightarrow>
     (case x of (answer, code) \<Rightarrow>
        code \<in> {0, 1, 2} \<and> (case answer of None \<Rightarrow> code = 1 | Some obj \<Rightarrow> wf_answer obj))"

abbreviation speaks :: "(json option \<times> int) prog \<Rightarrow> bool" where
  "speaks \<equiv> every mute (\<lambda>_. True) mode_result"

lemma prepares_mute: "prepares p \<Longrightarrow> every mute (\<lambda>_. True) (\<lambda>_. True) p"
  by (erule every_mono) (simp_all add: preparing_def)

lemma prepares_early:
  "prepares (FillRunMetaFromEnv c)" "prepares (ValidateConfig g)" "prepares (Sandbox_new d)" "prepares (Cleanup d i)"
  by (auto simp: FillRunMetaFromEnv_def ValidateConfig_def Sandbox_new_def Cleanup_def fs_exists_throwing_def
      intro!: every_unit_pbind split: option.split)

lemma speaks_modes:
  "speaks (cleanup_mode d c)" "speaks (compile_mode g n k d c)" "speaks (run_mode g n k c)"
proof -
  show "speaks (cleanup_mode d c)"
    by (auto simp: cleanup_mode_def mode_result_def wf_answer_def intro!: every_unit_pbind prepares_mute [OF prepares_early(4)])
  show "speaks (compile_mode g n k d c)"
    by (auto simp: compile_mode_def mode_result_def mute_def
        intro!: every_unit_pbind prepares_mute [OF prepares_Compile] split: option.split)
  show "speaks (run_mode g n k c)"
    by (auto simp: run_mode_def mode_result_def Let_def intro!: every_unit_pbind mute_Run)
qed

lemma speaks_after_options: "speaks (after_options n k c g)"
  unfolding after_options_def
  by (auto simp: mode_result_def [of "(Some _, _)"] intro!: every_unit_pbind speaks_modes prepares_mute [OF prepares_early(1)]
      prepares_mute [OF prepares_early(2)] prepares_mute [OF prepares_early(3)] split: option.split)

lemma parse_options_mute:
  "every mute (\<lambda>_. True) (\<lambda>r. \<forall>code. r = Inl code \<longrightarrow> code = 0 \<or> code = 1) (parse_options y L opts s)"
proof (induction opts arbitrary: s)
  case (Cons o_a opts)
  obtain opt arg where oa: "o_a = (opt, arg)" by (cases o_a)
  have "every mute (\<lambda>_. True) (\<lambda>r. \<forall>code. r = Inl code \<longrightarrow> code = 0 \<or> code = 1) (apply_option y L opt arg s)"
    by (auto simp: apply_option_def split: prod.split option_id.split sum.split option.split)
  then show ?case
    unfolding oa parse_options.simps every_pbind by (rule every_mono) (auto simp: Cons.IH split: sum.split)
qed simp


definition answer_out :: "(json \<Rightarrow> string option) \<Rightarrow> json option \<Rightarrow> int \<Rightarrow> int prog" where
  "answer_out dump answer code =
     pbind (case answer of None \<Rightarrow> Done () | Some obj \<Rightarrow> EmitJSONLine dump obj) (\<lambda>_. Done code)"

lemma runs_mainE:
  assumes "runs (main y LoadFile dump n k opts) tr r"
  obtains (stop) s where "r = Stopped s" "printed tr = []"
    | (early) code where "r = Ret code" "code = 0 \<or> code = 1" "printed tr = []"
        "runs (parse_options y LoadFile opts (default_execution, zero_config)) tr (Ret (Inl code))"
    | (fin) c g t v w answer code where "tr = t @ v @ w" "printed t = []" "printed v = []"
        "runs (parse_options y LoadFile opts (default_execution, zero_config)) t (Ret (Inr (c, g)))"
        "runs (after_options n k c g) v (Ret (answer, code))" "mode_result (answer, code)"
        "runs (answer_out dump answer code) w r"
proof -
  let ?opts = "parse_options y LoadFile opts (default_execution, zero_config)"
  let ?go = "\<lambda>(config, g). pbind (after_options n k config g) (\<lambda>(answer, code). answer_out dump answer code)"
  have silent: "printed t = []" if "runs p t q" "every mute E R p" for p :: "'x prog" and t q E R
    using every_calls [OF that] mute_printed by blast
  have main: "main y LoadFile dump n k opts = pbind ?opts (\<lambda>r. case r of Inl code \<Rightarrow> Done code | Inr x \<Rightarrow> ?go x)"
    unfolding main_def answer_out_def by (rule arg_cong [of _ _ "pbind ?opts"]) (auto split: sum.split)
  from runs_pbindD [OF assms [unfolded main]] show thesis
  proof (elim disjE exE conjE)
    fix s assume "r = Stopped s" "runs ?opts tr (Stopped s)"
    with silent [OF this(2) parse_options_mute] show thesis by (intro stop)
  next
    fix x t u assume x: "runs ?opts t (Ret x)" and u: "runs (case x of Inl code \<Rightarrow> Done code | Inr x \<Rightarrow> ?go x) u r"
      and tr: "tr = t @ u"
    note t = silent [OF x parse_options_mute]
    show thesis
    proof (cases x)
      case (Inl code)
      with x u tr t every_rets [OF x parse_options_mute] show thesis by (intro early [of code]) auto
    next
      case (Inr cg)
      obtain c g where cg: "cg = (c, g)" by (cases cg)
      have "runs (pbind (after_options n k c g) (\<lambda>(answer, code). answer_out dump answer code)) u r"
        using u Inr cg by simp
      from runs_pbindD [OF this] show thesis
      proof (elim disjE exE conjE)
        fix s assume "r = Stopped s" "runs (after_options n k c g) u (Stopped s)"
        with silent [OF this(2) speaks_after_options] show thesis using t tr by (intro stop) simp_all
      next
        fix z v w assume z: "runs (after_options n k c g) v (Ret z)"
          and w: "runs (case z of (answer, code) \<Rightarrow> answer_out dump answer code) w r" and u: "u = v @ w"
        from z w tr u t x Inr cg silent [OF z speaks_after_options] every_rets [OF z speaks_after_options]
        show thesis by (cases z) (intro fin [of t v w], simp_all)
      qed
    qed
  qed
qed

text \<open>
  C23. The protocol with the worker. Whatever the system answers, the program prints at most one text, a
  single JSON line, as its very last action; the object has distinct keys and the version of the
  protocol, and the exit status is 0, 1 or 2. It prints nothing only if it leaves with status 1 or
  after \<^verbatim>\<open>-h\<close>, and if it stops by an exception or an early exit.
\<close>

theorem main_prints_one_line:
  assumes "runs (main y LoadFile dump n k opts) tr r"
  shows "case r of
      Stopped s \<Rightarrow> printed tr = []
    | Ret code \<Rightarrow>
        (\<exists>t obj line a. tr = t @ [(Stdout (line @ [CHR 0x0A]), a)] \<and> printed t = [] \<and>
           dump obj = Some line \<and> wf_answer obj \<and> code \<in> {0, 1, 2}) \<or>
        printed tr = [] \<and>
          (code = 1 \<or> code = 0 \<and> runs (parse_options y LoadFile opts (default_execution, zero_config)) tr (Ret (Inl 0)))"
  using assms
proof (cases rule: runs_mainE)
  case (stop s)
  then show ?thesis by simp
next
  case (early code)
  then show ?thesis by auto
next
  case (fin c g t v w answer code)
  show ?thesis
  proof (cases answer)
    case None
    with fin show ?thesis by (simp add: mode_result_def answer_out_def)
  next
    case obj: (Some obj)
    show ?thesis
    proof (cases "dump obj")
      case None
      with obj fin show ?thesis by (simp add: EmitJSONLine_def answer_out_def)
    next
      case (Some line)
      with obj fin(7) obtain a where "w = [(Stdout (line @ [CHR 0x0A]), a)]" "r = Ret code"
        by (auto simp: EmitJSONLine_def emit_def runs_Call_iff answer_out_def)
      with Some obj fin have "tr = (t @ v) @ [(Stdout (line @ [CHR 0x0A]), a)] \<and> printed (t @ v) = [] \<and>
           dump obj = Some line \<and> wf_answer obj \<and> code \<in> {0, 1, 2}"
        by (simp add: mode_result_def)
      then have "\<exists>t obj line a. tr = t @ [(Stdout (line @ [CHR 0x0A]), a)] \<and> printed t = [] \<and>
           dump obj = Some line \<and> wf_answer obj \<and> code \<in> {0, 1, 2}" by (intro exI)
      then show ?thesis using \<open>r = Ret code\<close> by simp
    qed
  qed
qed


theorem main_prints_one_line_witness:
  "\<exists>tr obj. runs (main ynode_ops (\<lambda>_. Some sample_doc) (\<lambda>_. Some ''{}'') 1 1 []) tr (Ret 1) \<and>
     printed tr = [''{}'' @ [CHR 0x0A]] \<and> wf_answer obj"
proof -
  let ?p = "main ynode_ops (\<lambda>_. Some sample_doc) (\<lambda>_. Some ''{}'') 1 1 []"
  let ?tr = "[(Getenv ''JUDGE_JOB_ID'', ans 0), (Getenv ''JUDGE_ATTEMPT_ID'', ans 0),
    (Stdout (''{}'' @ [CHR 0x0A]), ans 0)]"
  have run: "runs ?p ?tr (Ret 1)"
    by (simp add: main_def after_options_def FillRunMetaFromEnv_def ValidateConfig_def default_execution_def
        zero_config_def EmitJSONLine_def emit_def)
  from main_prints_one_line [OF run] obtain obj where "wf_answer obj" by (auto simp: mute_def)
  moreover have "printed ?tr = [''{}'' @ [CHR 0x0A]]" by (simp add: mute_def)
  ultimately show ?thesis using run by (intro exI [of _ ?tr] exI [of _ obj] conjI)
qed

subsection \<open>When a submission is run\<close>

lemma prepares_events: "runs p tr r \<Longrightarrow> prepares p \<Longrightarrow> (Clone (Run_Child a) f, b) \<notin> set tr"
  using every_calls [of p tr r preparing _ _ "(Clone (Run_Child a) f, b)"] by (auto simp: preparing_def)

lemma ValidateConfig_None:
  assumes "runs (ValidateConfig g) tr (Ret None)"
  shows "workspace_root g \<noteq> [] \<and> compiler_path g \<noteq> [] \<and>
   (\<exists>x y. tr = [(Fs_Exists (workspace_root g), x), (Access (compiler_path g) 1, y)] \<and> er x = 0 \<and> rv x \<noteq> 0 \<and> rv y = 0)"
  using assms by (auto simp: ValidateConfig_def runs_Call_iff fs_exists_throwing_def split: if_splits elim!: runs_pbind_RetE)

lemma runs_Sandbox_new:
  "runs (Sandbox_new d) tr (Ret d') \<Longrightarrow> d' = d \<and> (\<exists>a. tr = [(Fs_Create_Directories d, a)] \<and> er a = 0)"
  by (auto simp: Sandbox_new_def runs_Call_iff split: if_splits)

lemma run_mode_clones:
  assumes "runs (run_mode g n k c) tr r" "(Clone (Run_Child a) f, b) \<in> set tr"
  shows "code_path c \<noteq> [] \<and> input_path c \<noteq> [] \<and> output_path c \<noteq> [] \<and> run_job_id c \<noteq> [] \<and> attempt_explicit c"
  using assms by (auto simp: run_mode_def Let_def split: if_splits)

text \<open>
  C24. A submission is run only when everything it needs is known: if a run child is cloned, then before
  it, after the environment was asked and with nothing in between, the workspace of the configuration
  was found to exist, its compiler to be executable, and the workspace was made ready; the code,
  input and output paths are given, the job and the attempt are identified by the command line or the
  environment, and none of the other modes was asked for.
\<close>

theorem run_child_only_when_ready:
  assumes "runs (after_options n k c0 g) tr r" "(Clone (Run_Child a) f, b) \<in> set tr"
  shows "\<exists>t c x y z u. runs (FillRunMetaFromEnv c0) t (Ret c) \<and>
    tr = t @ [(Fs_Exists (workspace_root g), x), (Access (compiler_path g) 1, y),
              (Fs_Create_Directories (workspace_root g), z)] @ u \<and>
    (Clone (Run_Child a) f, b) \<notin> set t \<and> (Clone (Run_Child a) f, b) \<in> set u \<and>
    workspace_root g \<noteq> [] \<and> er x = 0 \<and> rv x \<noteq> 0 \<and> compiler_path g \<noteq> [] \<and> rv y = 0 \<and> er z = 0 \<and>
    code_path c \<noteq> [] \<and> input_path c \<noteq> [] \<and> output_path c \<noteq> [] \<and> run_job_id c \<noteq> [] \<and> attempt_explicit c \<and>
    \<not> self_test c \<and> \<not> cleanup_only c \<and> \<not> compile_only c \<and> src_path c = []"
proof -
  note quiet = prepares_events [OF _ prepares_early(1)] prepares_events [OF _ prepares_early(2)]
    prepares_events [OF _ prepares_early(3)]
  let ?modes = "\<lambda>c temp_dir. if cleanup_only c then cleanup_mode temp_dir c
             else if compile_only c \<or> src_path c \<noteq> [] then compile_mode g n k temp_dir c
             else run_mode g n k c"
  let ?valid = "\<lambda>c. pbind (ValidateConfig g) (\<lambda>bad. case bad of
         Some cfg_err \<Rightarrow> Done (Some (invalid_config_answer c cfg_err), 1)
       | None \<Rightarrow> pbind (Sandbox_new (workspace_root g)) (?modes c))"
  from runs_pbindD [OF assms(1) [unfolded after_options_def]] assms(2) quiet(1)
  obtain c t u where t: "runs (FillRunMetaFromEnv c0) t (Ret c)" "tr = t @ u"
    and u: "runs (if self_test c then Done (Some (self_test_answer c), 0) else ?valid c) u r"
    and b: "(Clone (Run_Child a) f, b) \<in> set u"
    by fastforce
  from u b have st: "\<not> self_test c" and u: "runs (?valid c) u r" by (auto split: if_splits)
  from runs_pbindD [OF u] b quiet(2)
  obtain bad v w where v: "runs (ValidateConfig g) v (Ret bad)" "u = v @ w"
    and w: "runs (case bad of Some cfg_err \<Rightarrow> Done (Some (invalid_config_answer c cfg_err), 1)
       | None \<Rightarrow> pbind (Sandbox_new (workspace_root g)) (?modes c)) w r"
    and b: "(Clone (Run_Child a) f, b) \<in> set w"
    by fastforce
  from w b have bad: "bad = None" and w: "runs (pbind (Sandbox_new (workspace_root g)) (?modes c)) w r"
    by (cases bad; simp)+
  from runs_pbindD [OF w] b quiet(3)
  obtain d sx z where sx: "runs (Sandbox_new (workspace_root g)) sx (Ret d)" "w = sx @ z"
    and z: "runs (?modes c d) z r" and b: "(Clone (Run_Child a) f, b) \<in> set z"
    by fastforce
  have "prepares (cleanup_mode d c)" "prepares (compile_mode g n k d c)"
    by (auto simp: cleanup_mode_def compile_mode_def intro!: every_unit_pbind prepares_early prepares_Compile
        split: option.split)
  with z b have m: "\<not> cleanup_only c \<and> \<not> compile_only c \<and> src_path c = [] \<and> runs (run_mode g n k c) z r"
    by (auto split: if_splits dest: prepares_events)
  from ValidateConfig_None [OF v(1) [unfolded bad]] obtain x y where
    val: "v = [(Fs_Exists (workspace_root g), x), (Access (compiler_path g) 1, y)]"
      "workspace_root g \<noteq> []" "compiler_path g \<noteq> []" "er x = 0" "rv x \<noteq> 0" "rv y = 0" by blast
  from runs_Sandbox_new [OF sx(1)] obtain q where q: "sx = [(Fs_Create_Directories (workspace_root g), q)]" "er q = 0"
    by blast
  have "tr = t @ [(Fs_Exists (workspace_root g), x), (Access (compiler_path g) 1, y),
      (Fs_Create_Directories (workspace_root g), q)] @ z"
    by (simp add: t(2) v(2) sx(2) val(1) q(1))
  moreover from m have "runs (run_mode g n k c) z r" by blast
  note ready = run_mode_clones [OF this b]
  ultimately show ?thesis
    using ready val(2-6) q(2) st t(1) quiet(1) [OF t(1)] b m
    by (intro exI [of _ t] exI [of _ c] exI [of _ x] exI [of _ y] exI [of _ q] exI [of _ z]) simp
qed


theorem run_child_only_when_ready_witness:
  "\<exists>tr a f b c t x y z u. runs (after_options 1 1 (default_execution\<lparr>code_path := ''/d/main'', input_path := ''/d/in'',
      output_path := ''/d/out'', run_job_id := ''j'', attempt_id := 1, attempt_explicit := True\<rparr>) sample_config) tr
      (Ret c) \<and> (Clone (Run_Child a) f, b) \<in> set tr \<and>
    tr = t @ [(Fs_Exists ''/data/workspace'', x), (Access ''/usr/bin/g++'' 1, y),
              (Fs_Create_Directories ''/data/workspace'', z)] @ u \<and> rv x \<noteq> 0 \<and> rv y = 0 \<and> er z = 0"
proof -
  let ?c = "default_execution\<lparr>code_path := ''/d/main'', input_path := ''/d/in'',
      output_path := ''/d/out'', run_job_id := ''j'', attempt_id := 1, attempt_explicit := True\<rparr>"
  let ?p = "after_options 1 1 ?c sample_config"
  have sc: "workspace_root sample_config = ''/data/workspace''" "compiler_path sample_config = ''/usr/bin/g++''"
    by (simp_all add: sample_config_def)
  have j: "path_join (parent_path ''/d/main'') ''stderr.txt'' = ''/d/stderr.txt''"
    by (simp add: parent_path_def strip_slashes_def path_join_def)
  let ?tr = "\<lambda>args. [(Fs_Exists ''/data/workspace'', ans 1), (Access ''/usr/bin/g++'' 1, ans 0),
       (Fs_Create_Directories ''/data/workspace'', ans 0),
       (Open ''/dev/null'' 2 0, ans 3), (Open ''/d/in'' 0 0, ans 4), (Open ''/d/out'' 577 420, ans 5),
       (Open ''/d/stderr.txt'' 577 420, ans 6),
       (Clone (Run_Child args) clone_flags, (ans (-1))\<lparr>er := 11\<rparr>), (Strerror 11, ans 0),
       (Close 6, ans 0), (Close 5, ans 0), (Close 4, ans 0), (Close 3, ans 0)]"
  obtain args r where run: "runs ?p (?tr args) (Ret r)"
    by (simp add: after_options_def FillRunMetaFromEnv_def ValidateConfig_def default_execution_def sc Let_def
        fs_exists_throwing_def Sandbox_new_def run_mode_def Run_def with_fd_def open_or_null_def run_cloned_def
        FormatSystemError_def auto_close_def emit_def text_of_def j)
  have "(Clone (Run_Child args) clone_flags, (ans (-1))\<lparr>er := 11\<rparr>) \<in> set (?tr args)" by simp
  moreover from run_child_only_when_ready [OF run this, unfolded sc] obtain t x y z u where
    "?tr args = t @ [(Fs_Exists ''/data/workspace'', x), (Access ''/usr/bin/g++'' 1, y),
       (Fs_Create_Directories ''/data/workspace'', z)] @ u" "rv x \<noteq> 0" "rv y = 0" "er z = 0" by blast
  ultimately show ?thesis using run by (intro exI conjI)
qed


subsection \<open>What an answer says\<close>

lemma ok_of_stoll_dec:
  "- (2 ^ 63) \<le> i \<Longrightarrow> i < 2 ^ 63 \<Longrightarrow> t = [] \<or> \<not> isdigit (hd t) \<Longrightarrow> ParseAttemptID (dec_int i @ t) = Some i"
  using scan_int_dec_int [of t i]
  by (auto simp: ParseAttemptID_def ok_of_def stoll_def sto_signed_def signed_val_def Let_def)

text \<open>
  C25. The attempt identifier survives the round trip. Any 64-bit number the worker prints in decimal, as
  an option or in the environment, is the number in the answer, also with anything but a digit after
  it; a number given as an option takes precedence over the environment, which is not even read.
\<close>

theorem attempt_id_roundtrip:
  assumes "- (2 ^ 63) \<le> i" "i < 2 ^ 63" "rest = [] \<or> \<not> isdigit (hd rest)" "run_job_id c \<noteq> []"
  shows "\<exists>c'. apply_option y LoadFile (Long 4) (dec_int i @ rest) (c, g) = Done (Inr (c', g)) \<and>
     FillRunMetaFromEnv c' = Done c' \<and> map_of (run_answer c' r) ''attempt_id'' = Some (JInt i) \<and>
     (attempt_explicit c \<or>
      runs (FillRunMetaFromEnv c) [(Getenv ''JUDGE_ATTEMPT_ID'', (ans 0)\<lparr>body := Some (dec_int i @ rest)\<rparr>)] (Ret c'))"
proof -
  let ?c = "c\<lparr>attempt_id := i, attempt_explicit := True\<rparr>"
  note p = ok_of_stoll_dec [OF assms(1-3)]
  have "map_of (run_answer ?c r) ''attempt_id'' = Some (JInt i)"
    by (simp add: run_answer_def Let_def map_of_BuildRunJSON)
  then show ?thesis
    using assms(4) p by (intro exI [of _ ?c]) (simp add: apply_option_def FillRunMetaFromEnv_def)
qed

theorem attempt_id_roundtrip_witness:
  "\<exists>c'. apply_option ynode_ops (\<lambda>_. None) (Long 4) (dec_int 42 @ ''abc'')
       (default_execution\<lparr>run_job_id := ''j''\<rparr>, zero_config) = Done (Inr (c', zero_config)) \<and>
     map_of (run_answer c' init_run_result) ''attempt_id'' = Some (JInt 42)"
proof -
  have "''abc'' = [] \<or> \<not> isdigit (hd ''abc'')" by (simp add: isdigit_def byte_of_def)
  from attempt_id_roundtrip [OF _ _ this, of 42 "default_execution\<lparr>run_job_id := ''j''\<rparr>" ynode_ops "\<lambda>_. None"
      zero_config init_run_result]
  show ?thesis by auto
qed

text \<open>The answer of a run that was watched to its end, by the way the submission ended.\<close>

lemma verdict_spec_cases:
  "verdict_spec ole mem t tlim ml marked e = TIME_LIMIT_EXCEEDED \<longleftrightarrow>
     \<not> ole \<and> mem \<le> ml \<and> (e = Killed SIGXCPU \<or> e = Killed SIGKILL \<and> tlim < t)"
  "verdict_spec ole mem t tlim ml marked e = MEMORY_LIMIT_EXCEEDED \<longleftrightarrow>
     \<not> ole \<and> (ml < mem \<or> (e = Killed SIGABRT \<or> e = Killed SIGSEGV) \<and> mle_threshold ml \<le> mem)"
  "verdict_spec ole mem t tlim ml marked e = OUTPUT_LIMIT_EXCEEDED \<longleftrightarrow>
     ole \<or> mem \<le> ml \<and> e = Killed SIGXFSZ"
  by (auto simp: verdict_spec_def split: ending.splits if_splits)

lemma run_answer_fields:
  "map_of (run_answer c r) ''verdict'' = Some (JStr (verdict (ToVerdictAndStatus (status r))))"
  "map_of (run_answer c r) ''status'' = Some (JStr (status_text (ToVerdictAndStatus (status r))))"
  by (simp_all add: run_answer_def Let_def map_of_BuildRunJSON)

lemma verdict_texts:
  "verdict (ToVerdictAndStatus s) = ''OK'' \<longleftrightarrow> s = OK" "verdict (ToVerdictAndStatus s) = ''TLE'' \<longleftrightarrow> s = TIME_LIMIT_EXCEEDED"
  "verdict (ToVerdictAndStatus s) = ''MLE'' \<longleftrightarrow> s = MEMORY_LIMIT_EXCEEDED"
  "verdict (ToVerdictAndStatus s) = ''OLE'' \<longleftrightarrow> s = OUTPUT_LIMIT_EXCEEDED"
  "verdict (ToVerdictAndStatus s) = ''SE'' \<longleftrightarrow> s = SYSTEM_ERROR"
  by (cases s; simp add: ToVerdictAndStatus_def)+

text \<open>
  C26. What the answer of a run says. It names the job and the attempt, and it spells the outcome as
  a short verdict and as the status text of the command line contract: OK and Finished, TLE and Time Limit Exceeded, MLE and Memory
  Limit Exceeded, OLE and Output Limit Exceeded, RE and Runtime Error, SE and System Error. Times,
  memory, signal and exit code are copied, under both of their names; a system error always carries a
  non-empty error code; a message is present exactly when there is one. From one end to the other: for
  a child that was watched to its end, with \<open>mem\<close> and \<open>ole\<close> read as in \<open>run_verdict\<close>, the answer is OK
  exactly when the process exited with 0 within both limits, TLE exactly when it was ended by
  \<^verbatim>\<open>SIGXCPU\<close>, or killed with more CPU time than its limit; MLE exactly when it used more memory than
  its limit, or aborted or crashed near it; and OLE exactly when the output is too long or \<^verbatim>\<open>SIGXFSZ\<close>
  ended it, output before memory before the rest.
\<close>

theorem run_answer_faithful:
  assumes "runs (finish_run cfg cg enabled outp errp tlim ml st ru) tr (Ret res)"
  shows "(\<forall>r. let a = map_of (run_answer c r) in
     a ''job_id'' = Some (JStr (run_job_id c)) \<and> a ''attempt_id'' = Some (JInt (attempt_id c)) \<and>
     (a ''verdict'', a ''status'') =
       (case status r of
          OK \<Rightarrow> (Some (JStr ''OK''), Some (JStr ''Finished''))
        | TIME_LIMIT_EXCEEDED \<Rightarrow> (Some (JStr ''TLE''), Some (JStr ''Time Limit Exceeded''))
        | MEMORY_LIMIT_EXCEEDED \<Rightarrow> (Some (JStr ''MLE''), Some (JStr ''Memory Limit Exceeded''))
        | OUTPUT_LIMIT_EXCEEDED \<Rightarrow> (Some (JStr ''OLE''), Some (JStr ''Output Limit Exceeded''))
        | RUNTIME_ERROR \<Rightarrow> (Some (JStr ''RE''), Some (JStr ''Runtime Error''))
        | SYSTEM_ERROR \<Rightarrow> (Some (JStr ''SE''), Some (JStr ''System Error''))) \<and>
     a ''time_ms'' = Some (JInt (time_used r)) \<and> a ''time_used'' = a ''time_ms'' \<and>
     a ''mem_kb'' = Some (JInt (memory_used r)) \<and> a ''memory_used'' = a ''mem_kb'' \<and>
     a ''exit_signal'' = Some (JInt (exit_signal r)) \<and> a ''exit_code'' = Some (JInt (exit_code r)) \<and>
     (\<exists>e. a ''sandbox_error'' = Some (JStr e) \<and> (status r \<noteq> SYSTEM_ERROR \<or> e \<noteq> []) \<and>
        (sandbox_error r = [] \<or> e = sandbox_error r)) \<and>
     (a ''error'' = None \<longleftrightarrow> error_message r = [])) \<and>
   (\<exists>mem ole t1 t2 u. tr = t1 @ t2 @ u \<and> reads_memory cg enabled ru t1 mem \<and>
     reads_output (max_output_size cfg) outp t2 ole \<and>
     (let v = map_of (run_answer c res) ''verdict'' in
       (v = Some (JStr ''OK'') \<longleftrightarrow> \<not> ole \<and> mem \<le> ml \<and> ending_of st = Ended 0) \<and>
       (v = Some (JStr ''TLE'') \<longleftrightarrow> \<not> ole \<and> mem \<le> ml \<and>
          (ending_of st = Killed SIGXCPU \<or> ending_of st = Killed SIGKILL \<and> tlim < cpu_time_used ru)) \<and>
       (v = Some (JStr ''MLE'') \<longleftrightarrow> \<not> ole \<and>
          (ml < mem \<or> (ending_of st = Killed SIGABRT \<or> ending_of st = Killed SIGSEGV) \<and> mle_threshold ml \<le> mem)) \<and>
       (v = Some (JStr ''OLE'') \<longleftrightarrow> ole \<or> mem \<le> ml \<and> ending_of st = Killed SIGXFSZ)))"
proof (rule conjI)
  show "\<forall>r. let a = map_of (run_answer c r) in
     a ''job_id'' = Some (JStr (run_job_id c)) \<and> a ''attempt_id'' = Some (JInt (attempt_id c)) \<and>
     (a ''verdict'', a ''status'') =
       (case status r of
          OK \<Rightarrow> (Some (JStr ''OK''), Some (JStr ''Finished''))
        | TIME_LIMIT_EXCEEDED \<Rightarrow> (Some (JStr ''TLE''), Some (JStr ''Time Limit Exceeded''))
        | MEMORY_LIMIT_EXCEEDED \<Rightarrow> (Some (JStr ''MLE''), Some (JStr ''Memory Limit Exceeded''))
        | OUTPUT_LIMIT_EXCEEDED \<Rightarrow> (Some (JStr ''OLE''), Some (JStr ''Output Limit Exceeded''))
        | RUNTIME_ERROR \<Rightarrow> (Some (JStr ''RE''), Some (JStr ''Runtime Error''))
        | SYSTEM_ERROR \<Rightarrow> (Some (JStr ''SE''), Some (JStr ''System Error''))) \<and>
     a ''time_ms'' = Some (JInt (time_used r)) \<and> a ''time_used'' = a ''time_ms'' \<and>
     a ''mem_kb'' = Some (JInt (memory_used r)) \<and> a ''memory_used'' = a ''mem_kb'' \<and>
     a ''exit_signal'' = Some (JInt (exit_signal r)) \<and> a ''exit_code'' = Some (JInt (exit_code r)) \<and>
     (\<exists>e. a ''sandbox_error'' = Some (JStr e) \<and> (status r \<noteq> SYSTEM_ERROR \<or> e \<noteq> []) \<and>
        (sandbox_error r = [] \<or> e = sandbox_error r)) \<and>
     (a ''error'' = None \<longleftrightarrow> error_message r = [])"
    unfolding Let_def run_answer_def map_of_BuildRunJSON
    by (intro allI) (simp add: verdict_texts ToVerdictAndStatus_def split: SandboxStatus.split)
next
  from finish_run_verdict [OF assms] obtain mem ole log t1 t2 t3 t4 where v: "tr = t1 @ t2 @ t3 @ t4"
    "reads_memory cg enabled ru t1 mem" "reads_output (max_output_size cfg) outp t2 ole"
    and "t3 = (if ole \<or> ml < mem \<or> errp = [] then [] else [(Read_File errp, log)])"
    and "list_all (\<lambda>e. \<exists>s. fst e = Strsignal s) t4"
    and st: "status res = verdict_spec ole mem (cpu_time_used ru) tlim ml (errp \<noteq> [] \<and> shows_marker log) (ending_of st)"
    and "time_used res = cpu_time_used ru" and "memory_used res = (if ole then ru_maxrss ru else mem)"
    and "sandbox_error res \<noteq> [] \<longleftrightarrow> status res = SYSTEM_ERROR" .
  have vd: "map_of (run_answer c res) ''verdict'' = Some (JStr w) \<longleftrightarrow> verdict (ToVerdictAndStatus (status res)) = w" for w
    by (simp only: run_answer_fields option.inject jval.inject)
  show "\<exists>mem ole t1 t2 u. tr = t1 @ t2 @ u \<and> reads_memory cg enabled ru t1 mem \<and>
     reads_output (max_output_size cfg) outp t2 ole \<and>
     (let v = map_of (run_answer c res) ''verdict'' in
       (v = Some (JStr ''OK'') \<longleftrightarrow> \<not> ole \<and> mem \<le> ml \<and> ending_of st = Ended 0) \<and>
       (v = Some (JStr ''TLE'') \<longleftrightarrow> \<not> ole \<and> mem \<le> ml \<and>
          (ending_of st = Killed SIGXCPU \<or> ending_of st = Killed SIGKILL \<and> tlim < cpu_time_used ru)) \<and>
       (v = Some (JStr ''MLE'') \<longleftrightarrow> \<not> ole \<and>
          (ml < mem \<or> (ending_of st = Killed SIGABRT \<or> ending_of st = Killed SIGSEGV) \<and> mle_threshold ml \<le> mem)) \<and>
       (v = Some (JStr ''OLE'') \<longleftrightarrow> ole \<or> mem \<le> ml \<and> ending_of st = Killed SIGXFSZ))"
    unfolding Let_def vd verdict_texts st verdict_spec_OK verdict_spec_cases
    using v by (intro exI conjI) (assumption | rule refl)+
qed

theorem run_answer_faithful_witness:
  "\<exists>res. runs (finish_run sample_config None False ''/o'' [] 1000 65536 0 zero_rusage)
     [(Fs_Exists ''/o'', ans 1), (Fs_File_Size ''/o'', ans 3)] (Ret res) \<and>
   map_of (run_answer default_execution res) ''verdict'' = Some (JStr ''OK'') \<and>
   map_of (run_answer default_execution res) ''status'' = Some (JStr ''Finished'')"
proof -
  let ?p = "finish_run sample_config None False ''/o'' [] 1000 65536 0 zero_rusage"
  let ?tr = "[(Fs_Exists ''/o'', ans 1), (Fs_File_Size ''/o'', ans 3)]"
  obtain res where run: "runs ?p ?tr (Ret res)" and ok: "status res = OK"
    by (simp add: finish_run_def measured_memory_def output_limit_hit_def output_exceeded_def sample_config_def
        ReadRunExecFailureMarker_def classify_status_def WIFEXITED_def WEXITSTATUS_def classify_exit_def
        zero_rusage_def Let_def)
  from run_answer_faithful [OF run, of default_execution, THEN conjunct1, THEN spec [of _ res]] ok
  have "map_of (run_answer default_execution res) ''verdict'' = Some (JStr ''OK'')"
    "map_of (run_answer default_execution res) ''status'' = Some (JStr ''Finished'')"
    by (simp_all add: Let_def)
  with run show ?thesis by blast
qed

end
