(* ===== verification/Stream_Hash.thy ===== *)
theory Stream_Hash
  imports Main
begin

text \<open>
  The interface of a hash function that takes its message in pieces: a start state, \<open>feed\<close> for the next
  piece and \<open>close\<close> for the digest. \<open>absorbed s m\<close> says that the state has taken in the message \<open>m\<close>; the
  laws hold for messages shorter than \<open>bound\<close>. What follows is that the pieces do not matter.
\<close>

locale stream_hash =
  fixes start :: 's
    and feed :: "'s \<Rightarrow> 'b list \<Rightarrow> 's"
    and close :: "'s \<Rightarrow> 'd"
    and absorbed :: "'s \<Rightarrow> 'b list \<Rightarrow> bool"
    and bound :: nat
    and digest :: "'b list \<Rightarrow> 'd"
  assumes absorbed_start: "absorbed start []"
    and absorbed_feed: "absorbed s m \<Longrightarrow> length m + length xs < bound \<Longrightarrow> absorbed (feed s xs) (m @ xs)"
    and absorbed_close: "absorbed s m \<Longrightarrow> length m < bound \<Longrightarrow> close s = digest m"
begin

definition feed_all :: "'b list list \<Rightarrow> 's \<Rightarrow> 's" where
  "feed_all ps s = fold (\<lambda>xs s. feed s xs) ps s"

lemma absorbed_feed_all:
  "absorbed s m \<Longrightarrow> length m + length (concat ps) < bound \<Longrightarrow> absorbed (feed_all ps s) (m @ concat ps)"
proof (induction ps arbitrary: s m)
  case (Cons xs ps)
  have "absorbed (feed s xs) (m @ xs)" using Cons.prems by (intro absorbed_feed) simp_all
  from Cons.IH [OF this] Cons.prems(2) show ?case by (simp add: feed_all_def)
qed (simp add: feed_all_def)

lemma digest_of_pieces:
  "length (concat ps) < bound \<Longrightarrow> close (fold (\<lambda>xs s. feed s xs) ps start) = digest (concat ps)"
  using absorbed_feed_all [OF absorbed_start, of ps] absorbed_close
  by (simp add: feed_all_def)

lemma digest_at_once: "length m < bound \<Longrightarrow> close (feed start m) = digest m"
  using digest_of_pieces [of "[m]"] by simp

lemma pieces_irrelevant:
  assumes "concat ps = concat qs" "length (concat ps) < bound"
  shows "close (fold (\<lambda>xs s. feed s xs) ps start) = close (fold (\<lambda>xs s. feed s xs) qs start)"
  using digest_of_pieces [of ps] digest_of_pieces [of qs] assms by simp

end

end
