(* ===== verification/Picosha2.thy ===== *)
theory Picosha2
  imports Prelude Stream_Hash "HOL-Library.Word"
begin

unbundle bit_operations_syntax

text \<open>
  \<^verbatim>\<open>src/include/picosha2.h\<close>: SHA-256. The header computes on 64-bit words (\<^verbatim>\<open>unsigned long\<close>) that it
  masks to 32 bits, keeps the length of the message as four 16-bit digits, and takes the message in
  pieces. Section \<open>Standard\<close> states the hash function of FIPS 180-4 on 32-bit words and the whole padded
  message; the lemmas show that the two agree.

  An iterator range is the list of its elements; an output range is its length. The arrays \<^verbatim>\<open>temp\<close>,
  \<^verbatim>\<open>w\<close> and \<^verbatim>\<open>h_\<close> are lists of fixed length, \<open>fill\<close> and \<open>overwrite\<close> are \<^verbatim>\<open>std::fill\<close> and \<^verbatim>\<open>std::copy\<close> on them.
\<close>

subsection \<open>Words\<close>

type_synonym word_t = "64 word"
type_synonym byte_t = "8 word"

definition mask_8bit :: "byte_t \<Rightarrow> byte_t" where
  "mask_8bit x = x AND 0xFF"

definition mask_32bit :: "word_t \<Rightarrow> word_t" where
  "mask_32bit x = x AND 0xFFFFFFFF"

text \<open>In rows of four, joined.\<close>

definition add_constant :: "word_t list" where
  "add_constant = concat
    [[0x428a2f98, 0x71374491, 0xb5c0fbcf, 0xe9b5dba5],
     [0x3956c25b, 0x59f111f1, 0x923f82a4, 0xab1c5ed5],
     [0xd807aa98, 0x12835b01, 0x243185be, 0x550c7dc3],
     [0x72be5d74, 0x80deb1fe, 0x9bdc06a7, 0xc19bf174],
     [0xe49b69c1, 0xefbe4786, 0x0fc19dc6, 0x240ca1cc],
     [0x2de92c6f, 0x4a7484aa, 0x5cb0a9dc, 0x76f988da],
     [0x983e5152, 0xa831c66d, 0xb00327c8, 0xbf597fc7],
     [0xc6e00bf3, 0xd5a79147, 0x06ca6351, 0x14292967],
     [0x27b70a85, 0x2e1b2138, 0x4d2c6dfc, 0x53380d13],
     [0x650a7354, 0x766a0abb, 0x81c2c92e, 0x92722c85],
     [0xa2bfe8a1, 0xa81a664b, 0xc24b8b70, 0xc76c51a3],
     [0xd192e819, 0xd6990624, 0xf40e3585, 0x106aa070],
     [0x19a4c116, 0x1e376c08, 0x2748774c, 0x34b0bcb5],
     [0x391c0cb3, 0x4ed8aa4a, 0x5b9cca4f, 0x682e6ff3],
     [0x748f82ee, 0x78a5636f, 0x84c87814, 0x8cc70208],
     [0x90befffa, 0xa4506ceb, 0xbef9a3f7, 0xc67178f2]]"

definition initial_message_digest :: "word_t list" where
  "initial_message_digest =
    [0x6a09e667, 0xbb67ae85, 0x3c6ef372, 0xa54ff53a, 0x510e527f, 0x9b05688c, 0x1f83d9ab, 0x5be0cd19]"

definition ch :: "word_t \<Rightarrow> word_t \<Rightarrow> word_t \<Rightarrow> word_t" where
  "ch x y z = (x AND y) XOR (NOT x AND z)"

definition maj :: "word_t \<Rightarrow> word_t \<Rightarrow> word_t \<Rightarrow> word_t" where
  "maj x y z = (x AND y) XOR (x AND z) XOR (y AND z)"

definition rotr :: "word_t \<Rightarrow> nat \<Rightarrow> word_t" where
  "rotr x n = mask_32bit (drop_bit n x OR push_bit (32 - n) x)"

definition bsig0 :: "word_t \<Rightarrow> word_t" where
  "bsig0 x = rotr x 2 XOR rotr x 13 XOR rotr x 22"

definition bsig1 :: "word_t \<Rightarrow> word_t" where
  "bsig1 x = rotr x 6 XOR rotr x 11 XOR rotr x 25"

definition shr :: "word_t \<Rightarrow> nat \<Rightarrow> word_t" where
  "shr x n = drop_bit n x"

definition ssig0 :: "word_t \<Rightarrow> word_t" where
  "ssig0 x = rotr x 7 XOR rotr x 18 XOR shr x 3"

definition ssig1 :: "word_t \<Rightarrow> word_t" where
  "ssig1 x = rotr x 17 XOR rotr x 19 XOR shr x 10"

subsection \<open>One block\<close>

definition load_word :: "byte_t list \<Rightarrow> nat \<Rightarrow> word_t" where
  "load_word block i =
     push_bit 24 (ucast (mask_8bit (block ! (i * 4)))) OR
     push_bit 16 (ucast (mask_8bit (block ! (i * 4 + 1)))) OR
     push_bit 8 (ucast (mask_8bit (block ! (i * 4 + 2)))) OR
     ucast (mask_8bit (block ! (i * 4 + 3)))"

definition expand_word :: "nat \<Rightarrow> word_t list \<Rightarrow> word_t list" where
  "expand_word i w =
     w[i := mask_32bit (ssig1 (w ! (i - 2)) + w ! (i - 7) + ssig0 (w ! (i - 15)) + w ! (i - 16))]"

definition message_schedule :: "byte_t list \<Rightarrow> word_t list" where
  "message_schedule block =
     fold expand_word [16..<64] (fold (\<lambda>i w. w[i := load_word block i]) [0..<16] (replicate 64 0))"

type_synonym 'w vars = "'w \<times> 'w \<times> 'w \<times> 'w \<times> 'w \<times> 'w \<times> 'w \<times> 'w"

fun hash_round :: "word_t list \<Rightarrow> nat \<Rightarrow> word_t vars \<Rightarrow> word_t vars" where
  "hash_round w i (a, b, c, d, e, f, g, h) =
     (let temp1 = h + bsig1 e + ch e f g + add_constant ! i + w ! i;
          temp2 = bsig0 a + maj a b c
      in (mask_32bit (temp1 + temp2), a, b, c, mask_32bit (d + temp1), e, f, g))"

fun list_of_vars :: "'w vars \<Rightarrow> 'w list" where
  "list_of_vars (a, b, c, d, e, f, g, h) = [a, b, c, d, e, f, g, h]"

definition hash256_block :: "word_t list \<Rightarrow> byte_t list \<Rightarrow> word_t list" where
  "hash256_block digest block =
     (let w = message_schedule block;
          v = fold (hash_round w) [0..<64]
            (digest ! 0, digest ! 1, digest ! 2, digest ! 3, digest ! 4, digest ! 5, digest ! 6, digest ! 7)
      in map mask_32bit (map2 (+) digest (list_of_vars v)))"

subsection \<open>The hasher\<close>

record hash256_one_by_one =
  buffer_of :: "byte_t list"
  data_length_digits :: "word_t list"
  h_of :: "word_t list"

definition hasher_init :: hash256_one_by_one where
  "hasher_init = \<lparr>buffer_of = [], data_length_digits = replicate 4 0, h_of = initial_message_digest\<rparr>"

function carry_loop :: "nat \<Rightarrow> word_t \<Rightarrow> word_t list \<Rightarrow> word_t list" where
  "carry_loop i carry ds =
     (if i < 4 then
        let ds1 = ds[i := ds ! i + carry]
        in if 65536 \<le> ds1 ! i then carry_loop (i + 1) (drop_bit 16 (ds1 ! i)) (ds1[i := ds1 ! i AND 65535])
           else ds1
      else ds)"
  by pat_completeness auto
termination
  by (relation "measure (\<lambda>(i, _, _). 4 - i)") auto

declare carry_loop.simps [simp del]

definition add_to_data_length :: "word_t \<Rightarrow> word_t list \<Rightarrow> word_t list" where
  "add_to_data_length n ds = carry_loop 0 0 (ds[0 := ds ! 0 + n])"

function block_loop :: "word_t list \<Rightarrow> byte_t list \<Rightarrow> nat \<Rightarrow> word_t list \<times> nat" where
  "block_loop h b i =
     (if i + 64 \<le> length b then block_loop (hash256_block h (take 64 (drop i b))) b (i + 64) else (h, i))"
  by pat_completeness auto
termination
  by (relation "measure (\<lambda>(_, b, i). length b - i)") auto

declare block_loop.simps [simp del]

definition process :: "hash256_one_by_one \<Rightarrow> byte_t list \<Rightarrow> hash256_one_by_one" where
  "process s xs =
     (let b = buffer_of s @ xs;
          (h, i) = block_loop (h_of s) b 0
      in s\<lparr>data_length_digits := add_to_data_length (word_of_nat (length xs)) (data_length_digits s),
           buffer_of := drop i b, h_of := h\<rparr>)"

definition shift_digit :: "nat \<Rightarrow> word_t list \<times> word_t \<Rightarrow> word_t list \<times> word_t" where
  "shift_digit i = (\<lambda>(ds, carry).
     let before_val = ds ! i
     in (ds[i := (push_bit 3 before_val OR carry) AND 65535], drop_bit 13 before_val AND 65535))"

definition write_data_bit_length :: "word_t list \<Rightarrow> byte_t list" where
  "write_data_bit_length ds =
     (let ds' = fst (fold shift_digit [0..<4] (ds, 0))
      in concat (map (\<lambda>i. [ucast (drop_bit 8 (ds' ! i)), ucast (ds' ! i)]) [3, 2, 1, 0]))"

definition fill :: "nat \<Rightarrow> nat \<Rightarrow> 'a \<Rightarrow> 'a list \<Rightarrow> 'a list" where
  "fill i j x xs = take i xs @ replicate (j - i) x @ drop j xs"

definition overwrite :: "nat \<Rightarrow> 'a list \<Rightarrow> 'a list \<Rightarrow> 'a list" where
  "overwrite i ys xs = take i xs @ ys @ drop (i + length ys) xs"

definition finish :: "hash256_one_by_one \<Rightarrow> hash256_one_by_one" where
  "finish s =
     (let temp = overwrite 0 (buffer_of s) (replicate 64 0);
          remains = (if 64 \<le> length (buffer_of s) then 63 else length (buffer_of s));
          temp = temp[remains := 0x80];
          (h, temp) =
            (if 55 < remains then
               let temp = fill (remains + 1) 64 0 temp
               in (hash256_block (h_of s) temp, fill 0 60 0 temp)
             else (h_of s, fill (remains + 1) 60 0 temp));
          temp = overwrite 56 (write_data_bit_length (data_length_digits s)) temp
      in s\<lparr>h_of := hash256_block h temp\<rparr>)"

text \<open>\<open>n\<close> is the length of the output range.\<close>

definition word_bytes :: "word_t \<Rightarrow> byte_t list" where
  "word_bytes x = map (\<lambda>i. mask_8bit (ucast (drop_bit (24 - 8 * i) x))) [0..<4]"

definition get_hash_bytes :: "hash256_one_by_one \<Rightarrow> nat \<Rightarrow> byte_t list" where
  "get_hash_bytes s n = take n (concat (map word_bytes (h_of s)))"

subsection \<open>Hexadecimal output\<close>

definition hex_digit :: "nat \<Rightarrow> char" where
  "hex_digit n = char_of (if n < 10 then 48 + n else 87 + n)"

definition output_hex :: "byte_t list \<Rightarrow> string" where
  "output_hex bs = concat (map (\<lambda>b. [hex_digit (unat b div 16), hex_digit (unat b mod 16)]) bs)"

definition k_digest_size :: nat where
  "k_digest_size = 32"

definition get_hash_hex_string :: "hash256_one_by_one \<Rightarrow> string" where
  "get_hash_hex_string hasher = output_hex (get_hash_bytes hasher k_digest_size)"

subsection \<open>One-shot functions\<close>

text \<open>Random access iterators: the whole message at once.\<close>

definition hash256_impl_random :: "byte_t list \<Rightarrow> nat \<Rightarrow> byte_t list" where
  "hash256_impl_random src n = get_hash_bytes (finish (process hasher_init src)) n"

text \<open>Input iterators: pieces of \<open>buffer_size\<close> bytes. With a buffer of size 0 the loop does not end.\<close>

partial_function (option) input_loop ::
  "nat \<Rightarrow> hash256_one_by_one \<Rightarrow> byte_t list \<Rightarrow> hash256_one_by_one option"
where
  "input_loop buffer_size s src =
     (if src = [] then Some s
      else input_loop buffer_size (process s (take buffer_size src)) (drop buffer_size src))"

declare input_loop.simps [code]

definition hash256_impl_input :: "nat \<Rightarrow> byte_t list \<Rightarrow> nat \<Rightarrow> byte_t list option" where
  "hash256_impl_input buffer_size src n =
     (case input_loop buffer_size hasher_init src of
        None \<Rightarrow> None
      | Some hasher \<Rightarrow> Some (get_hash_bytes (finish hasher) n))"

definition hash256 :: "byte_t list \<Rightarrow> nat \<Rightarrow> byte_t list" where
  "hash256 src n = hash256_impl_random src n"

text \<open>The overload for files, with \<^verbatim>\<open>PICOSHA2_BUFFER_SIZE_FOR_INPUT_ITERATOR\<close>.\<close>

definition hash256_file :: "byte_t list \<Rightarrow> nat \<Rightarrow> byte_t list option" where
  "hash256_file contents n = hash256_impl_input 1048576 contents n"

definition hash256_hex_string :: "byte_t list \<Rightarrow> string" where
  "hash256_hex_string src = output_hex (hash256 src k_digest_size)"


subsection \<open>Standard\<close>

text \<open>FIPS 180-4: 32-bit words, big-endian numbers, the padded message as a whole.\<close>

type_synonym w32 = "32 word"

definition Ch :: "w32 \<Rightarrow> w32 \<Rightarrow> w32 \<Rightarrow> w32" where
  "Ch x y z = (x AND y) XOR (NOT x AND z)"

definition Maj :: "w32 \<Rightarrow> w32 \<Rightarrow> w32 \<Rightarrow> w32" where
  "Maj x y z = (x AND y) XOR (x AND z) XOR (y AND z)"

definition Sigma0 :: "w32 \<Rightarrow> w32" where
  "Sigma0 x = word_rotr 2 x XOR word_rotr 13 x XOR word_rotr 22 x"

definition Sigma1 :: "w32 \<Rightarrow> w32" where
  "Sigma1 x = word_rotr 6 x XOR word_rotr 11 x XOR word_rotr 25 x"

definition sigma0 :: "w32 \<Rightarrow> w32" where
  "sigma0 x = word_rotr 7 x XOR word_rotr 18 x XOR drop_bit 3 x"

definition sigma1 :: "w32 \<Rightarrow> w32" where
  "sigma1 x = word_rotr 17 x XOR word_rotr 19 x XOR drop_bit 10 x"

definition K :: "nat \<Rightarrow> w32" where
  "K t = ucast (add_constant ! t)"

definition H0 :: "w32 list" where
  "H0 = map ucast initial_message_digest"

definition be_nat :: "byte_t list \<Rightarrow> nat" where
  "be_nat bs = foldl (\<lambda>n b. 256 * n + unat b) 0 bs"

definition be_bytes :: "nat \<Rightarrow> nat \<Rightarrow> byte_t list" where
  "be_bytes k n = map (\<lambda>i. word_of_nat (n div 256 ^ i)) (rev [0..<k])"

definition block_word :: "byte_t list \<Rightarrow> nat \<Rightarrow> w32" where
  "block_word block i = word_of_nat (be_nat (take 4 (drop (i * 4) block)))"

function W :: "byte_t list \<Rightarrow> nat \<Rightarrow> w32" where
  "W block t =
     (if t < 16 then block_word block t
      else sigma1 (W block (t - 2)) + W block (t - 7) + sigma0 (W block (t - 15)) + W block (t - 16))"
  by pat_completeness auto
termination
  by (relation "measure snd") auto

declare W.simps [simp del]

fun compress_step :: "byte_t list \<Rightarrow> nat \<Rightarrow> w32 vars \<Rightarrow> w32 vars" where
  "compress_step block t (a, b, c, d, e, f, g, h) =
     (let T1 = h + Sigma1 e + Ch e f g + K t + W block t;
          T2 = Sigma0 a + Maj a b c
      in (T1 + T2, a, b, c, d + T1, e, f, g))"

definition compress :: "w32 list \<Rightarrow> byte_t list \<Rightarrow> w32 list" where
  "compress H block =
     map2 (+) H (list_of_vars (fold (compress_step block) [0..<64]
       (H ! 0, H ! 1, H ! 2, H ! 3, H ! 4, H ! 5, H ! 6, H ! 7)))"

function blocks :: "byte_t list \<Rightarrow> byte_t list list" where
  "blocks bs = (if 64 \<le> length bs then take 64 bs # blocks (drop 64 bs) else [])"
  by pat_completeness auto
termination
  by (relation "measure length") auto

declare blocks.simps [simp del]

definition padded :: "byte_t list \<Rightarrow> byte_t list" where
  "padded m = m @ [0x80] @ replicate ((119 - length m mod 64) mod 64) 0 @ be_bytes 8 (8 * length m)"

definition sha256 :: "byte_t list \<Rightarrow> byte_t list" where
  "sha256 m = concat (map (\<lambda>w. be_bytes 4 (unat w)) (foldl compress H0 (blocks (padded m))))"

subsection \<open>The 64-bit words stay below 2 to the 32\<close>

abbreviation up :: "w32 \<Rightarrow> word_t" where "up \<equiv> ucast"
abbreviation down :: "word_t \<Rightarrow> w32" where "down \<equiv> ucast"

lemma mask_32bit_eq: "mask_32bit x = up (down x)"
proof -
  have m: "(0xFFFFFFFF :: word_t) = mask 32" by (simp add: mask_eq_exp_minus_1)
  show ?thesis
    unfolding mask_32bit_def m take_bit_eq_mask [symmetric]
    by (rule bit_word_eqI) (auto simp: bit_simps)
qed

lemma down_up [simp]: "down (up x) = x"
  by (rule bit_word_eqI) (simp add: bit_simps)

lemma down_plus [simp]: "down (x + y) = down x + down y"
proof -
  have "uint (down (x + y)) = uint (down x + down y)"
    by (simp add: unsigned_ucast_eq uint_word_ariths take_bit_eq_mod mod_simps mod_mod_cancel)
  then show ?thesis by (simp add: word_uint_eq_iff)
qed

lemma rotr_up:
  assumes "n < 32" shows "rotr (up x) n = up (word_rotr n x)"
  unfolding rotr_def mask_32bit_eq
proof (rule bit_word_eqI)
  fix i assume "i < LENGTH(64)"
  have m: "(i + n) mod 32 = (if i + n < 32 then i + n else i + n - 32)" if "i < 32"
    using that assms by (simp add: mod_if)
  have "\<not> bit x (n + i)" if "32 \<le> n + i" using that bit_imp_le_length [of x "n + i"] by auto
  with m assms show "bit (up (down (drop_bit n (up x) OR push_bit (32 - n) (up x)))) i = bit (up (word_rotr n x)) i"
    by (auto simp: bit_simps add.commute split: if_splits)
qed

lemma up_bits: "bit (x :: w32) i \<Longrightarrow> i < 32"
  using bit_imp_le_length [of x i] by simp

lemma shr_up: "shr (up x) n = up (drop_bit n x)"
  unfolding shr_def by (rule bit_word_eqI) (auto simp: bit_simps dest: up_bits)

lemma ch_up: "ch (up x) (up y) (up z) = up (Ch x y z)"
  unfolding ch_def Ch_def by (rule bit_word_eqI) (auto simp: bit_simps dest: up_bits)

lemma maj_up: "maj (up x) (up y) (up z) = up (Maj x y z)"
  unfolding maj_def Maj_def by (rule bit_word_eqI) (auto simp: bit_simps)

lemma up_xor: "up x XOR up y = up (x XOR y)"
  by (rule bit_word_eqI) (auto simp: bit_simps)

lemma sig_up:
  "bsig0 (up x) = up (Sigma0 x)" "bsig1 (up x) = up (Sigma1 x)"
  "ssig0 (up x) = up (sigma0 x)" "ssig1 (up x) = up (sigma1 x)"
  by (simp_all add: bsig0_def Sigma0_def bsig1_def Sigma1_def ssig0_def sigma0_def ssig1_def sigma1_def
      rotr_up shr_up up_xor)


subsection \<open>One block computes the compression function\<close>

lemma fold_upt:
  assumes "a \<le> b" "P a s" "\<And>i s. a \<le> i \<Longrightarrow> i < b \<Longrightarrow> P i s \<Longrightarrow> P (Suc i) (f i s)"
  shows "P b (fold f [a..<b] s)"
  using assms
proof (induction b)
  case (Suc b)
  show ?case
  proof (cases "a = Suc b")
    case False
    with Suc.prems(1) have le: "a \<le> b" by simp
    from Suc.IH [OF this Suc.prems(2)] Suc.prems(3) have "P b (fold f [a..<b] s)" by simp
    with Suc.prems(3) le show ?thesis by simp
  qed (use Suc.prems in simp)
qed simp

lemma or_disjoint:
  fixes a b :: "'a::len word"
  assumes "\<And>n. bit a n \<Longrightarrow> bit b n \<Longrightarrow> False"
  shows "a OR b = a + b"
  by (rule disjunctive_add [symmetric]) (use assms in blast)

lemma four_bytes_val:
  "push_bit 24 (ucast b0) OR push_bit 16 (ucast b1) OR push_bit 8 (ucast b2) OR ucast b3
     = up (word_of_nat (be_nat [b0, b1, b2, b3]))" for b0 b1 b2 b3 :: byte_t
proof -
  have small: "bit b n \<Longrightarrow> n < 8" for b :: byte_t and n using bit_imp_le_length [of b n] by simp
  have b: "unat b < 256" for b :: byte_t using unsigned_less [of b] by simp
  define n where "n = be_nat [b0, b1, b2, b3]"
  have n: "n = 2 ^ 24 * unat b0 + 2 ^ 16 * unat b1 + 2 ^ 8 * unat b2 + unat b3"
    by (simp add: n_def be_nat_def)
  have "push_bit 24 (ucast b0) OR push_bit 16 (ucast b1) OR push_bit 8 (ucast b2) OR ucast b3
      = push_bit 24 (ucast b0) + push_bit 16 (ucast b1) + push_bit 8 (ucast b2) + (ucast b3 :: word_t)"
    by (subst or_disjoint [symmetric], force simp: bit_simps dest: small)+ (simp add: or.assoc)
  also have "\<dots> = word_of_nat n"
    by (simp add: n push_bit_eq_mult unsigned_ucast_eq mult.commute)
  also have "\<dots> = up (word_of_nat n)"
  proof -
    have "n < 2 ^ 32" using b [of b0] b [of b1] b [of b2] b [of b3] by (simp add: n)
    then have "unat (word_of_nat n :: word_t) = unat (up (word_of_nat n))"
      by (simp add: unsigned_ucast_eq unat_of_nat take_bit_eq_mod)
    then show ?thesis by (simp add: word_unat_eq_iff)
  qed
  finally show ?thesis by (simp add: n_def)
qed

lemma mask_8bit_id: "mask_8bit b = b"
proof -
  have "(0xFF :: byte_t) = -1" by simp
  then show ?thesis unfolding mask_8bit_def by (simp only: and.right_neutral)
qed

lemma load_word_up:
  assumes "length block = 64" "i < 16"
  shows "load_word block i = up (block_word block i)"
proof -
  have "drop (i * 4) block = block ! (i * 4) # block ! (i * 4 + 1) # block ! (i * 4 + 2) # block ! (i * 4 + 3) #
      drop (i * 4 + 4) block"
    using assms by (simp add: Cons_nth_drop_Suc numeral_eq_Suc del: length_greater_0_conv)
  then show ?thesis by (simp add: load_word_def block_word_def mask_8bit_id four_bytes_val)
qed


lemma schedule_step:
  assumes "16 \<le> i" "i < 64" "length w = 64" "\<forall>t < i. w ! t = up (W block t)"
  shows "length (expand_word i w) = 64 \<and> (\<forall>t < Suc i. expand_word i w ! t = up (W block t))"
proof -
  have "expand_word i w ! i = up (W block i)"
    using assms by (subst W.simps) (simp add: expand_word_def sig_up mask_32bit_eq)
  moreover have "expand_word i w ! t = w ! t" if "t \<noteq> i" for t
    using that by (simp add: expand_word_def)
  ultimately show ?thesis using assms by (auto simp: expand_word_def less_Suc_eq)
qed

lemma message_schedule_eq:
  assumes "length block = 64"
  shows "length (message_schedule block) = 64 \<and> (\<forall>t < 64. message_schedule block ! t = up (W block t))"
proof -
  let ?load = "\<lambda>i w. w[i := load_word block i]"
  let ?P = "\<lambda>n w. length w = 64 \<and> (\<forall>t < n. w ! t = up (W block t))"
  have "?P 16 (fold ?load [0..<16] (replicate 64 0))"
  proof (rule fold_upt)
    fix i and w :: "word_t list" assume "i < 16" "?P i w"
    then show "?P (Suc i) (?load i w)"
      using load_word_up [OF assms] by (auto simp: less_Suc_eq nth_list_update W.simps)
  qed simp_all
  then have "?P 64 (fold expand_word [16..<64] (fold ?load [0..<16] (replicate 64 0)))"
    by (rule fold_upt [rotated]) (use schedule_step in blast, simp)
  then show ?thesis by (simp add: message_schedule_def)
qed

lemma constants_small: "map (\<lambda>c. up (down c)) add_constant = add_constant"
  "map (\<lambda>c. up (down c)) initial_message_digest = initial_message_digest"
  unfolding mask_32bit_eq [symmetric] by (simp_all add: mask_32bit_def add_constant_def initial_message_digest_def)

lemma constant_up: "i < 64 \<Longrightarrow> add_constant ! i = up (K i)"
proof -
  assume "i < 64"
  then have "i < length add_constant" by (simp add: add_constant_def)
  then have "map (\<lambda>c. up (down c)) add_constant ! i = up (K i)" by (simp add: K_def)
  then show ?thesis by (simp only: constants_small)
qed

fun vars_up :: "w32 vars \<Rightarrow> word_t vars" where
  "vars_up (a, b, c, d, e, f, g, h) = (up a, up b, up c, up d, up e, up f, up g, up h)"

lemma hash_round_up:
  assumes "t < 64" "w ! t = up (W block t)"
  shows "hash_round w t (vars_up v) = vars_up (compress_step block t v)"
proof -
  obtain a b c d e f g h where v: "v = (a, b, c, d, e, f, g, h)" by (rule vars_up.cases)
  show ?thesis
    unfolding v using assms by (simp add: constant_up sig_up ch_up maj_up mask_32bit_eq Let_def)
qed

lemma list_of_vars_up: "list_of_vars (vars_up v) = map up (list_of_vars v)" "length (list_of_vars v) = 8"
  by (cases v rule: vars_up.cases; simp)+

lemma hash256_block_eq:
  assumes "length H = 8" "length block = 64"
  shows "hash256_block (map up H) block = map up (compress H block)"
proof -
  let ?w = "message_schedule block" and ?v = "(H ! 0, H ! 1, H ! 2, H ! 3, H ! 4, H ! 5, H ! 6, H ! 7)"
  have "fold (hash_round ?w) [0..<64] (vars_up ?v) = vars_up (fold (compress_step block) [0..<64] ?v)"
  proof -
    have "fold (hash_round ?w) ts (vars_up v) = vars_up (fold (compress_step block) ts v)"
      if "\<forall>t \<in> set ts. t < 64" for ts v
      using that message_schedule_eq [OF assms(2)]
      by (induction ts arbitrary: v) (simp_all add: hash_round_up)
    from this [of "[0..<64]" ?v] show ?thesis by simp
  qed
  moreover have "map mask_32bit (map2 (+) (map up xs) (map up ys)) = map up (map2 (+) xs ys)" for xs ys :: "w32 list"
    by (simp add: mask_32bit_eq map2_map_map comp_def case_prod_unfold zip_map_map)
  ultimately show ?thesis
    using assms(1) by (simp add: hash256_block_def compress_def Let_def list_of_vars_up)
qed

lemma length_compress: "length H = 8 \<Longrightarrow> length (compress H block) = 8"
  by (simp add: compress_def list_of_vars_up)

lemma fold_blocks_eq:
  assumes "length H = 8" "\<forall>b \<in> set bs. length b = 64"
  shows "foldl hash256_block (map up H) bs = map up (foldl compress H bs)"
  using assms by (induction bs arbitrary: H) (simp_all add: hash256_block_eq length_compress)


subsection \<open>Blocks of a message\<close>

lemma blocks_short: "length xs < 64 \<Longrightarrow> blocks xs = []"
  by (subst blocks.simps) simp

lemma blocks_one: "length b = 64 \<Longrightarrow> blocks (b @ xs) = b # blocks xs"
  by (subst blocks.simps) simp

lemma blocks_length: "\<forall>b \<in> set (blocks xs). length b = 64"
proof (induction xs rule: blocks.induct)
  case (1 xs)
  show ?case
  proof (cases "64 \<le> length xs")
    case True
    have "blocks xs = take 64 xs # blocks (drop 64 xs)" using True by (subst blocks.simps) simp
    moreover have "length (take 64 xs) = 64" using True by simp
    ultimately show ?thesis using 1 [OF True] by (metis set_ConsD)
  qed (simp add: blocks_short)
qed

text \<open>What is left after the complete blocks.\<close>

definition remainder :: "byte_t list \<Rightarrow> byte_t list" where
  "remainder m = drop (64 * (length m div 64)) m"

lemma remainder_step: "64 \<le> length m \<Longrightarrow> remainder m = remainder (drop 64 m)"
proof -
  assume "64 \<le> length m"
  then have "length m div 64 = Suc ((length m - 64) div 64)" by (simp add: le_div_geq)
  then show ?thesis by (simp add: remainder_def add.commute)
qed

lemma length_remainder: "length (remainder m) = length m mod 64"
  by (simp add: remainder_def minus_mult_div_eq_mod)

lemma blocks_append: "blocks (m @ xs) = blocks m @ blocks (remainder m @ xs) \<and> remainder (m @ xs) = remainder (remainder m @ xs)"
proof (induction m rule: blocks.induct)
  case (1 m)
  show ?case
  proof (cases "64 \<le> length m")
    case True
    have "blocks (m @ xs) = take 64 m # blocks (drop 64 m @ xs)"
      using True by (subst blocks.simps) simp
    moreover have "blocks m = take 64 m # blocks (drop 64 m)"
      using True by (subst blocks.simps) simp
    moreover have "remainder (m @ xs) = remainder (drop 64 m @ xs)"
      using True remainder_step [of "m @ xs"] by simp
    ultimately show ?thesis using 1 [OF True] remainder_step [OF True] by simp
  next
    case False
    then show ?thesis by (simp add: blocks_short remainder_def)
  qed
qed

lemma block_loop_eq:
  "block_loop h b i = (foldl hash256_block h (blocks (drop i b)), i + 64 * (length (drop i b) div 64))"
proof (induction h b i rule: block_loop.induct)
  case (1 h b i)
  show ?case
  proof (cases "i + 64 \<le> length b")
    case True
    have "blocks (drop i b) = take 64 (drop i b) # blocks (drop (i + 64) b)"
      using True by (subst blocks.simps) (simp add: add.commute)
    moreover have "(length b - i) div 64 = Suc ((length b - (i + 64)) div 64)"
      using True by (subst le_div_geq) simp_all
    ultimately show ?thesis using True 1 [OF True] by (subst block_loop.simps) simp
  next
    case False
    then show ?thesis by (subst block_loop.simps) (simp add: blocks_short)
  qed
qed

subsection \<open>The length counter\<close>

definition digits_value :: "word_t list \<Rightarrow> nat" where
  "digits_value ds =
     unat (ds ! 0) + unat (ds ! 1) * 65536 + unat (ds ! 2) * 65536 ^ 2 + unat (ds ! 3) * 65536 ^ 3"

definition digits_ok :: "word_t list \<Rightarrow> bool" where
  "digits_ok ds \<longleftrightarrow> length ds = 4 \<and> (\<forall>i<4. unat (ds ! i) < 65536)"

lemma below_4: "i < (4 :: nat) \<Longrightarrow> i = 0 \<or> i = 1 \<or> i = 2 \<or> i = 3"
  by auto

lemma digits_value_update:
  assumes "length ds = 4" "i < 4"
  shows "digits_value (ds[i := x]) + unat (ds ! i) * 65536 ^ i = digits_value ds + unat x * 65536 ^ i"
  using below_4 [OF assms(2)] assms(1) by (auto simp: digits_value_def)

lemma unat_less: "unat (x :: word_t) < 2 ^ 64"
  using unsigned_less [of x, where 'a = nat] by simp

lemma low_digit: "unat (x AND 65535 :: word_t) = unat x mod 65536" "unat (drop_bit 16 x) = unat x div 65536"
proof -
  have m: "(65535 :: word_t) = mask 16" by (simp add: mask_eq_exp_minus_1)
  show "unat (x AND 65535 :: word_t) = unat x mod 65536"
    unfolding m take_bit_eq_mask [symmetric] unsigned_take_bit_eq by (simp add: take_bit_eq_mod)
  show "unat (drop_bit 16 x) = unat x div 65536"
    using unat_less [of x] unfolding unsigned_drop_bit_eq by (simp add: drop_bit_eq_div take_bit_eq_mod)
qed

lemma carry_split:
  assumes "length ds = 4" "i < 4" "unat x = unat (ds ! i) + unat c"
  shows "digits_value (ds[i := x AND 65535]) + unat (drop_bit 16 x) * 65536 ^ (i + 1) = digits_value ds + unat c * 65536 ^ i"
proof -
  have split: "a * p + c' * (65536 * p) = y * p" if "a + c' * 65536 = y" for a c' y p :: nat
    unfolding that [symmetric] by (simp add: algebra_simps)
  have "unat (x AND 65535) + unat (drop_bit 16 x) * 65536 = unat x" by (simp add: low_digit)
  from split [OF this, of "65536 ^ i"] show ?thesis
    using digits_value_update [OF assms(1,2), of "x AND 65535"]
    by (simp add: assms(3) add_mult_distrib del: power_Suc) (simp add: ac_simps)
qed

lemma carry_loop_value:
  assumes "length ds = 4" "\<forall>j<4. j \<noteq> i \<longrightarrow> unat (ds ! j) < 65536" "i \<le> 4"
    "i < 4 \<Longrightarrow> unat (ds ! i) + unat c < 2 ^ 64"
  shows "digits_ok (carry_loop i c ds) \<and>
    digits_value (carry_loop i c ds) mod 2 ^ 64 = (digits_value ds + unat c * 65536 ^ i) mod 2 ^ 64"
  using assms
proof (induction i c ds rule: carry_loop.induct)
  case (1 i c ds)
  show ?case
  proof (cases "i < 4")
    case False
    with 1 have "i = 4" by simp
    then show ?thesis
      using 1 by (subst (1 2) carry_loop.simps) (auto simp: digits_ok_def)
  next
    case True
    define x where "x = ds ! i + c"
    have ux: "unat x = unat (ds ! i) + unat c" using 1(5) [OF True] by (simp add: x_def unat_word_ariths)
    have v: "digits_value (ds[i := x]) = digits_value ds + unat c * 65536 ^ i"
      using digits_value_update [OF 1(2) True, of x] by (simp add: ux algebra_simps)
    show ?thesis
    proof (cases "65536 \<le> x")
      case False
      then have "unat x < 65536" by (simp add: word_le_nat_alt)
      then have "digits_ok (ds[i := x])" using 1(2,3) True by (auto simp: digits_ok_def nth_list_update)
      then show ?thesis using True False v 1(2) by (subst (1 2) carry_loop.simps) (simp add: x_def)
    next
      case big: True
      let ?ds = "ds[i := x AND 65535]" and ?c = "drop_bit 16 x"
      have step: "carry_loop i c ds = carry_loop (i + 1) ?c ?ds"
        using True big 1(2) by (subst carry_loop.simps) (simp add: x_def)
      have c: "unat ?c < 2 ^ 48" using unat_less by (simp add: low_digit less_mult_imp_div_less)
      have small: "\<forall>j<4. unat (?ds ! j) < 65536"
        using 1(2,3) True by (auto simp: nth_list_update low_digit)
      have fits: "i + 1 < 4 \<Longrightarrow> unat (?ds ! (i + 1)) + unat ?c < 2 ^ 64"
        using c small [rule_format, of "i + 1"] by simp
      have upd: "ds[i := ds ! i + c] ! i = x" using True 1(2) by (simp add: x_def)
      have ih: "digits_ok (carry_loop (i + 1) ?c ?ds) \<and>
          digits_value (carry_loop (i + 1) ?c ?ds) mod 2 ^ 64
            = (digits_value ?ds + unat ?c * 65536 ^ (i + 1)) mod 2 ^ 64"
        using True 1(2) big small fits
        by (intro 1(1) [OF True refl, unfolded upd list_update_overwrite]) simp_all
      from ih step carry_split [OF 1(2) True ux] show ?thesis by simp
    qed
  qed
qed

lemma add_to_data_length_value:
  assumes "digits_ok ds" "unat n < 2 ^ 63"
  shows "digits_ok (add_to_data_length n ds) \<and>
    digits_value (add_to_data_length n ds) mod 2 ^ 64 = (digits_value ds + unat n) mod 2 ^ 64"
proof -
  let ?ds = "ds[0 := ds ! 0 + n]"
  have l: "length ds = 4" "unat (ds ! 0) < 65536" using assms(1) by (simp_all add: digits_ok_def)
  then have s: "unat (ds ! 0 + n) = unat (ds ! 0) + unat n" using assms(2) by (simp add: unat_word_ariths)
  have "digits_value ?ds = digits_value ds + unat n"
    using digits_value_update [OF l(1), of 0 "ds ! 0 + n"] by (simp add: s)
  moreover have "\<forall>j<4. j \<noteq> 0 \<longrightarrow> unat (?ds ! j) < 65536" using assms(1) by (simp add: digits_ok_def)
  moreover have "unat (?ds ! 0) + unat (0 :: word_t) < 2 ^ 64" using assms(2) l s by simp
  ultimately show ?thesis
    using carry_loop_value [of ?ds 0 0] l(1) by (simp add: add_to_data_length_def)
qed

lemma digits_value_less: "digits_ok ds \<Longrightarrow> digits_value ds < 2 ^ 64"
proof -
  assume "digits_ok ds"
  then have "unat (ds ! 0) < 65536" "unat (ds ! 1) < 65536" "unat (ds ! 2) < 65536" "unat (ds ! 3) < 65536"
    by (simp_all add: digits_ok_def)
  then show ?thesis by (simp add: digits_value_def)
qed

lemma shifted_digit:
  assumes "unat d < 65536" "unat c < 8"
  shows "unat ((push_bit 3 d OR c) AND 65535 :: word_t) = (8 * unat d + unat c) mod 65536"
    "unat (drop_bit 13 d AND 65535 :: word_t) = unat d div 8192"
proof -
  have "take_bit 3 c = c"
    using assms(2) by (simp add: word_unat_eq_iff unsigned_take_bit_eq take_bit_nat_eq_self)
  then have low: "bit c i \<Longrightarrow> i < 3" for i by (metis bit_take_bit_iff)
  have "push_bit 3 d OR c = push_bit 3 d + c"
    by (rule or_disjoint) (auto simp: bit_simps dest: low)
  then show "unat ((push_bit 3 d OR c) AND 65535 :: word_t) = (8 * unat d + unat c) mod 65536"
    using assms by (simp add: low_digit push_bit_eq_mult unat_word_ariths mult.commute)
  show "unat (drop_bit 13 d AND 65535 :: word_t) = unat d div 8192"
    using assms(1) unat_less [of d]
    unfolding low_digit unsigned_drop_bit_eq by (simp add: drop_bit_eq_div take_bit_eq_mod)
qed


lemma shift_number:
  assumes "c < (8 :: nat)"
  shows "(8 * (a + 65536 * r) + c) div 65536 = 8 * r + a div 8192"
    "(8 * (a + 65536 * r) + c) mod 65536 = (8 * a + c) mod 65536"
proof -
  have "(8 * a + c) div 65536 = ((8 * a + c) div 8) div 8192" by (simp add: div_mult2_eq [symmetric])
  also have "(8 * a + c) div 8 = a" using assms by simp
  finally have "(8 * a + c) div 65536 = a div 8192" .
  moreover have e: "8 * (a + 65536 * r) + c = (8 * a + c) + 65536 * (8 * r)" by simp
  ultimately show "(8 * (a + 65536 * r) + c) div 65536 = 8 * r + a div 8192" by simp
  show "(8 * (a + 65536 * r) + c) mod 65536 = (8 * a + c) mod 65536" unfolding e by (rule mod_mult_self2)
qed

lemma digit_bytes:
  assumes "unat (x :: word_t) = m mod 65536"
  shows "ucast (drop_bit 8 x) = (word_of_nat (m div 256) :: byte_t)" "ucast x = (word_of_nat m :: byte_t)"
proof -
  have "(m mod 65536) div 256 mod 256 = m div 256 mod 256"
    using div_mult2_eq [of m 256 256] mod_mult2_eq [of m 256 256] by simp
  moreover have "unat (drop_bit 8 x) = unat x div 256"
    using unat_less [of x] unfolding unsigned_drop_bit_eq by (simp add: drop_bit_eq_div take_bit_eq_mod)
  ultimately show "ucast (drop_bit 8 x) = (word_of_nat (m div 256) :: byte_t)"
    unfolding word_unat_eq_iff unsigned_ucast_eq unat_of_nat by (simp add: take_bit_eq_mod assms)
  have "m mod 65536 mod 256 = m mod 256" by (simp add: mod_mod_cancel)
  then show "ucast x = (word_of_nat m :: byte_t)"
    unfolding word_unat_eq_iff unsigned_ucast_eq unat_of_nat by (simp add: take_bit_eq_mod assms)
qed

lemma write_data_bit_length_eq:
  assumes "digits_ok ds"
  shows "write_data_bit_length ds = be_bytes 8 (8 * digits_value ds)"
proof -
  have "length ds = Suc (Suc (Suc (Suc 0)))" using assms by (simp add: digits_ok_def)
  then obtain d0 d1 d2 d3 where ds: "ds = [d0, d1, d2, d3]" by (auto simp: length_Suc_conv)
  from assms have small: "unat d0 < 65536" "unat d1 < 65536" "unat d2 < 65536" "unat d3 < 65536"
    unfolding digits_ok_def ds by (auto dest: spec [of _ 0] spec [of _ 1] spec [of _ 2] spec [of _ 3])
  define c1 c2 c3 where c: "c1 = drop_bit 13 d0 AND 65535" "c2 = drop_bit 13 d1 AND 65535" "c3 = drop_bit 13 d2 AND 65535"
  define e0 e1 e2 e3 where e: "e0 = (push_bit 3 d0 OR 0) AND 65535" "e1 = (push_bit 3 d1 OR c1) AND 65535"
    "e2 = (push_bit 3 d2 OR c2) AND 65535" "e3 = (push_bit 3 d3 OR c3) AND 65535"
  have uc: "unat c1 = unat d0 div 8192" "unat c2 = unat d1 div 8192" "unat c3 = unat d2 div 8192"
    using shifted_digit(2) [of _ 0] small by (simp_all add: c)
  then have c8: "unat c1 < 8" "unat c2 < 8" "unat c3 < 8" using small by simp_all
  define n where "n = 8 * digits_value ds"
  define r2 r1 r0 where r: "r2 = unat d3" "r1 = unat d2 + 65536 * r2" "r0 = unat d1 + 65536 * r1"
  have n0: "n = 8 * (unat d0 + 65536 * r0) + unat (0 :: word_t)"
    by (simp add: n_def digits_value_def ds r)
  have n1: "n div 65536 = 8 * (unat d1 + 65536 * r1) + unat c1"
    unfolding n0 by (subst shift_number) (simp_all add: uc r)
  have n2: "n div 65536 ^ 2 = 8 * (unat d2 + 65536 * r2) + unat c2"
    unfolding power2_eq_square div_mult2_eq n1 shift_number(1) [OF c8(1)] by (simp add: uc r)
  have n3: "n div 65536 ^ 3 = 8 * (unat d3 + 65536 * 0) + unat c3"
    unfolding power3_eq_cube div_mult2_eq n1 shift_number(1) [OF c8(1)]
    using shift_number(1) [OF c8(2), of "unat d2" r2] by (simp add: uc r)
  have u0: "unat e0 = n mod 65536"
    unfolding n0 e(1) using shifted_digit(1) [OF small(1), of 0] by (subst shift_number(2)) simp_all
  have u1: "unat e1 = (n div 65536) mod 65536"
    unfolding n1 by (subst shift_number(2)) (simp_all add: e shifted_digit small c8)
  have u2: "unat e2 = (n div 65536 ^ 2) mod 65536"
    unfolding n2 by (subst shift_number(2)) (simp_all add: e shifted_digit small c8)
  have u3: "unat e3 = (n div 65536 ^ 3) mod 65536"
    unfolding n3 by (subst shift_number(2)) (simp_all add: e shifted_digit small c8)
  have "fst (fold shift_digit [0..<4] (ds, 0)) = [e0, e1, e2, e3]"
    by (simp add: ds shift_digit_def upt_rec e c)
  then have "write_data_bit_length ds =
      [ucast (drop_bit 8 e3), ucast e3, ucast (drop_bit 8 e2), ucast e2,
       ucast (drop_bit 8 e1), ucast e1, ucast (drop_bit 8 e0), ucast e0]"
    by (simp add: write_data_bit_length_def)
  also have "\<dots> = be_bytes 8 n"
    unfolding be_bytes_def digit_bytes [OF u0] digit_bytes [OF u1] digit_bytes [OF u2] digit_bytes [OF u3]
    by (simp add: upt_rec div_mult2_eq [symmetric])
  finally show ?thesis by (simp add: n_def)
qed


subsection \<open>The hasher absorbs a message\<close>

definition hasher_absorbed :: "hash256_one_by_one \<Rightarrow> byte_t list \<Rightarrow> bool" where
  "hasher_absorbed s m \<longleftrightarrow>
     h_of s = foldl hash256_block initial_message_digest (blocks m) \<and> buffer_of s = remainder m \<and>
     digits_ok (data_length_digits s) \<and> digits_value (data_length_digits s) = length m"

lemma absorbed_init: "hasher_absorbed hasher_init []"
  by (simp add: hasher_absorbed_def hasher_init_def blocks_short remainder_def digits_ok_def digits_value_def)

lemma absorbed_process:
  assumes "hasher_absorbed s m" "length m + length xs < 2 ^ 61"
  shows "hasher_absorbed (process s xs) (m @ xs)"
proof -
  let ?ds = "add_to_data_length (word_of_nat (length xs)) (data_length_digits s)"
  have n: "unat (word_of_nat (length xs) :: word_t) = length xs"
    using assms(2) by (simp add: unat_of_nat take_bit_nat_eq_self)
  have ds: "digits_ok (data_length_digits s)" "digits_value (data_length_digits s) = length m"
    using assms(1) by (simp_all add: hasher_absorbed_def)
  have "digits_ok ?ds" "digits_value ?ds mod 2 ^ 64 = (length m + length xs) mod 2 ^ 64"
    using add_to_data_length_value [OF ds(1), of "word_of_nat (length xs)"] assms(2) by (simp_all add: n ds(2))
  moreover from this digits_value_less [OF this(1)] assms(2) have "digits_value ?ds = length m + length xs"
    by (simp add: mod_less)
  moreover have "drop (64 * (length b div 64)) b = remainder b" for b by (simp add: remainder_def)
  ultimately show ?thesis
    using assms(1) blocks_append [of m xs]
    by (simp add: hasher_absorbed_def process_def Let_def block_loop_eq case_prod_beta)
qed

lemma padding_length:
  assumes "r < 64"
  shows "(119 - r) mod 64 = (if r \<le> 55 then 55 - r else 119 - (r :: nat))"
  using assms by (auto simp: mod_if)

lemma padded_buffer:
  assumes "length buf < 64"
  shows "(overwrite 0 buf (replicate 64 0))[length buf := 0x80] = buf @ 0x80 # replicate (63 - length buf) (0 :: byte_t)"
proof -
  have "64 - length buf = Suc (63 - length buf)" using assms by simp
  then show ?thesis using assms by (simp add: overwrite_def list_update_append)
qed

text \<open>The buffer of a message with the first padding byte, in one block or two.\<close>

lemma finish_one_block:
  assumes "buffer_of s = buf" "length buf \<le> 55" "write_data_bit_length (data_length_digits s) = len8" "length len8 = 8"
  shows "h_of (finish s) = foldl hash256_block (h_of s) (blocks (buf @ 0x80 # replicate (55 - length buf) 0 @ len8))"
proof -
  let ?b = "buf @ 0x80 # replicate (55 - length buf) 0 @ len8"
  have temp: "(overwrite 0 buf (replicate 64 0))[length buf := 0x80] = buf @ 0x80 # replicate (63 - length buf) (0 :: byte_t)"
    using padded_buffer assms(2) by simp
  have "56 - length buf = Suc (55 - length buf)" using assms(2) by simp
  then have "overwrite 56 len8 (fill (length buf + 1) 60 0 (buf @ 0x80 # replicate (63 - length buf) 0)) = ?b"
    using assms(2,4) by (simp add: overwrite_def fill_def)
  then have "h_of (finish s) = hash256_block (h_of s) ?b"
    using assms by (simp add: finish_def Let_def temp)
  moreover have "blocks ?b = [?b]" using blocks_one [of ?b "[]"] assms(2,4) by (simp add: blocks_short)
  ultimately show ?thesis by simp
qed

lemma finish_two_blocks:
  assumes "buffer_of s = buf" "55 < length buf" "length buf < 64" "write_data_bit_length (data_length_digits s) = len8"
    "length len8 = 8"
  shows "h_of (finish s) = foldl hash256_block (h_of s) (blocks (buf @ 0x80 # replicate (119 - length buf) 0 @ len8))"
proof -
  let ?b1 = "buf @ 0x80 # replicate (63 - length buf) (0 :: byte_t)" and ?b2 = "replicate 56 0 @ len8"
  have temp: "(overwrite 0 buf (replicate 64 0))[length buf := 0x80] = ?b1" using padded_buffer assms(3) by simp
  have b: "length ?b1 = 64" "length ?b2 = 64" using assms(3,5) by simp_all
  have f1: "fill (length buf + 1) 64 0 ?b1 = ?b1" using assms(3) by (simp add: fill_def)
  have f2: "overwrite 56 len8 (fill 0 60 0 ?b1) = ?b2" using assms(2,3,5) by (auto simp: overwrite_def fill_def b)
  have R: "(if 64 \<le> length buf then 63 else length buf) = length buf" "(55 < length buf) = True" using assms(2,3) by simp_all
  have "h_of (finish s) = hash256_block (hash256_block (h_of s) ?b1) ?b2"
    unfolding finish_def Let_def assms(1,4) R temp f1 if_True prod.case f2
    by (cases s) (simp only: hash256_one_by_one.select_convs hash256_one_by_one.update_convs)
  moreover have z: "119 - length buf = (63 - length buf) + 56" using assms(3) by simp
  have "buf @ 0x80 # replicate (119 - length buf) 0 @ len8 = ?b1 @ ?b2" unfolding z replicate_add by simp
  then have "blocks (buf @ 0x80 # replicate (119 - length buf) 0 @ len8) = [?b1, ?b2]"
    using blocks_one [OF b(1), of ?b2] blocks_one [OF b(2), of "[]"] by (simp add: blocks_short)
  ultimately show ?thesis by simp
qed

lemma finish_eq:
  assumes "hasher_absorbed s m" "length m < 2 ^ 61"
  shows "h_of (finish s) = foldl hash256_block initial_message_digest (blocks (padded m))"
proof -
  define buf r len8 where d: "buf = remainder m" "r = length buf" "len8 = be_bytes 8 (8 * length m)"
  have r: "r < 64" "length m mod 64 = r" by (simp_all add: d length_remainder)
  have l8: "length len8 = 8" by (simp add: d be_bytes_def)
  have s: "h_of s = foldl hash256_block initial_message_digest (blocks m)" "buffer_of s = buf"
    "write_data_bit_length (data_length_digits s) = len8"
    using assms(1) by (simp_all add: hasher_absorbed_def write_data_bit_length_eq d)
  have rest: "blocks (padded m) = blocks m @ blocks (buf @ 0x80 # replicate ((119 - r) mod 64) 0 @ len8)"
    using blocks_append [of m] by (simp add: padded_def r(2) d)
  show ?thesis
  proof (cases "r \<le> 55")
    case True
    then show ?thesis
      using finish_one_block [OF s(2) _ s(3) l8] padding_length [OF r(1)] by (simp add: rest s(1) d(2))
  next
    case False
    then show ?thesis
      using finish_two_blocks [OF s(2) _ _ s(3) l8] padding_length [OF r(1)] r(1) by (simp add: rest s(1) d(2))
  qed
qed

lemma word_bytes_up: "word_bytes (up w) = be_bytes 4 (unat w)"
proof -
  have "mask_8bit (ucast (drop_bit k (up w))) = word_of_nat (unat w div 2 ^ k)" for k
  proof -
    have "unat w < 2 ^ 64" using unsigned_less [of w, where 'a = nat] by simp
    then have u: "unat (up w) = unat w" by (simp add: unsigned_ucast_eq take_bit_nat_eq_self)
    show ?thesis
      using \<open>unat w < 2 ^ 64\<close>
      unfolding mask_8bit_id word_unat_eq_iff unsigned_ucast_eq unsigned_drop_bit_eq unat_of_nat
      by (simp add: u drop_bit_eq_div take_bit_eq_mod)
  qed
  then show ?thesis by (simp add: word_bytes_def be_bytes_def upt_rec)
qed

lemma hash_bytes_eq:
  assumes "hasher_absorbed s m" "length m < 2 ^ 61"
  shows "get_hash_bytes (finish s) n = take n (sha256 m)"
proof -
  have "h_of (finish s) = map up (foldl compress H0 (blocks (padded m)))"
  proof -
    have "initial_message_digest = map up H0"
      using constants_small(2) by (simp add: H0_def comp_def)
    then show ?thesis
      using fold_blocks_eq [of H0 "blocks (padded m)"] blocks_length finish_eq [OF assms]
      by (simp add: H0_def initial_message_digest_def)
  qed
  then show ?thesis by (simp add: get_hash_bytes_def sha256_def comp_def word_bytes_up)
qed

interpretation hasher: stream_hash hasher_init process "\<lambda>s. get_hash_bytes (finish s) n" hasher_absorbed
  "2 ^ 61" "\<lambda>m. take n (sha256 m)" for n
  by unfold_locales (simp_all add: absorbed_init absorbed_process hash_bytes_eq)


subsection \<open>Properties\<close>

lemma input_loop_pieces:
  assumes "0 < b"
  shows "\<exists>ps. concat ps = src \<and> input_loop b s src = Some (fold (\<lambda>xs s. process s xs) ps s)"
proof (induction "length src" arbitrary: src s rule: less_induct)
  case less
  show ?case
  proof (cases "src = []")
    case True
    then show ?thesis by (intro exI [of _ "[]"]) (simp add: input_loop.simps)
  next
    case False
    with assms have "length (drop b src) < length src" by simp
    from less [OF this] obtain ps where "concat ps = drop b src"
      "input_loop b (process s (take b src)) (drop b src) = Some (fold (\<lambda>xs s. process s xs) ps (process s (take b src)))"
      by blast
    with False show ?thesis
      by (intro exI [of _ "take b src # ps"]) (simp add: input_loop.simps [of b s src])
  qed
qed

lemma input_loop_stuck: "src \<noteq> [] \<Longrightarrow> input_loop 0 s src = None"
proof -
  have "b \<noteq> 0 \<or> src = []" if "input_loop b s src = Some y" for b y
  proof (rule input_loop.raw_induct [where P = "\<lambda>b s src y. b \<noteq> 0 \<or> src = []", OF _ that])
    fix loop :: "nat \<Rightarrow> hash256_one_by_one \<Rightarrow> byte_t list \<Rightarrow> hash256_one_by_one option" and b s src y
    assume "\<And>b s src y. loop b s src = Some y \<Longrightarrow> b \<noteq> 0 \<or> src = []"
      and "(if src = [] then Some s else loop b (process s (take b src)) (drop b src)) = Some y"
    then show "b \<noteq> 0 \<or> src = []" by (cases "src = []") fastforce+
  qed
  then show "src \<noteq> [] \<Longrightarrow> input_loop 0 s src = None" by (cases "input_loop 0 s src") auto
qed

text \<open>
  C27. The hash function is SHA-256. For every message below \<open>2 ^ 61\<close> bytes the header computes the digest
  of FIPS 180-4, although it works on 64-bit words, keeps the length in four 16-bit digits and pads
  in place: from the whole message, from a file read through a buffer of any positive size (only the
  size 0 never returns), and for an output range shorter than the digest its first bytes.
\<close>

theorem hash256_is_sha256:
  assumes "length m < 2 ^ 61"
  shows "hash256 m n = take n (sha256 m) \<and> hash256_hex_string m = output_hex (sha256 m) \<and>
    (\<forall>b. hash256_impl_input b m n = (if b = 0 \<and> m \<noteq> [] then None else Some (take n (sha256 m))))"
proof -
  have once: "hash256 m n = take n (sha256 m)" for n
    using hasher.digest_at_once [OF assms] by (simp add: hash256_def hash256_impl_random_def)
  have l: "length (foldl compress H bs) = 8" if "length H = 8" for H bs
    using that by (induction bs arbitrary: H) (simp_all add: length_compress)
  have "length (sha256 m) = 32"
    by (simp add: sha256_def length_concat comp_def be_bytes_def sum_list_triv l H0_def initial_message_digest_def)
  then have hex: "hash256_hex_string m = output_hex (sha256 m)"
    by (simp add: hash256_hex_string_def once k_digest_size_def)
  have "hash256_impl_input b m n = Some (take n (sha256 m))" if "b = 0 \<longrightarrow> m = []" for b
  proof (cases "b = 0")
    case True
    then show ?thesis
      using that hash_bytes_eq [OF absorbed_init, of n] by (simp add: hash256_impl_input_def input_loop.simps)
  next
    case False
    then obtain ps where ps: "concat ps = m" and "input_loop b hasher_init m = Some (fold (\<lambda>xs s. process s xs) ps hasher_init)"
      using input_loop_pieces [of b m hasher_init] by blast
    with hasher.digest_of_pieces [of ps n] assms show ?thesis by (simp add: hash256_impl_input_def)
  qed
  then show ?thesis using once hex input_loop_stuck by (auto simp: hash256_impl_input_def)
qed

theorem hash256_is_sha256_witness:
  "hash256 [0x61, 0x62, 0x63] 32 = take 32 (sha256 [0x61, 0x62, 0x63]) \<and>
   hash256_impl_input 0 [0x61] 32 = None"
  using hash256_is_sha256 [of "[0x61, 0x62, 0x63]" 32] hash256_is_sha256 [of "[0x61]" 32] by simp

text \<open>
  How a message is cut into pieces does not matter: any two ways to feed the same bytes to a hasher
  give the same digest.
\<close>

theorem process_pieces:
  assumes "concat ps = concat qs" "length (concat ps) < 2 ^ 61"
  shows "get_hash_bytes (finish (fold (\<lambda>xs s. process s xs) ps hasher_init)) n =
    get_hash_bytes (finish (fold (\<lambda>xs s. process s xs) qs hasher_init)) n"
  by (rule hasher.pieces_irrelevant [OF assms])

theorem process_pieces_witness:
  "get_hash_bytes (finish (process (process hasher_init [0x61]) [0x62, 0x63])) 32 =
    get_hash_bytes (finish (process hasher_init [0x61, 0x62, 0x63])) 32"
  using process_pieces [of "[[0x61], [0x62, 0x63]]" "[[0x61, 0x62, 0x63]]" 32] by simp

text \<open>What the constants are: the first 32 bits of the fractional parts of roots of the first primes.\<close>

definition first_primes :: "int list" where
  "first_primes =
    [2, 3, 5, 7, 11, 13, 17, 19, 23, 29, 31, 37, 41, 43, 47, 53, 59, 61, 67, 71, 73, 79, 83, 89, 97, 101, 103, 107, 109,
     113, 127, 131, 137, 139, 149, 151, 157, 163, 167, 173, 179, 181, 191, 193, 197, 199, 211, 223, 227, 229, 233, 239,
     241, 251, 257, 263, 269, 271, 277, 281, 283, 293, 307, 311]"

definition root_bits :: "nat \<Rightarrow> int \<Rightarrow> int \<Rightarrow> word_t \<Rightarrow> bool" where
  "root_bits k p m c \<longleftrightarrow>
     uint c < 2 ^ 32 \<and> (m * 2 ^ 32 + uint c) ^ k \<le> p * 2 ^ (32 * k) \<and> p * 2 ^ (32 * k) < (m * 2 ^ 32 + uint c + 1) ^ k"

text \<open>
  The tables are the standard's: the round constants are the first 32 bits of the fractional parts of
  the cube roots of the first 64 primes, the initial digest those of the square roots of the first 8.
\<close>

theorem sha256_constants:
  "list_all2 (\<lambda>p c. \<exists>m \<in> {1, 2, 3, 4, 5, 6}. root_bits 3 p m c) first_primes add_constant \<and>
   list_all2 (\<lambda>p c. \<exists>m \<in> {1, 2, 3, 4}. root_bits 2 p m c) (take 8 first_primes) initial_message_digest"
  by (simp add: first_primes_def add_constant_def initial_message_digest_def root_bits_def)

subsection \<open>Hexadecimal\<close>

definition hex_value :: "char \<Rightarrow> nat" where
  "hex_value c = (let n = of_char c in if n < 58 then n - 48 else n - 87)"

fun unhex :: "string \<Rightarrow> byte_t list" where
  "unhex (a # b # s) = word_of_nat (16 * hex_value a + hex_value b) # unhex s"
| "unhex s = []"

lemma hex_value_digit: "n < 16 \<Longrightarrow> hex_value (hex_digit n) = n"
  by (simp add: hex_value_def hex_digit_def of_char_of)

lemma hex_digit_class: "n < 16 \<Longrightarrow> hex_digit n \<in> set ''0123456789abcdef''"
proof -
  assume "n < 16"
  then have "n \<in> set [0..<16]" by simp
  moreover have "list_all (\<lambda>n. hex_digit n \<in> set ''0123456789abcdef'') [0..<16]" by code_simp
  ultimately show ?thesis by (simp add: list_all_iff)
qed

text \<open>
  Hexadecimal output can be read back: two lower-case digits per byte, and decoding gives the
  bytes; so different digests print differently.
\<close>

theorem output_hex_roundtrip:
  "length (output_hex bs) = 2 * length bs \<and> set (output_hex bs) \<subseteq> set ''0123456789abcdef'' \<and>
   unhex (output_hex bs) = bs"
proof (induction bs)
  case (Cons b bs)
  have "unat b < 256" using unsigned_less [of b, where 'a = nat] by simp
  then have n: "unat b div 16 < 16" "unat b mod 16 < 16" by simp_all
  have "word_of_nat (16 * (unat b div 16) + unat b mod 16) = b" by simp
  with Cons hex_digit_class [OF n(1)] hex_digit_class [OF n(2)] show ?case
    by (simp add: output_hex_def hex_value_digit n)
qed (simp add: output_hex_def)

end
