(* ===== verification/Crow_Sha1.thy ===== *)
theory Crow_Sha1
  imports Picosha2
begin

text \<open>
  The class \<^verbatim>\<open>sha1::SHA1\<close> of \<^verbatim>\<open>src/include/crow_all.h\<close> (used there for the WebSocket handshake). It takes its
  message byte by byte into a block buffer. Only the low 32 bits of the length are written, so the
  digest is the standard's for messages below \<open>2 ^ 29\<close> bytes; that is the bound of the lemmas.
\<close>

subsection \<open>The hasher\<close>

type_synonym uint32 = "32 word"

definition LeftRotate :: "uint32 \<Rightarrow> nat \<Rightarrow> uint32" where
  "LeftRotate value count = push_bit count value XOR drop_bit (32 - count) value"

record SHA1 =
  m_digest :: "uint32 list"
  m_block :: "byte_t list"
  m_blockByteIndex :: nat
  m_byteCount :: "64 word"

text \<open>The block is not initialised by \<^verbatim>\<open>reset\<close>; \<open>b\<close> is what it holds.\<close>

definition sha1_reset :: "byte_t list \<Rightarrow> SHA1" where
  "sha1_reset b =
     \<lparr>m_digest = [0x67452301, 0xEFCDAB89, 0x98BADCFE, 0x10325476, 0xC3D2E1F0],
      m_block = b, m_blockByteIndex = 0, m_byteCount = 0\<rparr>"

definition sha1_assign :: "SHA1 \<Rightarrow> SHA1 \<Rightarrow> SHA1" where
  "sha1_assign this s =
     this\<lparr>m_digest := m_digest s, m_block := m_block s, m_blockByteIndex := m_blockByteIndex s,
          m_byteCount := m_byteCount s\<rparr>"

definition sha1_load :: "byte_t list \<Rightarrow> nat \<Rightarrow> uint32" where
  "sha1_load block i =
     push_bit 24 (ucast (block ! (i * 4 + 0))) OR push_bit 16 (ucast (block ! (i * 4 + 1))) OR
     push_bit 8 (ucast (block ! (i * 4 + 2))) OR ucast (block ! (i * 4 + 3))"

definition sha1_expand :: "nat \<Rightarrow> uint32 list \<Rightarrow> uint32 list" where
  "sha1_expand i w = w[i := LeftRotate (w ! (i - 3) XOR w ! (i - 8) XOR w ! (i - 14) XOR w ! (i - 16)) 1]"

definition sha1_schedule :: "byte_t list \<Rightarrow> uint32 list" where
  "sha1_schedule block =
     fold sha1_expand [16..<80] (fold (\<lambda>i w. w[i := sha1_load block i]) [0..<16] (replicate 80 0))"

definition sha1_fk :: "nat \<Rightarrow> uint32 \<Rightarrow> uint32 \<Rightarrow> uint32 \<Rightarrow> uint32 \<times> uint32" where
  "sha1_fk i b c d =
     (if i < 20 then ((b AND c) OR (NOT b AND d), 0x5A827999)
      else if i < 40 then (b XOR c XOR d, 0x6ED9EBA1)
      else if i < 60 then ((b AND c) OR (b AND d) OR (c AND d), 0x8F1BBCDC)
      else (b XOR c XOR d, 0xCA62C1D6))"

type_synonym vars5 = "uint32 \<times> uint32 \<times> uint32 \<times> uint32 \<times> uint32"

fun sha1_round :: "uint32 list \<Rightarrow> nat \<Rightarrow> vars5 \<Rightarrow> vars5" where
  "sha1_round w i (a, b, c, d, e) =
     (let (f, k) = sha1_fk i b c d;
          temp = LeftRotate a 5 + f + e + k + w ! i
      in (temp, a, LeftRotate b 30, c, d))"

definition processBlock :: "SHA1 \<Rightarrow> SHA1" where
  "processBlock s =
     (let w = sha1_schedule (m_block s); D = m_digest s;
          (a, b, c, d, e) = fold (sha1_round w) [0..<80] (D ! 0, D ! 1, D ! 2, D ! 3, D ! 4)
      in s\<lparr>m_digest := [D ! 0 + a, D ! 1 + b, D ! 2 + c, D ! 3 + d, D ! 4 + e]\<rparr>)"

definition processByte :: "byte_t \<Rightarrow> SHA1 \<Rightarrow> SHA1" where
  "processByte octet s =
     (let s1 = s\<lparr>m_block := (m_block s)[m_blockByteIndex s := octet],
                 m_blockByteIndex := m_blockByteIndex s + 1, m_byteCount := m_byteCount s + 1\<rparr>
      in if m_blockByteIndex s1 = 64 then processBlock (s1\<lparr>m_blockByteIndex := 0\<rparr>) else s1)"

definition processBytes :: "SHA1 \<Rightarrow> byte_t list \<Rightarrow> SHA1" where
  "processBytes s data = fold processByte data s"

text \<open>
  The padding loops. \<open>while (index != 0)\<close> and \<open>while (index < 56)\<close> end after at most 64 bytes since the
  index moves by one and wraps at 64; the fuel 64 is their bound, and \<open>pad_zero_enough\<close> shows that it is
  enough.
\<close>

fun zeros_while :: "(nat \<Rightarrow> bool) \<Rightarrow> nat \<Rightarrow> SHA1 \<Rightarrow> SHA1 option" where
  "zeros_while P n s =
     (if \<not> P (m_blockByteIndex s) then Some s
      else case n of 0 \<Rightarrow> None | Suc m \<Rightarrow> zeros_while P m (processByte 0 s))"

declare zeros_while.simps [simp del]

definition sha1_pad :: "SHA1 \<Rightarrow> SHA1 option" where
  "sha1_pad s =
     (let s = processByte 0x80 s in
      if 56 < m_blockByteIndex s then
        Option.bind (zeros_while (\<lambda>i. i \<noteq> 0) 64 s) (zeros_while (\<lambda>i. i < 56) 64)
      else zeros_while (\<lambda>i. i < 56) 64 s)"

definition getDigest :: "SHA1 \<Rightarrow> uint32 list option" where
  "getDigest s =
     (let bitCount = m_byteCount s * 8 in
      map_option (\<lambda>s. m_digest (processBytes s
        [0, 0, 0, 0, ucast (drop_bit 24 bitCount AND 0xFF), ucast (drop_bit 16 bitCount AND 0xFF),
         ucast (drop_bit 8 bitCount AND 0xFF), ucast (bitCount AND 0xFF)])) (sha1_pad s))"

definition digest_word_bytes :: "uint32 \<Rightarrow> byte_t list" where
  "digest_word_bytes d =
     [ucast (drop_bit 24 d AND 0xFF), ucast (drop_bit 16 d AND 0xFF), ucast (drop_bit 8 d AND 0xFF), ucast (d AND 0xFF)]"

definition getDigestBytes :: "SHA1 \<Rightarrow> byte_t list option" where
  "getDigestBytes s = map_option (\<lambda>d. concat (map digest_word_bytes d)) (getDigest s)"


subsection \<open>Standard\<close>

definition sha1_f :: "nat \<Rightarrow> w32 \<Rightarrow> w32 \<Rightarrow> w32 \<Rightarrow> w32" where
  "sha1_f t x y z =
     (if t < 20 then Ch x y z else if t < 40 then x XOR y XOR z else if t < 60 then Maj x y z else x XOR y XOR z)"

definition sha1_K :: "nat \<Rightarrow> w32" where
  "sha1_K t = (if t < 20 then 0x5A827999 else if t < 40 then 0x6ED9EBA1 else if t < 60 then 0x8F1BBCDC else 0xCA62C1D6)"

function sha1_W :: "byte_t list \<Rightarrow> nat \<Rightarrow> w32" where
  "sha1_W block t =
     (if t < 16 then block_word block t
      else word_rotl 1 (sha1_W block (t - 3) XOR sha1_W block (t - 8) XOR sha1_W block (t - 14) XOR sha1_W block (t - 16)))"
  by pat_completeness auto
termination
  by (relation "measure snd") auto

declare sha1_W.simps [simp del]

fun sha1_step :: "byte_t list \<Rightarrow> nat \<Rightarrow> vars5 \<Rightarrow> vars5" where
  "sha1_step block t (a, b, c, d, e) =
     (word_rotl 5 a + sha1_f t b c d + e + sha1_K t + sha1_W block t, a, word_rotl 30 b, c, d)"

fun list_of_vars5 :: "vars5 \<Rightarrow> w32 list" where
  "list_of_vars5 (a, b, c, d, e) = [a, b, c, d, e]"

definition sha1_compress :: "w32 list \<Rightarrow> byte_t list \<Rightarrow> w32 list" where
  "sha1_compress H block =
     map2 (+) H (list_of_vars5 (fold (sha1_step block) [0..<80] (H ! 0, H ! 1, H ! 2, H ! 3, H ! 4)))"

definition sha1_H0 :: "w32 list" where
  "sha1_H0 = [0x67452301, 0xEFCDAB89, 0x98BADCFE, 0x10325476, 0xC3D2E1F0]"

definition sha1 :: "byte_t list \<Rightarrow> byte_t list" where
  "sha1 m = concat (map (\<lambda>w. be_bytes 4 (unat w)) (foldl sha1_compress sha1_H0 (blocks (padded m))))"

subsection \<open>One block\<close>

lemma LeftRotate_rotl:
  assumes "0 < n" "n < 32" shows "LeftRotate x n = word_rotl n x"
proof (rule bit_word_eqI)
  fix i assume "i < LENGTH(32)"
  then have i: "i < 32" by simp
  have m: "(i + (32 - n mod 32)) mod 32 = (if n \<le> i then i - n else i + (32 - n))"
    using assms i by (auto simp: mod_if)
  have rot: "bit (word_rotl n x) i \<longleftrightarrow> bit x (if n \<le> i then i - n else i + (32 - n))"
    unfolding bit_word_rotl_iff m [symmetric] using i by (simp only: len_num0 len_num1 len_bit0 len_bit1) simp
  have "\<not> bit x (32 - n + i)" if "n \<le> i" using that assms bit_imp_le_length [of x "32 - n + i"] by auto
  then show "bit (LeftRotate x n) i = bit (word_rotl n x) i"
    unfolding rot LeftRotate_def using assms i
    by (simp add: bit_xor_iff bit_push_bit_iff bit_drop_bit_eq add.commute)
qed

lemma sha1_fk_eq: "sha1_fk t b c d = (sha1_f t b c d, sha1_K t)"
proof -
  have "(b AND c) OR (NOT b AND d) = Ch b c d" "(b AND c) OR (b AND d) OR (c AND d) = Maj b c d"
    unfolding Ch_def Maj_def by (rule bit_word_eqI; auto simp: bit_simps)+
  then show ?thesis by (simp add: sha1_fk_def sha1_f_def sha1_K_def)
qed

lemma sha1_load_eq:
  assumes "length block = 64" "i < 16" shows "sha1_load block i = block_word block i"
proof -
  have "sha1_load block i = down (load_word block i)"
    unfolding sha1_load_def load_word_def mask_8bit_id
    by (rule bit_word_eqI) (auto simp: bit_simps)
  then show ?thesis by (simp add: load_word_up [OF assms])
qed

lemma sha1_expand_step:
  assumes "16 \<le> i" "i < 80" "length w = 80" "\<forall>t < i. w ! t = sha1_W block t"
  shows "length (sha1_expand i w) = 80 \<and> (\<forall>t < Suc i. sha1_expand i w ! t = sha1_W block t)"
proof -
  have "sha1_expand i w ! i = sha1_W block i"
    using assms by (subst sha1_W.simps) (simp add: sha1_expand_def LeftRotate_rotl)
  moreover have "sha1_expand i w ! t = w ! t" if "t \<noteq> i" for t
    using that by (simp add: sha1_expand_def)
  ultimately show ?thesis using assms by (auto simp: sha1_expand_def less_Suc_eq)
qed

lemma sha1_schedule_eq:
  assumes "length block = 64"
  shows "length (sha1_schedule block) = 80 \<and> (\<forall>t < 80. sha1_schedule block ! t = sha1_W block t)"
proof -
  let ?load = "\<lambda>i w. w[i := sha1_load block i]"
  let ?P = "\<lambda>n w. length w = 80 \<and> (\<forall>t < n. w ! t = sha1_W block t)"
  have "?P 16 (fold ?load [0..<16] (replicate 80 0))"
  proof (rule fold_upt)
    fix i and w :: "uint32 list" assume "i < 16" "?P i w"
    then show "?P (Suc i) (?load i w)"
      using sha1_load_eq [OF assms] by (auto simp: less_Suc_eq nth_list_update sha1_W.simps)
  qed simp_all
  then have "?P 80 (fold sha1_expand [16..<80] (fold ?load [0..<16] (replicate 80 0)))"
    by (rule fold_upt [rotated]) (use sha1_expand_step in blast, simp)
  then show ?thesis by (simp add: sha1_schedule_def)
qed

lemma sha1_round_eq:
  assumes "t < 80" "w ! t = sha1_W block t" shows "sha1_round w t v = sha1_step block t v"
  by (cases v) (simp add: sha1_fk_eq LeftRotate_rotl assms)

lemma processBlock_eq:
  assumes "length (m_digest s) = 5" "length (m_block s) = 64"
  shows "processBlock s = s\<lparr>m_digest := sha1_compress (m_digest s) (m_block s)\<rparr>"
proof -
  let ?D = "m_digest s" and ?w = "sha1_schedule (m_block s)"
  have "fold (sha1_round ?w) ts v = fold (sha1_step (m_block s)) ts v" if "\<forall>t \<in> set ts. t < 80" for ts v
    using that sha1_schedule_eq [OF assms(2)]
    by (induction ts arbitrary: v) (simp_all add: sha1_round_eq)
  from this [of "[0..<80]"]
  have f: "fold (sha1_round ?w) [0..<80] v = fold (sha1_step (m_block s)) [0..<80] v" for v by simp
  obtain a b c d e where v: "fold (sha1_step (m_block s)) [0..<80] (?D ! 0, ?D ! 1, ?D ! 2, ?D ! 3, ?D ! 4) = (a, b, c, d, e)"
    by (rule prod_cases5)
  have "length ?D = Suc (Suc (Suc (Suc (Suc 0))))" using assms(1) by simp
  then obtain d0 d1 d2 d3 d4 where D: "?D = [d0, d1, d2, d3, d4]" by (auto simp: length_Suc_conv)
  have "map2 (+) ?D [a, b, c, d, e] = [?D ! 0 + a, ?D ! 1 + b, ?D ! 2 + c, ?D ! 3 + d, ?D ! 4 + e]"
    unfolding D by simp
  then show ?thesis
    unfolding processBlock_def sha1_compress_def Let_def f v by simp
qed

lemma length_sha1_compress: "length H = 5 \<Longrightarrow> length (sha1_compress H block) = 5"
  by (cases "fold (sha1_step block) [0..<80] (H ! 0, H ! 1, H ! 2, H ! 3, H ! 4)") (simp add: sha1_compress_def)


subsection \<open>The hasher absorbs a message\<close>

definition sha1_absorbed :: "SHA1 \<Rightarrow> byte_t list \<Rightarrow> bool" where
  "sha1_absorbed s m \<longleftrightarrow>
     m_digest s = foldl sha1_compress sha1_H0 (blocks m) \<and> length (m_block s) = 64 \<and>
     m_blockByteIndex s = length m mod 64 \<and> take (length m mod 64) (m_block s) = remainder m \<and>
     m_byteCount s = word_of_nat (length m)"

lemma length_sha1_fold: "length H = 5 \<Longrightarrow> length (foldl sha1_compress H bs) = 5"
  by (induction bs arbitrary: H) (simp_all add: length_sha1_compress)

lemma absorbed_digest: "sha1_absorbed s m \<Longrightarrow> length (m_digest s) = 5"
  by (simp add: sha1_absorbed_def length_sha1_fold sha1_H0_def)

lemma sha1_absorbed_reset: "length b = 64 \<Longrightarrow> sha1_absorbed (sha1_reset b) []"
  by (simp add: sha1_absorbed_def sha1_reset_def blocks_short remainder_def sha1_H0_def)

lemma take_update: "i < length xs \<Longrightarrow> take (Suc i) (xs[i := x]) = take i xs @ [x]"
  by (simp add: take_Suc_conv_app_nth)

lemma absorbed_processByte:
  assumes "sha1_absorbed s m" shows "sha1_absorbed (processByte x s) (m @ [x])"
proof -
  let ?r = "length m mod 64" and ?b = "(m_block s)[m_blockByteIndex s := x]"
  have s: "length (m_block s) = 64" "m_blockByteIndex s = ?r" "take ?r (m_block s) = remainder m"
    "m_byteCount s = word_of_nat (length m)" "m_digest s = foldl sha1_compress sha1_H0 (blocks m)"
    using assms by (simp_all add: sha1_absorbed_def)
  have r: "?r < 64" by simp
  have tb: "take (Suc ?r) ?b = remainder m @ [x]" using take_update [of ?r "m_block s" x] s r by simp
  note split = blocks_append [of m "[x]"]
  show ?thesis
  proof (cases "?r = 63")
    case True
    then have full: "?b = remainder m @ [x]" "length (remainder m @ [x]) = 64"
      using tb s(1) by (simp_all add: length_remainder)
    have "blocks (remainder m @ [x]) = [remainder m @ [x]]" "remainder (remainder m @ [x]) = []"
      using blocks_one [OF full(2), of "[]"] full(2) by (simp_all add: blocks_short remainder_def)
    moreover have "Suc (length m) mod 64 = 0" using True by (simp add: mod_Suc)
    moreover have "m_digest (processByte x s) = sha1_compress (m_digest s) ?b"
      using True s(1,2) absorbed_digest [OF assms] by (simp add: processByte_def processBlock_eq Let_def)
    moreover have "m_blockByteIndex (processByte x s) = 0" "length (m_block (processByte x s)) = 64"
      "m_byteCount (processByte x s) = m_byteCount s + 1"
      using True s(1,2) absorbed_digest [OF assms] by (simp_all add: processByte_def processBlock_eq Let_def)
    ultimately show ?thesis using split full(1) s by (simp add: sha1_absorbed_def)
  next
    case False
    with r have le: "Suc ?r < 64" by simp
    then have i: "Suc (length m) mod 64 = Suc ?r" by (simp add: mod_Suc)
    have "length (remainder m @ [x]) < 64" using le by (simp add: length_remainder)
    then have "blocks (remainder m @ [x]) = []" "remainder (remainder m @ [x]) = remainder m @ [x]"
      by (simp_all add: blocks_short remainder_def)
    moreover have "processByte x s = s\<lparr>m_block := ?b, m_blockByteIndex := Suc ?r, m_byteCount := m_byteCount s + 1\<rparr>"
      using le s(2) by (simp add: processByte_def Let_def)
    ultimately show ?thesis using split tb s i by (simp add: sha1_absorbed_def)
  qed
qed

lemma absorbed_processBytes: "sha1_absorbed s m \<Longrightarrow> sha1_absorbed (processBytes s xs) (m @ xs)"
proof (induction xs arbitrary: s m)
  case (Cons x xs)
  from Cons.IH [OF absorbed_processByte [OF Cons.prems]] show ?case by (simp add: processBytes_def)
qed (simp add: processBytes_def)

text \<open>The loops end: after \<open>k\<close> zeros the condition fails for the first time, and \<open>k \<le> 64\<close>.\<close>

lemma zeros_while_eq:
  assumes "sha1_absorbed s m" "k \<le> n" "\<forall>j < k. P ((length m + j) mod 64)" "\<not> P ((length m + k) mod 64)"
  shows "zeros_while P n s = Some (processBytes s (replicate k 0))"
  using assms
proof (induction k arbitrary: s m n)
  case 0
  then show ?case by (subst zeros_while.simps) (simp add: sha1_absorbed_def processBytes_def)
next
  case (Suc k)
  from Suc.prems(2) obtain n' where n: "n = Suc n'" "k \<le> n'" by (cases n) auto
  have "P (m_blockByteIndex s)" using Suc.prems(1,3) [unfolded sha1_absorbed_def] by force
  then have "zeros_while P n s = zeros_while P n' (processByte 0 s)"
    by (subst zeros_while.simps) (simp add: n)
  also have "\<dots> = Some (processBytes (processByte 0 s) (replicate k 0))"
  proof (rule Suc.IH [OF absorbed_processByte [OF Suc.prems(1)] n(2)])
    show "\<forall>j < k. P ((length (m @ [0]) + j) mod 64)" using Suc.prems(3) by force
    show "\<not> P ((length (m @ [0]) + k) mod 64)" using Suc.prems(4) by simp
  qed
  finally show ?case by (simp add: processBytes_def)
qed


lemma sha1_pad_eq:
  assumes "sha1_absorbed s m"
  shows "sha1_pad s = Some (processBytes s (0x80 # replicate ((119 - length m mod 64) mod 64) 0))"
proof -
  let ?s = "processByte 0x80 s" and ?n = "length (m @ [0x80])"
  define r where "r = ?n mod 64"
  have q: "length m mod 64 < 64" by simp
  then have r: "r < 64" "r = (if length m mod 64 = 63 then 0 else Suc (length m mod 64))"
    by (auto simp: r_def mod_Suc)
  have i: "m_blockByteIndex ?s = r"
    using absorbed_processByte [OF assms, of "0x80"] by (simp add: sha1_absorbed_def r_def)
  note a = absorbed_processByte [OF assms, of "0x80"]
  have step: "(?n + k) mod 64 = (r + k) mod 64" for k unfolding r_def by (rule mod_add_left_eq [symmetric])
  then have small: "(?n + k) mod 64 = r + k" if "r + k < 64" for k using that by simp
  show ?thesis
  proof (cases "56 < r")
    case True
    from step [of "64 - r"] have n1: "(?n + (64 - r)) mod 64 = 0" using r(1) by simp
    have "zeros_while (\<lambda>i. i \<noteq> 0) 64 ?s = Some (processBytes ?s (replicate (64 - r) 0))"
      using True r(1) small n1 by (intro zeros_while_eq [OF a]) (simp_all del: length_append)
    moreover have "zeros_while (\<lambda>i. i < 56) 64 (processBytes ?s (replicate (64 - r) 0)) =
        Some (processBytes (processBytes ?s (replicate (64 - r) 0)) (replicate 56 0))"
    proof (rule zeros_while_eq [OF absorbed_processBytes [OF a]])
      have "(?n + (64 - r) + j) mod 64 = j mod 64" for j
        using n1 mod_add_left_eq [of "?n + (64 - r)" 64 j] by simp
      then have e: "(length ((m @ [0x80]) @ replicate (64 - r) 0) + j) mod 64 = j mod 64" for j
        by (simp only: length_append length_replicate)
      show "\<forall>j<56. (length ((m @ [0x80]) @ replicate (64 - r) 0) + j) mod 64 < 56"
        "\<not> (length ((m @ [0x80]) @ replicate (64 - r) 0) + 56) mod 64 < 56"
        unfolding e by simp_all
    qed simp
    moreover have "(119 - length m mod 64) mod 64 = (64 - r) + 56"
      using True r padding_length [OF q] by (auto split: if_splits)
    ultimately show ?thesis
      using True i by (simp add: sha1_pad_def Let_def processBytes_def replicate_add)
  next
    case False
    have "zeros_while (\<lambda>i. i < 56) 64 ?s = Some (processBytes ?s (replicate (56 - r) 0))"
    proof (rule zeros_while_eq [OF a])
      show "\<forall>j<56 - r. (?n + j) mod 64 < 56" "\<not> (?n + (56 - r)) mod 64 < 56"
        using False small [of "56 - r"] by (auto simp: small simp del: length_append)
    qed simp
    moreover have "(119 - length m mod 64) mod 64 = 56 - r"
      using False r padding_length [OF q] by (auto split: if_splits)
    ultimately show ?thesis
      using False i by (simp add: sha1_pad_def Let_def processBytes_def)
  qed
qed

lemma low_byte: "ucast (drop_bit k (x :: word_t) AND 0xFF) = (word_of_nat (unat x div 2 ^ k) :: byte_t)"
proof -
  have m: "(0xFF :: word_t) = mask 8" by (simp add: mask_eq_exp_minus_1)
  have "ucast (drop_bit k x AND 0xFF) = (ucast (drop_bit k x) :: byte_t)"
    unfolding m take_bit_eq_mask [symmetric] by (rule bit_word_eqI) (simp add: bit_simps)
  then show ?thesis
    using unat_less [of x]
    unfolding word_unat_eq_iff unsigned_ucast_eq unsigned_drop_bit_eq unat_of_nat
    by (simp add: drop_bit_eq_div take_bit_eq_mod)
qed

lemma length_bytes:
  assumes "length m < 2 ^ 29" "b = (word_of_nat (length m) :: word_t) * 8"
  shows "[0, 0, 0, 0, ucast (drop_bit 24 b AND 0xFF), ucast (drop_bit 16 b AND 0xFF),
     ucast (drop_bit 8 b AND 0xFF), ucast (b AND 0xFF)] = be_bytes 8 (8 * length m)"
proof -
  have "b = word_of_nat (8 * length m)" using assms(2) by (simp add: mult.commute)
  then have b: "unat b = 8 * length m"
    using assms(1) by (simp only: unat_of_nat) (simp add: take_bit_nat_eq_self)
  have "ucast (b AND 0xFF) = (word_of_nat (unat b) :: byte_t)" using low_byte [of 0 b] by simp
  then show ?thesis
    using assms(1) unfolding low_byte b by (simp add: be_bytes_def upt_rec)
qed

lemma getDigest_eq:
  assumes "sha1_absorbed s m" "length m < 2 ^ 29"
  shows "getDigest s = Some (foldl sha1_compress sha1_H0 (blocks (padded m)))"
proof -
  have "m_byteCount s = word_of_nat (length m)" using assms(1) by (simp add: sha1_absorbed_def)
  note lb = length_bytes [OF assms(2) arg_cong [OF this, of "\<lambda>c. c * 8"]]
  have "sha1_absorbed (processBytes s (0x80 # replicate ((119 - length m mod 64) mod 64) 0 @ be_bytes 8 (8 * length m)))
      (padded m)"
    using absorbed_processBytes [OF assms(1)] by (simp add: padded_def)
  then show ?thesis
    unfolding getDigest_def Let_def sha1_pad_eq [OF assms(1)] lb
    by (simp add: sha1_absorbed_def processBytes_def)
qed

lemma digest_word_bytes_eq: "digest_word_bytes d = be_bytes 4 (unat d)"
proof -
  have "ucast (drop_bit k d AND 0xFF) = (word_of_nat (unat d div 2 ^ k) :: byte_t)" for k
  proof -
    have m: "(0xFF :: uint32) = mask 8" by (simp add: mask_eq_exp_minus_1)
    have "unat d < 2 ^ 32" using unsigned_less [of d, where 'a = nat] by simp
    moreover have "ucast (drop_bit k d AND 0xFF) = (ucast (drop_bit k d) :: byte_t)"
      unfolding m take_bit_eq_mask [symmetric] by (rule bit_word_eqI) (simp add: bit_simps)
    ultimately show ?thesis
      unfolding word_unat_eq_iff unsigned_ucast_eq unsigned_drop_bit_eq unat_of_nat
      by (simp add: drop_bit_eq_div take_bit_eq_mod)
  qed
  from this [of 24] this [of 16] this [of 8] this [of 0] show ?thesis
    by (simp add: digest_word_bytes_def be_bytes_def upt_rec)
qed

lemma getDigestBytes_eq:
  "sha1_absorbed s m \<Longrightarrow> length m < 2 ^ 29 \<Longrightarrow> getDigestBytes s = Some (sha1 m)"
  using digest_word_bytes_eq by (simp add: getDigestBytes_def getDigest_eq sha1_def cong: map_cong)

text \<open>The block of a new hasher may hold anything: its bytes are \<open>f 0, \<dots>, f 63\<close>.\<close>

interpretation sha1: stream_hash "sha1_reset (map f [0..<64])" processBytes getDigestBytes sha1_absorbed
  "2 ^ 29" "\<lambda>m. Some (sha1 m)" for f
  by unfold_locales (simp_all add: sha1_absorbed_reset absorbed_processBytes getDigestBytes_eq)

text \<open>
  C28. The class computes SHA-1. For every message below \<open>2 ^ 29\<close> bytes, fed in any pieces, whatever the
  block buffer held before, the padding loops end and the bytes returned are the digest of FIPS 180-4;
  a copy of a hasher continues like the original.
\<close>

theorem sha1_is_sha1:
  assumes "length (concat ps) < 2 ^ 29" "length b = 64"
  shows "getDigestBytes (fold (\<lambda>xs s. processBytes s xs) ps (sha1_reset b)) = Some (sha1 (concat ps)) \<and>
    sha1_assign t (fold (\<lambda>xs s. processBytes s xs) ps (sha1_reset b)) =
      fold (\<lambda>xs s. processBytes s xs) ps (sha1_reset b)"
proof -
  have "map (\<lambda>i. b ! i) [0..<64] = b" using assms(2) map_nth [of b] by simp
  then have "getDigestBytes (fold (\<lambda>xs s. processBytes s xs) ps (sha1_reset b)) = Some (sha1 (concat ps))"
    using sha1.digest_of_pieces [OF assms(1), of "\<lambda>i. b ! i"] by simp
  moreover have "sha1_assign t s = s" for s by (cases t; cases s) (simp add: sha1_assign_def)
  ultimately show ?thesis by simp
qed

theorem sha1_is_sha1_witness:
  "getDigestBytes (processBytes (processBytes (sha1_reset (replicate 64 7)) [0x61]) [0x62, 0x63]) =
     Some (sha1 [0x61, 0x62, 0x63])"
  using sha1_is_sha1 [of "[[0x61], [0x62, 0x63]]" "replicate 64 7"] by simp

end
