(* ===== verification/Crow_Utility.thy ===== *)
theory Crow_Utility
  imports Prelude "HOL-Library.Word"
begin

unbundle bit_operations_syntax

text \<open>
  Functions of the namespace \<^verbatim>\<open>crow::utility\<close> of \<^verbatim>\<open>src/include/crow_all.h\<close>: Base64 and the sanitising of file
  names. A pointer with a size is the list of the bytes it spans. Reading outside this list, which C++
  leaves undefined, is \<open>None\<close>.
\<close>

subsection \<open>Base64\<close>

definition std_key :: string where
  "std_key = ''ABCDEFGHIJKLMNOPQRSTUVWXYZabcdefghijklmnopqrstuvwxyz0123456789+/''"

definition urlsafe_key :: string where
  "urlsafe_key = ''ABCDEFGHIJKLMNOPQRSTUVWXYZabcdefghijklmnopqrstuvwxyz0123456789-_''"

abbreviation (input) pad_char :: char where "pad_char \<equiv> CHR ''=''"

text \<open>The four indices into the alphabet; \<open>high\<close> and \<open>middle\<close> are what the variable \<^verbatim>\<open>h\<close> keeps of a byte.\<close>

definition high :: "8 word \<Rightarrow> 8 word" where "high x = push_bit 4 (x AND 0x03)"
definition middle :: "8 word \<Rightarrow> 8 word" where "middle y = push_bit 2 (y AND 0x0F)"
definition index1 :: "8 word \<Rightarrow> 8 word" where "index1 x = drop_bit 2 (x AND 0xFC)"
definition index2 :: "8 word \<Rightarrow> 8 word \<Rightarrow> 8 word" where "index2 x y = high x OR drop_bit 4 (y AND 0xF0)"
definition index3 :: "8 word \<Rightarrow> 8 word \<Rightarrow> 8 word" where "index3 y z = middle y OR drop_bit 6 (z AND 0xC0)"
definition index4 :: "8 word \<Rightarrow> 8 word" where "index4 z = z AND 0x3F"

lemmas index_defs = high_def middle_def index1_def index2_def index3_def index4_def

fun base64encode :: "string \<Rightarrow> 8 word list \<Rightarrow> string" where
  "base64encode key (x # y # z # data) =
     key ! unat (index1 x) # key ! unat (index2 x y) # key ! unat (index3 y z) # key ! unat (index4 z)
       # base64encode key data"
| "base64encode key [x] = [key ! unat (index1 x), key ! unat (high x), pad_char, pad_char]"
| "base64encode key [x, y] = [key ! unat (index1 x), key ! unat (index2 x y), key ! unat (middle y), pad_char]"
| "base64encode key [] = []"

definition base64encode_urlsafe :: "8 word list \<Rightarrow> string" where
  "base64encode_urlsafe data = base64encode urlsafe_key data"

definition char_byte :: "char \<Rightarrow> 8 word" where
  "char_byte c = word_of_nat (of_char c)"

text \<open>A \<^verbatim>\<open>char\<close> is signed; its bytes above 127 are negative and in none of the ranges.\<close>

definition decode_key :: "char \<Rightarrow> 8 word" where
  "decode_key c =
     (let n = of_char c :: nat in
      if 65 \<le> n \<and> n \<le> 90 then word_of_nat (n - 65)
      else if 97 \<le> n \<and> n \<le> 122 then word_of_nat (n - 97 + 26)
      else if 48 \<le> n \<and> n \<le> 57 then word_of_nat (n - 48 + 52)
      else if c = CHR ''+'' \<or> c = CHR ''-'' then 62
      else if c = CHR ''/'' \<or> c = CHR ''_'' then 63
      else 0)"

text \<open>The number of bytes; the last two characters are looked at only if the size needs it.\<close>

definition decoded_size :: "string \<Rightarrow> nat option" where
  "decoded_size data =
     (let n = length data in
      if n mod 4 = 2 then Some (n div 4 * 3 + 1)
      else if n mod 4 = 3 then Some (n div 4 * 3 + 2)
      else if n < 2 then None
      else if data ! (n - 2) = pad_char then Some (n div 4 * 3 - 2)
      else if data ! (n - 1) = pad_char then Some (n div 4 * 3 - 1)
      else Some (n div 4 * 3))"

definition dec_char1 :: "8 word \<Rightarrow> 8 word \<Rightarrow> 8 word" where
  "dec_char1 o1 e1 = push_bit 2 o1 OR drop_bit 4 (e1 AND 0x30)"

definition dec_char2 :: "8 word \<Rightarrow> 8 word \<Rightarrow> 8 word" where
  "dec_char2 e1 o1 = push_bit 4 (e1 AND 0x0F) OR drop_bit 2 (o1 AND 0x3C)"

definition dec_char3 :: "8 word \<Rightarrow> 8 word \<Rightarrow> 8 word" where
  "dec_char3 o1 e1 = push_bit 6 (o1 AND 0x03) OR e1"

fun decode_loop :: "nat \<Rightarrow> string \<Rightarrow> 8 word list option" where
  "decode_loop (Suc (Suc (Suc n))) data =
     (case data of
        a # b # c # d # rest \<Rightarrow>
          map_option (\<lambda>r. dec_char1 (decode_key a) (decode_key b) # dec_char2 (decode_key b) (decode_key c)
              # dec_char3 (decode_key c) (decode_key d) # r) (decode_loop n rest)
      | _ \<Rightarrow> None)"
| "decode_loop (Suc (Suc 0)) data =
     (case data of
        a # b # c # rest \<Rightarrow>
          Some [dec_char1 (decode_key a) (decode_key b), dec_char2 (decode_key b) (decode_key c)]
      | _ \<Rightarrow> None)"
| "decode_loop (Suc 0) data =
     (case data of a # b # rest \<Rightarrow> Some [dec_char1 (decode_key a) (decode_key b)] | _ \<Rightarrow> None)"
| "decode_loop 0 data = Some []"

definition base64decode :: "string \<Rightarrow> 8 word list option" where
  "base64decode data = Option.bind (decoded_size data) (\<lambda>size. decode_loop size data)"

subsection \<open>Decoding after encoding\<close>

lemma byte_bits: "(n :: nat) < LENGTH(8) \<Longrightarrow> n = 0 \<or> n = 1 \<or> n = 2 \<or> n = 3 \<or> n = 4 \<or> n = 5 \<or> n = 6 \<or> n = 7"
  by auto

lemma sextets:
  "dec_char1 (index1 x) (index2 x y) = x" "dec_char2 (index2 x y) (index3 y z) = y"
  "dec_char3 (index3 y z) (index4 z) = z" "dec_char1 (index1 x) (high x) = x"
  "dec_char2 (index2 x y) (middle y) = y"
  by (rule bit_word_eqI, drule byte_bits,
      elim disjE; simp add: dec_char1_def dec_char2_def dec_char3_def index_defs bit_simps)+

lemma decode_keys:
  "map decode_key std_key = map word_of_nat [0..<64]" "map decode_key urlsafe_key = map word_of_nat [0..<64]"
  "length std_key = 64" "length urlsafe_key = 64" "pad_char \<notin> set std_key" "pad_char \<notin> set urlsafe_key"
  by (simp_all add: std_key_def urlsafe_key_def decode_key_def upt_rec)

text \<open>The facts about an alphabet that the round trip uses.\<close>

definition alphabet :: "string \<Rightarrow> bool" where
  "alphabet key = (map decode_key key = map word_of_nat [0..<64] \<and> pad_char \<notin> set key)"

lemma alphabet_keys: "alphabet std_key" "alphabet urlsafe_key"
  by (simp_all add: alphabet_def decode_keys)

lemma alphabet_length: "alphabet key \<Longrightarrow> length key = 64"
  unfolding alphabet_def by (metis diff_zero length_map length_upt)

lemma alphabet_nth:
  assumes "alphabet key" and "w < (64 :: 8 word)"
  shows "decode_key (key ! unat w) = w" "key ! unat w \<noteq> pad_char" "key ! unat w \<in> set key"
proof -
  have n: "unat w < 64" using assms(2) by (simp add: word_less_nat_alt)
  then have l: "unat w < length key" using assms(1) by (simp add: alphabet_length)
  have "decode_key (key ! unat w) = map decode_key key ! unat w" using l by simp
  also have "\<dots> = map word_of_nat [0..<64] ! unat w" using assms(1) by (simp add: alphabet_def)
  also have "\<dots> = w" using n by simp
  finally show "decode_key (key ! unat w) = w" .
  show "key ! unat w \<in> set key" using l by simp
  then show "key ! unat w \<noteq> pad_char" using assms(1) by (auto simp: alphabet_def)
qed

lemma sextet_below:
  "index1 x < 64" "index2 x y < 64" "index3 y z < 64" "index4 z < 64" "high x < 64" "middle y < 64"
proof -
  have below: "take_bit 6 w = w \<Longrightarrow> w < 64" for w :: "8 word"
    using take_bit_int_less_exp [of 6 "uint w"] by (simp add: word_less_def flip: unsigned_take_bit_eq)
  show "index1 x < 64" "index2 x y < 64" "index3 y z < 64" "index4 z < 64" "high x < 64" "middle y < 64"
    by (rule below, rule bit_word_eqI, drule byte_bits, elim disjE; simp add: index_defs bit_simps)+
qed

text \<open>The encoding without the padding, and the padding.\<close>

definition base64_unpadded :: "string \<Rightarrow> string" where
  "base64_unpadded e = takeWhile (\<lambda>c. c \<noteq> pad_char) e"

lemma encode_length: "length (base64encode key data) = 4 * ((length data + 2) div 3)"
proof (induction key data rule: base64encode.induct)
  case (1 key x y z data)
  have "(length (x # y # z # data) + 2) div 3 = (length data + 2) div 3 + 1" by simp
  then show ?case using 1 by simp
qed simp_all

lemma unpadded_encode:
  assumes "alphabet key"
  shows "base64encode key data
      = base64_unpadded (base64encode key data) @ replicate ((3 - length data mod 3) mod 3) pad_char
    \<and> length (base64_unpadded (base64encode key data)) = (4 * length data + 2) div 3"
  using assms
proof (induction key data rule: base64encode.induct)
  case (1 key x y z data)
  have "(3 - length (x # y # z # data) mod 3) mod 3 = (3 - length data mod 3) mod 3" by simp
  then show ?case
    using 1 by (simp add: base64_unpadded_def alphabet_nth sextet_below)
qed (simp_all add: base64_unpadded_def alphabet_nth sextet_below numeral_2_eq_2)

lemma decode_loop_encode:
  assumes "alphabet key"
  shows "decode_loop (length data) (base64_unpadded (base64encode key data) @ rest) = Some data"
  using assms
proof (induction key data rule: base64encode.induct)
  case (1 key x y z data)
  then show ?case
    by (simp add: base64_unpadded_def alphabet_nth sextet_below sextets)
qed (simp_all add: base64_unpadded_def alphabet_nth sextet_below sextets numeral_2_eq_2)

lemma decoded_size_encode:
  assumes "alphabet key" and "data \<noteq> []"
  shows "decoded_size (base64encode key data) = Some (length data)"
    and "decoded_size (base64_unpadded (base64encode key data)) = Some (length data)"
proof -
  define e where "e = base64_unpadded (base64encode key data)"
  define k where "k = (3 - length data mod 3) mod 3"
  define n where "n = length data"
  have n: "0 < n" using assms(2) by (simp add: n_def)
  have split: "base64encode key data = e @ replicate k pad_char" and len: "length e = (4 * n + 2) div 3"
    using unpadded_encode [OF assms(1), of data] by (simp_all add: e_def k_def n_def)
  have pure: "c \<in> set e \<Longrightarrow> c \<noteq> pad_char" for c
    unfolding e_def base64_unpadded_def by (auto dest: set_takeWhileD)
  have last_chars: "i < length e \<Longrightarrow> e ! i \<noteq> pad_char" for i using pure nth_mem by blast
  obtain q r where nqr: "n = 3 * q + r" and r: "r < 3"
    using mod_less_divisor [of 3 n] div_mult_mod_eq [of n 3] by (metis mult.commute zero_less_numeral)
  have k: "k = (3 - r) mod 3" using r by (simp add: k_def nqr flip: n_def)
  consider "r = 0" "k = 0" "length e = 4 * q" "0 < q" | "r = 1" "k = 2" "length e = 4 * q + 2"
    | "r = 2" "k = 1" "length e = 4 * q + 3"
  proof -
    consider "r = 0" | "r = 1" | "r = 2" using r by linarith
    then show ?thesis
      by cases (use k len n that in \<open>simp_all add: nqr\<close>)
  qed
  then have "decoded_size (e @ replicate k pad_char) = Some n \<and> decoded_size e = Some n"
  proof cases
    case 2
    have "replicate 2 pad_char = [pad_char, pad_char]" "(4 * q + 2) mod 4 = 2" "(4 * q + 2) div 4 = q"
      by (simp add: numeral_2_eq_2, presburger, presburger)
    then show ?thesis using 2 by (simp add: decoded_size_def Let_def nqr nth_append)
  qed (auto simp: decoded_size_def Let_def nqr nth_append last_chars)
  then show "decoded_size (base64encode key data) = Some (length data)"
    "decoded_size (base64_unpadded (base64encode key data)) = Some (length data)"
    by (simp_all only: e_def [symmetric] n_def) (simp_all add: split)
qed

lemma decode_loop_defined:
  "(4 * n + 2) div 3 \<le> length e \<Longrightarrow> \<exists>d. decode_loop n e = Some d \<and> length d = n"
proof (induction n e rule: decode_loop.induct)
  case (1 n e)
  have "(4 * Suc (Suc (Suc n)) + 2) div 3 = (4 * n + 2) div 3 + 4" by presburger
  then have "4 \<le> length e" using "1.prems" by (metis le_add2 le_trans)
  then obtain a b c d rest where e: "e = a # b # c # d # rest"
    by (auto simp: numeral_eq_Suc Suc_le_length_iff)
  have "(4 * n + 2) div 3 \<le> length rest" using "1.prems" by (simp add: e)
  then obtain r where "decode_loop n rest = Some r" "length r = n" using "1.IH" [OF e refl refl refl] by blast
  then show ?case by (simp add: e)
next
  case (2 e)
  then have "Suc (Suc (Suc 0)) \<le> length e" by simp
  then show ?case by (auto simp: Suc_le_length_iff)
next
  case (3 e)
  then have "Suc (Suc 0) \<le> length e" by simp
  then show ?case by (auto simp: Suc_le_length_iff)
qed simp

lemma decode_encode:
  assumes "alphabet key" and "data \<noteq> []"
  shows "base64decode (base64encode key data) = Some data"
proof -
  have "base64encode key data = base64_unpadded (base64encode key data)
      @ replicate ((3 - length data mod 3) mod 3) pad_char"
    using unpadded_encode [OF assms(1)] by blast
  then have "decode_loop (length data) (base64encode key data) = Some data"
    using decode_loop_encode [OF assms(1)] by metis
  then show ?thesis by (simp add: base64decode_def decoded_size_encode [OF assms])
qed

interpretation base64_std: codec "base64encode std_key" base64decode "\<lambda>data. data \<noteq> []"
  by unfold_locales (rule decode_encode [OF alphabet_keys(1)])

interpretation base64_urlsafe: codec base64encode_urlsafe base64decode "\<lambda>data. data \<noteq> []"
  by unfold_locales (simp add: base64encode_urlsafe_def decode_encode [OF alphabet_keys(2)])

text \<open>
  C29. Base64 decoding inverts Base64 encoding of a non-empty text, with the standard and with the URL-safe alphabet, with the
  padding and without it, and encoding \<open>n\<close> bytes gives \<open>4 \<lceil>n / 3\<rceil>\<close> characters.
\<close>

theorem base64_roundtrip:
  assumes "key \<in> {std_key, urlsafe_key}" and "data \<noteq> []"
  shows "base64decode (base64encode key data) = Some data
    \<and> base64decode (base64_unpadded (base64encode key data)) = Some data
    \<and> length (base64encode key data) = 4 * ((length data + 2) div 3)"
proof -
  have a: "alphabet key" using assms(1) alphabet_keys by auto
  show ?thesis
    using decode_encode [OF a assms(2)] decode_loop_encode [OF a, of data "[]"]
    by (simp add: base64decode_def decoded_size_encode [OF a assms(2)] encode_length)
qed

lemma base64_roundtrip_witness:
  "base64decode (base64encode std_key [77, 97]) = Some [77, 97] \<and> base64encode std_key [77, 97] = ''TWE=''"
  using base64_roundtrip [of std_key "[77, 97]"] by (simp add: index_defs std_key_def)

text \<open>
  C30. Decoding an arbitrary text of at least two characters never reads outside it and gives at most three
  bytes for four characters; decoding fewer than two characters reads before the beginning of the text.
\<close>

theorem base64decode_in_bounds:
  "case base64decode e of None \<Rightarrow> length e < 2 | Some d \<Rightarrow> 2 \<le> length e \<and> 4 * length d \<le> 3 * length e"
proof (cases "length e < 2")
  case True
  then show ?thesis by (cases e) (auto simp: base64decode_def decoded_size_def less_2_cases_iff)
next
  case False
  define q r where "q = length e div 4" and "r = length e mod 4"
  then have qr: "length e div 4 = q" "length e mod 4 = r" "4 * q + r = length e" by simp_all
  have "\<exists>n. decoded_size e = Some n \<and> 4 * n \<le> 4 * (q * 3) + 3 * r"
    using False by (simp add: decoded_size_def Let_def qr(1,2)) (intro conjI impI; linarith)
  then obtain n where n: "decoded_size e = Some n" "4 * n \<le> 4 * (q * 3) + 3 * r" by blast
  then have n3: "4 * n \<le> 3 * length e" using qr(3) by linarith
  then have "(4 * n + 2) div 3 \<le> length e" by linarith
  then show ?thesis using n3 n(1) decode_loop_defined [of n e] False by (auto simp: base64decode_def)
qed

subsection \<open>Sanitising file names\<close>

definition between :: "char \<Rightarrow> char \<Rightarrow> char \<Rightarrow> bool" where
  "between a c b = ((of_char a :: nat) \<le> of_char c \<and> (of_char c :: nat) \<le> of_char b)"

definition toUpper :: "char \<Rightarrow> char" where
  "toUpper c = (if between (CHR ''a'') c (CHR ''z'') then char_of (of_char c - (32 :: nat)) else c)"

definition is_slash :: "char \<Rightarrow> bool" where
  "is_slash c = (c = CHR ''/'' \<or> c = CHR 0x5C)"

definition stops_name :: "char \<Rightarrow> bool" where
  "stops_name c = (c = CHR ''.'' \<or> c = CHR '':'' \<or> c = CHR ''/'' \<or> c = CHR 0x5C)"

definition is_forbidden :: "char \<Rightarrow> bool" where
  "is_forbidden c =
     ((of_char c :: nat) < 0x20 \<or> (0x80 \<le> (of_char c :: nat) \<and> (of_char c :: nat) \<le> 0x9F) \<or> c = CHR ''?'' \<or> c = CHR ''<''
      \<or> c = CHR ''>'' \<or> c = CHR '':'' \<or> c = CHR ''*'' \<or> c = CHR ''|'' \<or> c = CHR 0x22)"

text \<open>The loop over the pattern; \<open>Some i\<close> is the position behind the match, \<open>None\<close> an early return.\<close>

fun match_pattern :: "string \<Rightarrow> nat \<Rightarrow> string \<Rightarrow> nat option" where
  "match_pattern source i [] = Some i"
| "match_pattern source i (p # pattern) =
     (if length source \<le> i then None
      else if toUpper (source ! i) \<noteq> p then None
      else match_pattern source (Suc i) pattern)"

definition erase :: "nat \<Rightarrow> nat \<Rightarrow> string \<Rightarrow> string" where
  "erase ofs n s = take ofs s @ drop (ofs + n) s"

definition sanitizeSpecialFile :: "string \<Rightarrow> nat \<Rightarrow> string \<Rightarrow> bool \<Rightarrow> char \<Rightarrow> string" where
  "sanitizeSpecialFile source ofs pattern includeNumber replacement =
     (case match_pattern source ofs pattern of
        None \<Rightarrow> source
      | Some i \<Rightarrow>
          if includeNumber \<and> (length source \<le> i \<or> \<not> between (CHR ''1'') (source ! i) (CHR ''9'')) then source
          else let i = (if includeNumber then Suc i else i)
               in if length source \<le> i \<or> stops_name (source ! i)
                  then (erase (ofs + 1) (i - ofs - 1) source)[ofs := replacement]
                  else source)"

definition sanitize_special :: "char \<Rightarrow> nat \<Rightarrow> string \<Rightarrow> string" where
  "sanitize_special replacement i data =
     (let c = toUpper (data ! i) in
      if c = CHR ''A'' then sanitizeSpecialFile data i ''AUX'' False replacement
      else if c = CHR ''C'' then
        sanitizeSpecialFile (sanitizeSpecialFile data i ''CON'' False replacement) i ''COM'' True replacement
      else if c = CHR ''L'' then sanitizeSpecialFile data i ''LPT'' True replacement
      else if c = CHR ''N'' then sanitizeSpecialFile data i ''NUL'' False replacement
      else if c = CHR ''P'' then sanitizeSpecialFile data i ''PRN'' False replacement
      else if c = CHR ''.'' then sanitizeSpecialFile data i ''..'' False replacement
      else data)"

definition sanitize_char :: "char \<Rightarrow> nat \<Rightarrow> string \<Rightarrow> string \<times> bool" where
  "sanitize_char replacement i data =
     (let c = data ! i in
      if is_forbidden c then (data[i := replacement], False)
      else if is_slash c then if i = 0 then (data[i := replacement], False) else (data, True)
      else (data, False))"

definition sanitize_step :: "char \<Rightarrow> nat \<Rightarrow> bool \<Rightarrow> string \<Rightarrow> string \<times> bool" where
  "sanitize_step replacement i checkForSpecialEntries data =
     sanitize_char replacement i
       (if checkForSpecialEntries then sanitize_special replacement i data else data)"

lemma sanitizeSpecialFile_length: "length (sanitizeSpecialFile s i p num r) \<le> length s"
  by (auto simp: sanitizeSpecialFile_def erase_def Let_def split: option.split)

lemma sanitize_step_length: "length (fst (sanitize_step r i b s)) \<le> length s"
proof -
  have "length (sanitize_special r i s) \<le> length s"
    by (auto simp: sanitize_special_def Let_def sanitizeSpecialFile_length
        intro: order_trans [OF sanitizeSpecialFile_length sanitizeSpecialFile_length])
  then show ?thesis by (auto simp: sanitize_step_def sanitize_char_def Let_def)
qed

function sanitize_loop :: "char \<Rightarrow> nat \<Rightarrow> bool \<Rightarrow> string \<Rightarrow> string" where
  "sanitize_loop replacement i checkForSpecialEntries data =
     (if i < length data then
        case sanitize_step replacement i checkForSpecialEntries data of
          (data', check) \<Rightarrow> sanitize_loop replacement (i + 1) check data'
      else data)"
  by pat_completeness auto

termination
proof (relation "measure (\<lambda>(r, i, b, data). length data - i)")
  fix r i b data data' check
  assume "i < length data" and "(data', check) = sanitize_step r i b data"
  moreover have "length data' \<le> length data"
    using calculation(2) sanitize_step_length [of r i b data] by (metis fst_conv)
  ultimately show "((r, i + 1, check, data'), r, i, b, data) \<in> measure (\<lambda>(r, i, b, data). length data - i)"
    by simp
qed simp

declare sanitize_loop.simps [simp del]

definition sanitize_filename :: "string \<Rightarrow> char \<Rightarrow> string" where
  "sanitize_filename data replacement = sanitize_loop replacement 0 True (take 255 data)"

subsection \<open>The loops as structural recursions\<close>

text \<open>What follows a device name, if the text begins with it and is not a longer name.\<close>

fun strip_name :: "string \<Rightarrow> bool \<Rightarrow> string \<Rightarrow> string option" where
  "strip_name (p # ps) num [] = None"
| "strip_name (p # ps) num (c # cs) = (if toUpper c = p then strip_name ps num cs else None)"
| "strip_name [] True [] = None"
| "strip_name [] True (c # cs) = (if between (CHR ''1'') c (CHR ''9'') then strip_name [] False cs else None)"
| "strip_name [] False t = (if t = [] \<or> stops_name (hd t) then Some t else None)"

definition cut_name :: "char \<Rightarrow> string \<Rightarrow> bool \<Rightarrow> string \<Rightarrow> string" where
  "cut_name r p num t = (case strip_name p num t of None \<Rightarrow> t | Some rest \<Rightarrow> r # rest)"

lemma match_pattern_bounds: "match_pattern s i p = Some j \<Longrightarrow> i + length p = j"
  by (induction s i p rule: match_pattern.induct) (auto split: if_splits)

lemma strip_name_match:
  "i \<le> length s \<Longrightarrow> strip_name p num (drop i s) =
    (case match_pattern s i p of
       None \<Rightarrow> None
     | Some j \<Rightarrow>
         if num \<and> (length s \<le> j \<or> \<not> between (CHR ''1'') (s ! j) (CHR ''9'')) then None
         else let j = (if num then Suc j else j)
              in if length s \<le> j \<or> stops_name (s ! j) then Some (drop j s) else None)"
proof (induction s i p rule: match_pattern.induct)
  case (1 s i)
  have stop: "strip_name [] False (drop k s) = (if length s \<le> k \<or> stops_name (s ! k) then Some (drop k s) else None)" for k
    by (cases "length s \<le> k") (auto simp: hd_drop_conv_nth)
  show ?case
  proof (cases "num \<and> i < length s")
    case True
    then show ?thesis using stop [of "Suc i"] by (simp add: Cons_nth_drop_Suc [symmetric] Let_def)
  next
    case False
    then show ?thesis using stop [of i] by (cases num) (auto simp: Let_def)
  qed
next
  case (2 s i p ps)
  show ?case
  proof (cases "i < length s")
    case True
    then show ?thesis using 2 by (simp add: Cons_nth_drop_Suc [symmetric])
  qed (use 2 in simp)
qed

lemma sanitizeSpecialFile_cut:
  assumes "i < length s" and "p \<noteq> []"
  shows "sanitizeSpecialFile s i p num r = take i s @ cut_name r p num (drop i s)"
proof (cases "match_pattern s i p")
  case None
  then show ?thesis
    using strip_name_match [of i s p num] assms by (simp add: sanitizeSpecialFile_def cut_name_def)
next
  case (Some j)
  define j' where "j' = (if num then Suc j else j)"
  have "i < j'" using match_pattern_bounds [OF Some] assms(2) by (auto simp: j'_def)
  then have "(erase (i + 1) (j' - i - 1) s)[i := r] = take i s @ r # drop j' s"
    using assms(1) by (simp add: erase_def take_Suc_conv_app_nth list_update_append)
  then show ?thesis
    using strip_name_match [of i s p num] assms Some
    by (auto simp: sanitizeSpecialFile_def cut_name_def Let_def j'_def [symmetric])
qed

definition cut_special :: "char \<Rightarrow> string \<Rightarrow> string" where
  "cut_special r t =
     (if t = [] then [] else
      let c = toUpper (hd t) in
      if c = CHR ''A'' then cut_name r ''AUX'' False t
      else if c = CHR ''C'' then cut_name r ''COM'' True (cut_name r ''CON'' False t)
      else if c = CHR ''L'' then cut_name r ''LPT'' True t
      else if c = CHR ''N'' then cut_name r ''NUL'' False t
      else if c = CHR ''P'' then cut_name r ''PRN'' False t
      else if c = CHR ''.'' then cut_name r ''..'' False t
      else t)"

lemma strip_name_length: "strip_name p num t = Some rest \<Longrightarrow> length rest \<le> length t"
  by (induction p num t rule: strip_name.induct) (auto split: if_splits)

lemma strip_name_shorter: "strip_name p num t = Some rest \<Longrightarrow> p \<noteq> [] \<Longrightarrow> length rest < length t"
  by (cases p; cases t) (auto split: if_splits dest: strip_name_length)

lemma cut_name_length [simp]: "p \<noteq> [] \<Longrightarrow> length (cut_name r p num t) \<le> length t"
  by (auto simp: cut_name_def Suc_le_eq strip_name_shorter split: option.split)

lemma cut_name_empty [simp]: "p \<noteq> [] \<Longrightarrow> cut_name r p num t = [] \<longleftrightarrow> t = []"
  by (cases p; cases t) (auto simp: cut_name_def split: option.split)

lemma cut_special_length [simp]: "length (cut_special r t) \<le> length t"
  by (auto simp: cut_special_def Let_def intro: order_trans [OF cut_name_length cut_name_length])

lemma cut_special_empty [simp]: "cut_special r t = [] \<longleftrightarrow> t = []"
  by (simp add: cut_special_def Let_def)

lemma cut_special_Nil [simp]: "cut_special r [] = []"
  by simp

lemma sanitize_special_cut:
  assumes "i < length s"
  shows "sanitize_special r i s = take i s @ cut_special r (drop i s)"
proof -
  have again: "sanitizeSpecialFile (take i s @ t) i p num r = take i s @ cut_name r p num t"
    if "t \<noteq> []" "p \<noteq> []" for t p num
    using sanitizeSpecialFile_cut [of i "take i s @ t" p num r] that assms by simp
  show ?thesis
    using assms by (simp add: sanitize_special_def cut_special_def Let_def hd_drop_conv_nth
        sanitizeSpecialFile_cut again)
qed

lemma cut_special_shorter: "(if b then cut_special r t else t) = c # cs \<Longrightarrow> length cs < length t"
  using cut_special_length [of r t] by (cases b) auto

function scan :: "char \<Rightarrow> bool \<Rightarrow> bool \<Rightarrow> string \<Rightarrow> string" where
  "scan r first check t =
     (case (if check then cut_special r t else t) of
        [] \<Rightarrow> []
      | c # cs \<Rightarrow>
          if is_forbidden c then r # scan r False False cs
          else if is_slash c then if first then r # scan r False False cs else c # scan r False True cs
          else c # scan r False False cs)"
  by pat_completeness auto

termination
  by (relation "measure (\<lambda>(r, first, check, t). length t)") (auto dest: cut_special_shorter)

declare scan.simps [simp del]

lemma sanitize_loop_scan:
  "i \<le> length s \<Longrightarrow> sanitize_loop r i b s = take i s @ scan r (i = 0) b (drop i s)"
proof (induction r i b s rule: sanitize_loop.induct)
  case (1 r i b s)
  show ?case
  proof (cases "i < length s")
    case False
    then have "i = length s" using 1 by simp
    then show ?thesis by (subst sanitize_loop.simps) (simp add: scan.simps)
  next
    case True
    define t where "t = (if b then cut_special r (drop i s) else drop i s)"
    obtain c cs where t: "t = c # cs"
      using True by (cases t) (auto simp: t_def split: if_splits)
    have "(if b then sanitize_special r i s else s) = take i s @ c # cs"
      using sanitize_special_cut [OF True, of r] t
      by (cases b) (simp_all add: t_def, metis append_take_drop_id)
    then have step: "sanitize_step r i b s = sanitize_char r i (take i s @ c # cs)"
      by (simp add: sanitize_step_def)
    have scan: "scan r (i = 0) b (drop i s) =
        (if is_forbidden c then r # scan r False False cs
         else if is_slash c then if i = 0 then r # scan r False False cs else c # scan r False True cs
         else c # scan r False False cs)"
      using t by (subst scan.simps) (simp add: t_def [symmetric])
    have len: "length (take i s) = i" using True by simp
    have ih: "sanitize_step r i b s = (take i s @ d # cs, b') \<Longrightarrow>
        sanitize_loop r (i + 1) b' (take i s @ d # cs) = take i s @ d # scan r False b' cs" for d b'
      using "1.IH" [OF True, of "take i s @ d # cs" b'] True by simp
    show ?thesis
      unfolding scan using True ih
      by (subst sanitize_loop.simps) (auto simp: step sanitize_char_def Let_def nth_append len list_update_append)
  qed
qed

lemma sanitize_filename_scan: "sanitize_filename s r = scan r True True (take 255 s)"
  by (simp add: sanitize_filename_def sanitize_loop_scan)

subsection \<open>What a sanitised name is\<close>

definition device_names :: "string list" where
  "device_names = [''AUX'', ''CON'', ''NUL'', ''PRN''] @ map (\<lambda>d. ''COM'' @ [d]) ''123456789''
     @ map (\<lambda>d. ''LPT'' @ [d]) ''123456789''"

fun components :: "string \<Rightarrow> string list" where
  "components [] = [[]]"
| "components (c # s) =
     (if is_slash c then [] # components s
      else case components s of [] \<Rightarrow> [[c]] | p # ps \<Rightarrow> (c # p) # ps)"

definition reserved :: "string \<Rightarrow> bool" where
  "reserved p =
     (take 3 p \<in> {''..'', ''...''} \<or> map toUpper (takeWhile (\<lambda>c. c \<noteq> CHR ''.'') p) \<in> set device_names)"

definition clean_name :: "string \<Rightarrow> bool" where
  "clean_name s =
     (length s \<le> 255 \<and> list_all (\<lambda>c. \<not> is_forbidden c) s \<and> (s = [] \<or> \<not> is_slash (hd s))
      \<and> list_all (\<lambda>p. \<not> reserved p) (components s))"

text \<open>A replacement that is in no reserved name and itself allowed, such as the default \<^verbatim>\<open>_\<close>.\<close>

definition harmless :: "char \<Rightarrow> bool" where
  "harmless r =
     (\<not> is_forbidden r \<and> \<not> is_slash r \<and> list_all (\<lambda>n. toUpper r \<notin> set n) (''..'' # device_names))"

definition dangerous :: "string \<Rightarrow> bool" where
  "dangerous t = (\<exists>n \<in> set (''..'' # device_names). strip_name n False t \<noteq> None)"

lemma between_digits: "between (CHR ''1'') c (CHR ''9'') \<longleftrightarrow> c \<in> set ''123456789''"
proof
  assume "between (CHR ''1'') c (CHR ''9'')"
  then have "(of_char c :: nat) \<in> set [49..<58]"
    by (simp only: between_def set_upt atLeastLessThan_iff) simp
  also have "set [49..<58 :: nat] = of_char ` set ''123456789''" by (simp add: upt_rec)
  finally show "c \<in> set ''123456789''" by (simp only: inj_image_mem_iff [OF inj_of_char])
qed (auto simp: between_def)

lemma toUpper_digit: "d \<in> set ''123456789'' \<Longrightarrow> toUpper c = d \<longleftrightarrow> c = d"
proof -
  assume d: "d \<in> set ''123456789''"
  show "toUpper c = d \<longleftrightarrow> c = d"
  proof (cases "between (CHR ''a'') c (CHR ''z'')")
    case True
    then have c: "97 \<le> (of_char c :: nat)" "(of_char c :: nat) \<le> 122" by (simp_all add: between_def)
    then have "(of_char (toUpper c) :: nat) = of_char c - 32" using True by (simp add: toUpper_def)
    moreover have "(of_char d :: nat) < 60" using d by auto
    ultimately show ?thesis using c by auto
  qed (simp add: toUpper_def)
qed

lemma strip_name_number:
  "strip_name p True t = None \<longleftrightarrow> (\<forall>d \<in> set ''123456789''. strip_name (p @ [d]) False t = None)"
proof (induction p arbitrary: t)
  case Nil
  show ?case
    by (cases t) (auto simp: between_digits toUpper_digit simp del: insert_iff list.set)
next
  case (Cons q p)
  then show ?case by (cases t) (simp_all del: list.set)
qed

lemma dangerous_iff:
  "dangerous t \<longleftrightarrow> (\<exists>n \<in> {''..'', ''AUX'', ''CON'', ''NUL'', ''PRN''}. strip_name n False t \<noteq> None)
    \<or> strip_name ''COM'' True t \<noteq> None \<or> strip_name ''LPT'' True t \<noteq> None"
proof -
  have names: "set (''..'' # device_names) = {''..'', ''AUX'', ''CON'', ''NUL'', ''PRN''}
      \<union> (\<lambda>d. ''COM'' @ [d]) ` set ''123456789'' \<union> (\<lambda>d. ''LPT'' @ [d]) ` set ''123456789''"
    unfolding device_names_def set_append set_map list.set(2) [of "''..''"] by auto
  show ?thesis
    unfolding dangerous_def names strip_name_number by (simp only: bex_Un bex_simps not_all ball_simps) blast
qed

subsection \<open>A dangerous beginning is cut\<close>

lemma cut_name_None: "strip_name p num t = None \<Longrightarrow> cut_name r p num t = t"
  by (simp add: cut_name_def)

lemma cut_special_id: "\<not> dangerous t \<Longrightarrow> cut_special r t = t"
  by (auto simp: dangerous_iff cut_special_def cut_name_None Let_def)

lemma strip_name_head: "strip_name (p # ps) num t = Some rest \<Longrightarrow> t \<noteq> [] \<and> toUpper (hd t) = p"
  by (cases t) (auto split: if_splits)

lemma harmless_letters:
  assumes "harmless r"
  shows "toUpper r \<notin> set ''ACLNP.''" and "\<And>n. n \<in> set (''..'' # device_names) \<Longrightarrow> toUpper r \<notin> set n"
  using assms by (auto simp: harmless_def device_names_def)

lemma dangerous_head: "dangerous t \<Longrightarrow> t \<noteq> [] \<and> toUpper (hd t) \<in> set ''ACLNP.''"
  unfolding dangerous_iff by (auto dest: strip_name_head)

lemma not_dangerous_replaced: "harmless r \<Longrightarrow> \<not> dangerous (r # rest)"
  using dangerous_head [of "r # rest"] harmless_letters(1) [of r] by auto

lemma cut_special_dangerous:
  assumes "harmless r" and "dangerous t"
  shows "\<exists>rest. cut_special r t = r # rest"
proof -
  have same: "cut_name r (p # ps) num (r # rest) = r # rest" if "p \<in> set ''ACLNP.''" for p ps num rest
    using that harmless_letters(1) [OF assms(1)] by (simp add: cut_name_def) metis
  have cut: "\<exists>rest. cut_name r p num t = r # rest" if "strip_name p num t \<noteq> None" for p num
    using that by (auto simp: cut_name_def)
  have upper: "strip_name (p # ps) num t \<noteq> None \<Longrightarrow> toUpper (hd t) = p" for p ps num
    using strip_name_head by fastforce
  have "t \<noteq> []" using dangerous_head [OF assms(2)] by blast
  then have branch: "toUpper (hd t) = c \<Longrightarrow> cut_special r t =
      (if c = CHR ''A'' then cut_name r ''AUX'' False t
       else if c = CHR ''C'' then cut_name r ''COM'' True (cut_name r ''CON'' False t)
       else if c = CHR ''L'' then cut_name r ''LPT'' True t
       else if c = CHR ''N'' then cut_name r ''NUL'' False t
       else if c = CHR ''P'' then cut_name r ''PRN'' False t
       else if c = CHR ''.'' then cut_name r ''..'' False t
       else t)" for c
    by (simp add: cut_special_def)
  consider p ps where "strip_name (p # ps) False t \<noteq> None" "p # ps \<in> {''..'', ''AUX'', ''NUL'', ''PRN''}"
    | "strip_name ''CON'' False t \<noteq> None"
    | "strip_name ''CON'' False t = None" "strip_name ''COM'' True t \<noteq> None"
    | "strip_name ''LPT'' True t \<noteq> None"
    using assms(2) unfolding dangerous_iff by blast
  then show ?thesis
  proof cases
    case 1
    then show ?thesis using branch [OF upper [OF 1(1)]] cut [OF 1(1)] by auto
  next
    case 2
    then show ?thesis using branch [OF upper [OF 2]] cut [OF 2] same by auto
  next
    case 3
    then show ?thesis using branch [OF upper [OF 3(2)]] cut [OF 3(2)] by (simp add: cut_name_None)
  next
    case 4
    then show ?thesis using branch [OF upper [OF 4]] cut [OF 4] by simp
  qed
qed

lemma not_dangerous_cut: "harmless r \<Longrightarrow> \<not> dangerous (cut_special r t)"
  using cut_special_dangerous [of r t] cut_special_id [of t r] not_dangerous_replaced by metis

subsection \<open>What the scan keeps up to the next separator\<close>

fun kept :: "char \<Rightarrow> string \<Rightarrow> string \<Rightarrow> bool" where
  "kept r [] [] = True"
| "kept r (c # cs) (d # ds) = (d = c \<and> is_slash c \<or> (d = c \<or> d = r) \<and> kept r cs ds)"
| "kept r _ _ = False"

lemma kept_scan: "kept r t (scan r first False t)"
proof (induction t arbitrary: first)
  case (Cons c t)
  then show ?case by (subst scan.simps) auto
qed (simp add: scan.simps)

lemma harmless_stops:
  assumes "harmless r"
  shows "\<not> stops_name r"
proof -
  have "toUpper (CHR ''.'') = CHR ''.''" by (simp add: toUpper_def between_def)
  then have "r \<noteq> CHR ''.''" using harmless_letters(1) [OF assms] by auto
  moreover have "is_forbidden (CHR '':'')" by (simp add: is_forbidden_def)
  ultimately show ?thesis using assms unfolding harmless_def stops_name_def is_slash_def by metis
qed

lemma kept_strip_name:
  assumes "kept r s t" and "harmless r" and "toUpper r \<notin> set n" and "\<And>c. is_slash c \<Longrightarrow> c \<notin> set n"
    and "strip_name n False t \<noteq> None"
  shows "strip_name n False s \<noteq> None"
  using assms
proof (induction r s t arbitrary: n rule: kept.induct)
  case (2 r c cs d ds)
  show ?case
  proof (cases n)
    case Nil
    then show ?thesis using 2 harmless_stops by (auto split: if_splits)
  next
    case (Cons p ps)
    have upper: "toUpper c = c" if "is_slash c"
      using that by (auto simp: is_slash_def toUpper_def between_def)
    have d: "toUpper d = p" "strip_name ps False ds \<noteq> None" using 2(6) Cons by (auto split: if_splits)
    then have "d \<noteq> r" using 2(4) Cons by auto
    then have "d = c" using 2(2) by auto
    moreover have "\<not> is_slash c" using 2(5) [of c] upper d(1) \<open>d = c\<close> Cons by auto
    ultimately have "kept r cs ds" using 2(2) by auto
    then have "strip_name ps False cs \<noteq> None" using 2(1) [of ps] 2(3-5) d(2) Cons by auto
    then show ?thesis using d(1) \<open>d = c\<close> Cons by simp
  qed
qed auto

lemma kept_dangerous:
  assumes "kept r s t" and "harmless r" and "dangerous t"
  shows "dangerous s"
proof -
  obtain n where n: "n \<in> set (''..'' # device_names)" "strip_name n False t \<noteq> None"
    using assms(3) unfolding dangerous_def by blast
  have "\<forall>n \<in> set (''..'' # device_names). CHR ''/'' \<notin> set n \<and> CHR 0x5C \<notin> set n"
    by (simp add: device_names_def)
  then have "\<And>c. is_slash c \<Longrightarrow> c \<notin> set n" using n(1) unfolding is_slash_def by blast
  then have "strip_name n False s \<noteq> None"
    using kept_strip_name [OF assms(1,2) harmless_letters(2) [OF assms(2) n(1)]] n(2) by blast
  then show ?thesis using n(1) unfolding dangerous_def by blast
qed

subsection \<open>Names are clean after sanitising\<close>

fun starts_ok :: "bool \<Rightarrow> string \<Rightarrow> bool" where
  "starts_ok b [] = True"
| "starts_ok b (c # cs) = ((b \<longrightarrow> \<not> dangerous (c # cs)) \<and> starts_ok (is_slash c) cs)"

lemma scan_checked: "scan r first True t = scan r first False (cut_special r t)"
  by (subst (1 2) scan.simps) simp

lemma not_dangerous_scan: "harmless r \<Longrightarrow> \<not> dangerous (scan r first True t)"
  using kept_dangerous [OF kept_scan] not_dangerous_cut scan_checked by metis

lemma scan_starts_ok: "harmless r \<Longrightarrow> starts_ok b (scan r first b t)"
proof (induction r first b t rule: scan.induct)
  case (1 r first b t)
  note step = scan.simps [of r first b t]
  have start: "b \<longrightarrow> \<not> dangerous (scan r first b t)"
    using not_dangerous_scan [OF "1.prems"] by auto
  show ?case
  proof (cases "if b then cut_special r t else t")
    case Nil
    then show ?thesis using step by simp
  next
    case (Cons c cs)
    have r: "\<not> is_slash r" using "1.prems" by (simp add: harmless_def)
    show ?thesis
      using start r "1.IH" [OF Cons] "1.prems" unfolding step Cons
      by (auto split: if_splits)
  qed
qed

lemma scan_allowed: "harmless r \<Longrightarrow> list_all (\<lambda>c. \<not> is_forbidden c) (scan r first b t)"
proof (induction r first b t rule: scan.induct)
  case (1 r first b t)
  then show ?case
    by (subst scan.simps) (auto simp: harmless_def split: list.split)
qed

lemma scan_first:
  assumes "harmless r"
  shows "scan r True b t = [] \<or> \<not> is_slash (hd (scan r True b t))"
proof (cases "if b then cut_special r t else t")
  case Nil
  then show ?thesis using scan.simps [of r True b t] by simp
next
  case (Cons c cs)
  then show ?thesis
    using assms scan.simps [of r True b t] by (simp add: harmless_def)
qed

lemma scan_length: "length (scan r first b t) \<le> length t"
proof (induction r first b t rule: scan.induct)
  case (1 r first b t)
  show ?case
  proof (cases "if b then cut_special r t else t")
    case Nil
    then show ?thesis using scan.simps [of r first b t] by simp
  next
    case (Cons c cs)
    then show ?thesis
      using "1.IH" [OF Cons] cut_special_shorter [OF Cons] scan.simps [of r first b t]
      by (auto intro: Suc_leI le_less_trans)
  qed
qed

lemma scan_id:
  assumes "starts_ok b t" and "list_all (\<lambda>c. \<not> is_forbidden c) t" and "first \<longrightarrow> t = [] \<or> \<not> is_slash (hd t)"
  shows "scan r first b t = t"
  using assms
proof (induction t arbitrary: first b)
  case (Cons c t)
  then have "(if b then cut_special r (c # t) else c # t) = c # t" by (simp add: cut_special_id)
  moreover have "scan r False (is_slash c) t = t" using Cons by simp
  ultimately show ?case using Cons scan.simps [of r first b "c # t"] by (cases "is_slash c") auto
qed (simp add: scan.simps)

lemma strip_name_split:
  "strip_name n False s \<noteq> None \<longleftrightarrow>
    map toUpper (take (length n) s) = n \<and> (drop (length n) s = [] \<or> stops_name (hd (drop (length n) s)))"
proof (induction n arbitrary: s)
  case (Cons p n)
  then show ?case by (cases s) auto
qed auto

lemma components_hd:
  "\<exists>p ps rest. components s = p # ps \<and> s = p @ rest \<and> (\<forall>c \<in> set p. \<not> is_slash c) \<and> (rest = [] \<or> is_slash (hd rest))"
proof (induction s)
  case (Cons c s)
  then obtain p ps rest where IH: "components s = p # ps" "s = p @ rest" "\<forall>c \<in> set p. \<not> is_slash c"
    "rest = [] \<or> is_slash (hd rest)" by blast
  show ?case
  proof (cases "is_slash c")
    case False
    then have "components (c # s) = (c # p) # ps" "c # s = (c # p) @ rest" using IH by simp_all
    then show ?thesis using False IH by (metis set_ConsD)
  qed auto
qed simp

text \<open>Whether a text begins dangerously depends on its first component only.\<close>

lemma device_chars:
  "n \<in> set device_names \<Longrightarrow> length n \<in> {3, 4} \<and> (\<forall>c \<in> set n. c \<noteq> CHR ''.'' \<and> c \<noteq> CHR ''/'' \<and> c \<noteq> CHR 0x5C)"
  by (auto simp: device_names_def)

lemma toUpper_same: "c = CHR ''.'' \<or> is_slash c \<Longrightarrow> toUpper c = c"
  by (auto simp: is_slash_def toUpper_def between_def)

lemma device_component:
  assumes n: "n \<in> set device_names" and p: "\<forall>c \<in> set p. \<not> is_slash c" and rest: "rest = [] \<or> is_slash (hd rest)"
    and colon: "CHR '':'' \<notin> set p"
  shows "strip_name n False (p @ rest) \<noteq> None \<longleftrightarrow> map toUpper (takeWhile (\<lambda>c. c \<noteq> CHR ''.'') p) = n"
proof
  assume "strip_name n False (p @ rest) \<noteq> None"
  then have take: "map toUpper (take (length n) (p @ rest)) = n"
    and drop: "drop (length n) (p @ rest) = [] \<or> stops_name (hd (drop (length n) (p @ rest)))"
    unfolding strip_name_split by simp_all
  have pure: "c \<noteq> CHR ''.'' \<and> \<not> is_slash c" if "c \<in> set (take (length n) (p @ rest))" for c
  proof -
    have "toUpper c \<in> set n" using that take by (metis image_eqI list.set_map)
    then show ?thesis using device_chars [OF n] toUpper_same [of c] by (auto simp: is_slash_def)
  qed
  have len: "length n \<le> length p"
  proof (rule ccontr)
    assume "\<not> length n \<le> length p"
    then obtain k where k: "length n = length p + Suc k" by (metis less_imp_Suc_add linorder_not_le add_Suc_right)
    have "length (map toUpper (take (length n) (p @ rest))) = length n" using take by simp
    then have "rest \<noteq> []" using k by auto
    then have "rest \<noteq> []" "hd rest \<in> set (take (length n) (p @ rest))"
      using k by (cases rest; simp)+
    then show False using rest pure by blast
  qed
  have p_split: "p = take (length n) p @ drop (length n) p" by simp
  have "drop (length n) p = [] \<or> hd (drop (length n) p) = CHR ''.''"
  proof (cases "drop (length n) p")
    case (Cons c cs)
    then have "stops_name c" using drop len by simp
    moreover have "c \<in> set p" using Cons by (metis in_set_dropD list.set_intros(1))
    ultimately show ?thesis using Cons p colon by (auto simp: stops_name_def is_slash_def)
  qed simp
  then have "takeWhile (\<lambda>c. c \<noteq> CHR ''.'') p = take (length n) p"
    using pure len p_split by (subst p_split, subst takeWhile_append2) (auto simp: takeWhile_eq_Nil_iff)
  then show "map toUpper (takeWhile (\<lambda>c. c \<noteq> CHR ''.'') p) = n" using take len by simp
next
  assume eq: "map toUpper (takeWhile (\<lambda>c. c \<noteq> CHR ''.'') p) = n"
  define w v where "w = takeWhile (\<lambda>c. c \<noteq> CHR ''.'') p" and "v = dropWhile (\<lambda>c. c \<noteq> CHR ''.'') p"
  have wv: "p = w @ v" by (simp add: w_def v_def)
  have w: "map toUpper w = n" "length n = length w" using eq by (auto simp: w_def)
  have "v = [] \<or> hd v = CHR ''.''"
    using hd_dropWhile [of "\<lambda>c. c \<noteq> CHR ''.''" p] by (auto simp: v_def)
  then have "v @ rest = [] \<or> stops_name (hd (v @ rest))"
    using rest by (cases v) (auto simp: stops_name_def is_slash_def)
  then show "strip_name n False (p @ rest) \<noteq> None"
    unfolding strip_name_split wv w(2) using w(1) by simp
qed

lemma dots_component:
  assumes "\<forall>c \<in> set p. \<not> is_slash c" and "rest = [] \<or> is_slash (hd rest)" and "CHR '':'' \<notin> set p"
  shows "strip_name ''..'' False (p @ rest) \<noteq> None \<longleftrightarrow> take 3 p \<in> {''..'', ''...''}"
proof -
  have dot: "toUpper c = CHR ''.'' \<longleftrightarrow> c = CHR ''.''" for c
    by (auto simp: toUpper_def between_def dest: arg_cong [of _ _ "of_char :: char \<Rightarrow> nat"])
  have stop: "stops_name (CHR ''.'')" "is_slash c \<Longrightarrow> stops_name c" "is_slash c \<Longrightarrow> c \<noteq> CHR ''.''" for c
    by (auto simp: stops_name_def is_slash_def)
  consider "p = []" | a where "p = [a]" | a b where "p = [a, b]" | a b c q where "p = a # b # c # q"
    by (metis list.exhaust)
  then show ?thesis
  proof cases
    case 4
    then show ?thesis using assms by (auto simp: dot stop stops_name_def is_slash_def numeral_3_eq_3)
  qed (use assms in \<open>cases rest; auto simp: dot stop numeral_3_eq_3\<close>)+
qed

lemma dangerous_component:
  assumes "components s = p # ps" and "CHR '':'' \<notin> set s"
  shows "dangerous s \<longleftrightarrow> reserved p"
proof -
  obtain rest where rest: "s = p @ rest" "\<forall>c \<in> set p. \<not> is_slash c" "rest = [] \<or> is_slash (hd rest)"
    using components_hd [of s] assms(1) by auto
  have colon: "CHR '':'' \<notin> set p" using assms(2) rest(1) by simp
  have "dangerous s \<longleftrightarrow> strip_name ''..'' False (p @ rest) \<noteq> None
      \<or> (\<exists>n \<in> set device_names. strip_name n False (p @ rest) \<noteq> None)"
    by (simp add: dangerous_def rest(1))
  also have "\<dots> \<longleftrightarrow> reserved p"
    unfolding dots_component [OF rest(2,3) colon] reserved_def
    using device_component [OF _ rest(2,3) colon] by auto
  finally show ?thesis .
qed

lemma not_reserved_Nil: "\<not> reserved []"
  by (simp add: reserved_def device_names_def)

lemma components_nonempty: "components s \<noteq> []"
  using components_hd [of s] by auto

lemma starts_ok_components:
  "CHR '':'' \<notin> set s \<Longrightarrow> starts_ok b s \<longleftrightarrow>
    (b \<longrightarrow> \<not> reserved (hd (components s))) \<and> list_all (\<lambda>p. \<not> reserved p) (List.tl (components s))"
proof (induction s arbitrary: b)
  case (Cons c s)
  obtain p ps where ps: "components (c # s) = p # ps" using components_hd [of "c # s"] by blast
  obtain q qs where qs: "components s = q # qs" using components_hd [of s] by blast
  have "ps = (if is_slash c then q # qs else qs)" using ps qs by (simp split: if_splits)
  then show ?case
    unfolding ps starts_ok.simps dangerous_component [OF ps Cons.prems] using Cons qs by simp
qed (simp add: not_reserved_Nil)

lemma starts_ok_clean:
  "CHR '':'' \<notin> set s \<Longrightarrow> starts_ok True s \<longleftrightarrow> list_all (\<lambda>p. \<not> reserved p) (components s)"
  using components_hd [of s] by (auto simp: starts_ok_components)

lemma allowed_colon: "list_all (\<lambda>c. \<not> is_forbidden c) s \<Longrightarrow> CHR '':'' \<notin> set s"
  by (auto simp: list_all_iff is_forbidden_def)

text \<open>
  C31. With a harmless replacement, sanitising gives a clean name: at most 255 bytes, no control or wildcard
  character, not absolute, and no component that is \<^verbatim>\<open>..\<close> or a device such as \<^verbatim>\<open>con\<close> or \<^verbatim>\<open>Lpt1.txt\<close>;
  and a clean name is left as it is.
\<close>

theorem sanitize_filename_clean:
  assumes "harmless r"
  shows "clean_name (sanitize_filename s r) \<and> (clean_name s \<longrightarrow> sanitize_filename s r = s)"
proof (intro conjI impI)
  let ?t = "sanitize_filename s r"
  have allowed: "list_all (\<lambda>c. \<not> is_forbidden c) ?t"
    unfolding sanitize_filename_scan by (rule scan_allowed [OF assms])
  have "length ?t \<le> 255"
    unfolding sanitize_filename_scan using scan_length [of r True True "take 255 s"] by simp
  moreover have "?t = [] \<or> \<not> is_slash (hd ?t)"
    unfolding sanitize_filename_scan by (rule scan_first [OF assms])
  moreover have "list_all (\<lambda>p. \<not> reserved p) (components ?t)"
    using scan_starts_ok [OF assms] starts_ok_clean [OF allowed_colon [OF allowed]]
    unfolding sanitize_filename_scan by blast
  ultimately show "clean_name ?t" using allowed by (simp add: clean_name_def)
next
  assume "clean_name s"
  then have s: "length s \<le> 255" "list_all (\<lambda>c. \<not> is_forbidden c) s" "s = [] \<or> \<not> is_slash (hd s)"
    "starts_ok True s"
    using starts_ok_clean [OF allowed_colon] by (auto simp: clean_name_def)
  then show "sanitize_filename s r = s"
    by (simp add: sanitize_filename_scan scan_id)
qed

lemma sanitize_filename_clean_witness:
  "sanitize_filename ''a/../b:c'' (CHR ''_'') = ''a/_/b_c'' \<and> clean_name (sanitize_filename ''/con'' (CHR ''_''))"
proof -
  have harmless: "harmless (CHR ''_'')"
    by (simp add: harmless_def device_names_def toUpper_def between_def is_forbidden_def is_slash_def)
  have "scan (CHR ''_'') True True ''a/../b:c'' = ''a/_/b_c''"
    by (simp add: scan.simps cut_special_def cut_name_def toUpper_def between_def is_forbidden_def is_slash_def
        stops_name_def Let_def)
  then show ?thesis
    using sanitize_filename_clean [OF harmless, of "''/con''"] by (simp add: sanitize_filename_scan)
qed

end
