(* ===== verification/Crow_Router.thy ===== *)
theory Crow_Router
  imports Prelude "HOL-Library.Word"
begin

text \<open>
  The routing trie of \<^verbatim>\<open>src/include/crow_all.h\<close> (class \<^verbatim>\<open>crow::Trie\<close>): adding the patterns of the
  rules, merging chains of nodes, and finding the rule of a request with its parameters. The second half states
  what the trie is: the finite set of the patterns that were added, and shows that a search in the merged trie
  is a search for the least matching rule of that set.

  A position is an index into the URL, and a pointer to a node is the node with the path to it being
  rebuilt on return. A vector that was moved from is empty, as in libstdc++. \<^verbatim>\<open>strtod\<close> is a parameter that
  gives its value, the number of characters it read and whether it set \<^verbatim>\<open>ERANGE\<close>.
\<close>

subsection \<open>Nodes and parameters\<close>

datatype ParamType = P_INT | P_UINT | P_DOUBLE | P_STRING | P_PATH | P_MAX

record 'd routing_params =
  int_params :: "int list"
  uint_params :: "64 word list"
  double_params :: "'d list"
  string_params :: "string list"

definition no_params :: "'d routing_params" where
  "no_params = \<lparr>int_params = [], uint_params = [], double_params = [], string_params = []\<rparr>"

datatype Node = Node (rule_index: "16 word") (blueprint_index: "16 word") (key: string) (param: ParamType)
  (children: "Node list")

definition INVALID_BP_ID :: "16 word" where "INVALID_BP_ID = 0xFFFF"

definition fresh_node :: Node where "fresh_node = Node 0 INVALID_BP_ID [] P_MAX []"

fun IsSimpleNode :: "Node \<Rightarrow> bool" where
  "IsSimpleNode (Node r b k p cs) =
     (r = 0 \<and> b = INVALID_BP_ID \<and> length cs < 2 \<and> p = P_MAX \<and> list_all (\<lambda>x. param x = P_MAX) cs)"

definition is_empty :: "Node \<Rightarrow> bool" where
  "is_empty head = (children head = [])"

text \<open>The size counts in 32 bits.\<close>

primrec get_size :: "Node \<Rightarrow> 32 word" where
  "get_size (Node r b k p cs) = 5 + word_of_nat (length k) + sum_list (map get_size cs)"

subsection \<open>Merging chains\<close>

primrec node_count :: "Node \<Rightarrow> nat" where
  "node_count (Node r b k p cs) = Suc (sum_list (map node_count cs))"

lemma node_count_child: "c \<in> set cs \<Longrightarrow> node_count c < Suc (sum_list (map node_count cs))"
  by (simp add: le_imp_less_Suc member_le_sum_list)

lemma node_count_merge:
  "node_count (Node r b k p (children c)) < Suc (node_count c + n)"
  by (cases c) simp

function optimizeNode :: "Node \<Rightarrow> Node" where
  "optimizeNode (Node r b k p cs) =
     (case cs of
        [] \<Rightarrow> Node r b k p cs
      | child # _ \<Rightarrow>
          if IsSimpleNode (Node r b k p cs)
          then optimizeNode (Node (rule_index child) (blueprint_index child) (k @ key child) p (children child))
          else Node r b k p (map optimizeNode cs))"
  by pat_completeness auto

termination
proof (relation "measure node_count")
  fix r :: "16 word" and b k p and cs :: "Node list" and child rest
  assume "cs = child # rest"
  then show "(Node (rule_index child) (blueprint_index child) (k @ key child) p (children child), Node r b k p cs)
      \<in> measure node_count"
    using node_count_merge by simp
next
  fix r :: "16 word" and b k p and cs :: "Node list" and child rest x
  assume "x \<in> set cs"
  then show "(x, Node r b k p cs) \<in> measure node_count" using node_count_child by simp
qed simp

declare optimizeNode.simps [simp del]

definition optimize :: "Node \<Rightarrow> Node" where
  "optimize head = (case head of Node r b k p cs \<Rightarrow> Node r b k p (map optimizeNode cs))"

definition validate :: "Node \<Rightarrow> exn + Node" where
  "validate head =
     (if \<not> IsSimpleNode head then Inl (Runtime_Error ''Internal error: Trie header should be simple!'')
      else Inr (optimize head))"

subsection \<open>Adding a rule\<close>

definition paramTraits :: "(ParamType \<times> string) list" where
  "paramTraits =
     [(P_INT, ''<int>''), (P_UINT, ''<uint>''), (P_DOUBLE, ''<float>''), (P_DOUBLE, ''<double>''),
      (P_STRING, ''<str>''), (P_STRING, ''<string>''), (P_PATH, ''<path>'')]"

definition compare_at :: "string \<Rightarrow> nat \<Rightarrow> string \<Rightarrow> bool" where
  "compare_at url i name = (take (length name) (drop i url) = name)"

definition find_trait :: "string \<Rightarrow> nat \<Rightarrow> (ParamType \<times> string) option" where
  "find_trait url i = List.find (\<lambda>x. compare_at url i (snd x)) paramTraits"

fun first_child :: "(Node \<Rightarrow> bool) \<Rightarrow> Node list \<Rightarrow> nat option" where
  "first_child P [] = None"
| "first_child P (c # cs) = (if P c then Some 0 else map_option Suc (first_child P cs))"

definition key0 :: "Node \<Rightarrow> char" where
  "key0 n = (if key n = [] then NUL else hd (key n))"

fun set_child :: "Node \<Rightarrow> nat \<Rightarrow> Node \<Rightarrow> Node" where
  "set_child (Node r b k p cs) i c = Node r b k p (cs[i := c])"

fun add_child :: "Node \<Rightarrow> Node \<Rightarrow> Node" where
  "add_child (Node r b k p cs) c = Node r b k p (cs @ [c])"

fun set_rule :: "Node \<Rightarrow> 16 word \<Rightarrow> Node" where
  "set_rule (Node r b k p cs) r' = Node r' b k p cs"

definition new_param_node :: "ParamType \<Rightarrow> Node" where
  "new_param_node ty = Node 0 INVALID_BP_ID [] ty []"

definition new_char_node :: "char \<Rightarrow> 16 word \<Rightarrow> Node" where
  "new_char_node c b = Node 0 b [c] P_MAX []"

text \<open>
  The loop of \<^verbatim>\<open>Trie::add\<close> from position \<open>i\<close> at the node \<open>idx\<close>; the value is the node afterwards. With no tag
  at a \<^verbatim>\<open><\<close> the loop goes on at the same position and node for ever, which is the value \<open>None\<close>.
\<close>

partial_function (option) add_loop ::
    "string \<Rightarrow> 16 word \<Rightarrow> nat \<Rightarrow> 16 word \<Rightarrow> nat \<Rightarrow> Node \<Rightarrow> (exn + Node) option" where
  "add_loop url rule bp_prefix_length blueprint i idx =
     (if i < length url then
        let c = url ! i in
        if c = CHR ''<'' then
          (case find_trait url i of
             None \<Rightarrow> add_loop url rule bp_prefix_length blueprint i idx
           | Some (ty, name) \<Rightarrow>
               (case first_child (\<lambda>child. param child = ty) (children idx) of
                  Some k \<Rightarrow>
                    Option.bind (add_loop url rule bp_prefix_length blueprint (i + length name) (children idx ! k))
                      (\<lambda>r. Some (map_sum id (set_child idx k) r))
                | None \<Rightarrow>
                    Option.bind (add_loop url rule bp_prefix_length blueprint (i + length name) (new_param_node ty))
                      (\<lambda>r. Some (map_sum id (add_child idx) r))))
        else
          (case first_child (\<lambda>child. key0 child = c) (children idx) of
             Some k \<Rightarrow>
               Option.bind (add_loop url rule bp_prefix_length blueprint (i + 1) (children idx ! k))
                 (\<lambda>r. Some (map_sum id (set_child idx k) r))
           | None \<Rightarrow>
               let has_blueprint = bp_prefix_length \<noteq> 0 \<and> blueprint \<noteq> INVALID_BP_ID;
                   b = (if has_blueprint \<and> i = bp_prefix_length then blueprint else INVALID_BP_ID)
               in Option.bind (add_loop url rule bp_prefix_length blueprint (i + 1) (new_char_node c b))
                    (\<lambda>r. Some (map_sum id (add_child idx) r)))
      else if rule_index idx \<noteq> 0 then Some (Inl (Runtime_Error (''handler already exists for '' @ url)))
      else Some (Inr (set_rule idx rule)))"

definition trie_add :: "string \<Rightarrow> 16 word \<Rightarrow> nat \<Rightarrow> 16 word \<Rightarrow> Node \<Rightarrow> (exn + Node) option" where
  "trie_add url rule bp_prefix_length blueprint head = add_loop url rule bp_prefix_length blueprint 0 head"

subsection \<open>Finding the rule of a request\<close>

text \<open>
  What a parameter of each type reads at the beginning of the rest of the URL: the number of characters and
  the effect on the parameters.
\<close>

definition push_int :: "int \<Rightarrow> 'd routing_params \<Rightarrow> 'd routing_params" where
  "push_int v ps = ps\<lparr>int_params := int_params ps @ [v]\<rparr>"

definition push_uint :: "64 word \<Rightarrow> 'd routing_params \<Rightarrow> 'd routing_params" where
  "push_uint v ps = ps\<lparr>uint_params := uint_params ps @ [v]\<rparr>"

definition push_double :: "'d \<Rightarrow> 'd routing_params \<Rightarrow> 'd routing_params" where
  "push_double v ps = ps\<lparr>double_params := double_params ps @ [v]\<rparr>"

definition push_string :: "string \<Rightarrow> 'd routing_params \<Rightarrow> 'd routing_params" where
  "push_string v ps = ps\<lparr>string_params := string_params ps @ [v]\<rparr>"

definition read_int :: "string \<Rightarrow> (nat \<times> ('d routing_params \<Rightarrow> 'd routing_params)) option" where
  "read_int rest =
     (if isdigit (hd rest) \<or> hd rest = CHR ''+'' \<or> hd rest = CHR ''-'' then
        case scan_int rest of
          None \<Rightarrow> None
        | Some (neg, m, t) \<Rightarrow>
            let v = signed_val neg m in
            if - (2 ^ 63) \<le> v \<and> v < 2 ^ 63 then Some (length rest - length t, push_int v) else None
      else None)"

definition read_uint :: "string \<Rightarrow> (nat \<times> ('d routing_params \<Rightarrow> 'd routing_params)) option" where
  "read_uint rest =
     (if isdigit (hd rest) \<or> hd rest = CHR ''+'' then
        case scan_int rest of
          None \<Rightarrow> None
        | Some (neg, m, t) \<Rightarrow>
            if m < 2 ^ 64 then Some (length rest - length t, push_uint (word_of_int (signed_val neg m))) else None
      else None)"

definition read_double ::
    "(string \<Rightarrow> 'd \<times> nat \<times> bool) \<Rightarrow> string \<Rightarrow> (nat \<times> ('d routing_params \<Rightarrow> 'd routing_params)) option" where
  "read_double strtod rest =
     (if isdigit (hd rest) \<or> hd rest = CHR ''+'' \<or> hd rest = CHR ''-'' \<or> hd rest = CHR ''.'' then
        case strtod rest of
          (v, n, erange) \<Rightarrow> if \<not> erange \<and> n \<noteq> 0 then Some (n, push_double v) else None
      else None)"

definition read_string :: "string \<Rightarrow> (nat \<times> ('d routing_params \<Rightarrow> 'd routing_params)) option" where
  "read_string rest =
     (let n = length (takeWhile (\<lambda>c. c \<noteq> CHR ''/'') rest)
      in if n \<noteq> 0 then Some (n, push_string (take n rest)) else None)"

definition read_path :: "string \<Rightarrow> (nat \<times> ('d routing_params \<Rightarrow> 'd routing_params)) option" where
  "read_path rest = (let n = length rest in if n \<noteq> 0 then Some (n, push_string (take n rest)) else None)"

definition match_child ::
    "(string \<Rightarrow> 'd \<times> nat \<times> bool) \<Rightarrow> Node \<Rightarrow> string \<Rightarrow> (nat \<times> ('d routing_params \<Rightarrow> 'd routing_params)) option" where
  "match_child strtod child rest =
     (case param child of
        P_INT \<Rightarrow> read_int rest
      | P_UINT \<Rightarrow> read_uint rest
      | P_DOUBLE \<Rightarrow> read_double strtod rest
      | P_STRING \<Rightarrow> read_string rest
      | P_PATH \<Rightarrow> read_path rest
      | P_MAX \<Rightarrow> if compare_at rest 0 (key child) then Some (length (key child), id) else None)"

type_synonym 'd found = "16 word \<times> 16 word list \<times> 'd routing_params"

fun update_found :: "'d found \<Rightarrow> 'd found \<Rightarrow> 'd found" where
  "update_found (found, found_BP, match_params) (r, bps, ps) =
     (if r \<noteq> 0 \<and> (found = 0 \<or> r < found) then (r, bps, ps) else (found, bps, match_params))"

definition push_blueprint :: "Node \<Rightarrow> 16 word list \<Rightarrow> 16 word list" where
  "push_blueprint child bps = (if blueprint_index child \<noteq> INVALID_BP_ID then bps @ [blueprint_index child] else bps)"

definition pop_blueprint :: "16 word list \<Rightarrow> 16 word list" where
  "pop_blueprint bps = (if bps \<noteq> [] then butlast bps else bps)"

text \<open>
  \<open>find_node\<close> is the body of \<^verbatim>\<open>Trie::find\<close> on a node and \<open>find_children\<close> its loop. Both return, after the
  result, the vector \<^verbatim>\<open>*blueprints\<close>: it is moved from at the end of the URL, before it is copied into the
  result, and when no child matches. The parameters are popped again after each call.
\<close>

fun find_node ::
    "(string \<Rightarrow> 'd \<times> nat \<times> bool) \<Rightarrow> string \<Rightarrow> Node \<Rightarrow> nat \<Rightarrow> 'd routing_params \<Rightarrow> 16 word list \<Rightarrow> 'd found \<times> 16 word list"
  and find_children ::
    "(string \<Rightarrow> 'd \<times> nat \<times> bool) \<Rightarrow> string \<Rightarrow> Node list \<Rightarrow> nat \<Rightarrow> 'd routing_params \<Rightarrow> 16 word list \<Rightarrow> 'd found \<Rightarrow> bool
      \<Rightarrow> 'd found \<times> bool \<times> 16 word list" where
  "find_node strtod url (Node r b k p cs) pos params blueprints =
     (if pos = length url then ((r, [], params), [])
      else case find_children strtod url cs pos params blueprints (0, [], no_params) False of
        ((found, found_BP, match_params), found_fragment, blueprints) \<Rightarrow>
          if \<not> found_fragment then ((found, blueprints, match_params), [])
          else ((found, found_BP, match_params), blueprints))"
| "find_children strtod url [] pos params blueprints acc found_fragment = (acc, found_fragment, blueprints)"
| "find_children strtod url (child # cs) pos params blueprints acc found_fragment =
     (case match_child strtod child (drop pos url) of
        None \<Rightarrow> find_children strtod url cs pos params blueprints acc found_fragment
      | Some (n, push) \<Rightarrow>
          (case find_node strtod url child (pos + n) (push params) (push_blueprint child blueprints) of
             (ret, blueprints) \<Rightarrow>
               find_children strtod url cs pos params (pop_blueprint blueprints) (update_found acc ret) True))"

definition trie_find :: "(string \<Rightarrow> 'd \<times> nat \<times> bool) \<Rightarrow> string \<Rightarrow> Node \<Rightarrow> 'd found" where
  "trie_find strtod req_url head = fst (find_node strtod req_url head 0 no_params [])"

subsection \<open>The patterns in a trie\<close>

datatype token = Lit char | Par ParamType

definition label :: "Node \<Rightarrow> token list" where
  "label n = (if param n = P_MAX then map Lit (key n) else [Par (param n)])"

fun routes :: "Node \<Rightarrow> (token list \<times> 16 word) list" where
  "routes (Node r b k p cs) =
     (if r \<noteq> 0 then [([], r)] else []) @ concat (map (\<lambda>c. map (map_prod ((@) (label c)) id) (routes c)) cs)"

definition labelled_routes :: "Node \<Rightarrow> (token list \<times> 16 word) list" where
  "labelled_routes n = map (map_prod ((@) (label n)) id) (routes n)"

lemma routes_Node:
  "routes (Node r b k p cs) = (if r \<noteq> 0 then [([], r)] else []) @ concat (map labelled_routes cs)"
  by (simp add: labelled_routes_def [abs_def])

declare routes.simps [simp del]

text \<open>Every node below has a label.\<close>

primrec labelled :: "Node \<Rightarrow> bool" where
  "labelled (Node r b k p cs) = (list_all (\<lambda>c. label c \<noteq> []) cs \<and> list_all id (map labelled cs))"

lemma labelled_iff: "labelled n \<longleftrightarrow> (\<forall>c \<in> set (children n). label c \<noteq> [] \<and> labelled c)"
  by (cases n) (auto simp: list_all_iff)

declare labelled.simps [simp del]

fun match_tokens ::
    "(string \<Rightarrow> 'd \<times> nat \<times> bool) \<Rightarrow> token list \<Rightarrow> string \<Rightarrow> 'd routing_params \<Rightarrow> 'd routing_params option" where
  "match_tokens strtod [] s ps = (if s = [] then Some ps else None)"
| "match_tokens strtod (t # ts) [] ps = None"
| "match_tokens strtod (Lit c # ts) (d # s) ps = (if d = c then match_tokens strtod ts s ps else None)"
| "match_tokens strtod (Par ty # ts) (d # s) ps =
     (case match_child strtod (new_param_node ty) (d # s) of
        None \<Rightarrow> None
      | Some (n, push) \<Rightarrow> match_tokens strtod ts (drop n (d # s)) (push ps))"

subsection \<open>Merging keeps the patterns\<close>

lemma labelled_routes_merge:
  assumes "param c = P_MAX"
  shows "labelled_routes (Node (rule_index c) b (k @ key c) P_MAX (children c))
    = map (map_prod ((@) (map Lit k)) id) (labelled_routes c)"
  using assms by (cases c) (simp add: labelled_routes_def label_def routes_Node prod.map_comp o_def)

lemma labelled_routes_chain:
  "label n = map Lit k \<Longrightarrow> routes n = labelled_routes c \<Longrightarrow>
    labelled_routes n = map (map_prod ((@) (map Lit k)) id) (labelled_routes c)"
  by (simp add: labelled_routes_def [of n])

lemma simple_child:
  assumes "IsSimpleNode (Node r b k p (child # cs))"
  shows "r = 0" "cs = []" "p = P_MAX" "param child = P_MAX"
  using assms by auto

lemma optimizeNode_merge:
  "IsSimpleNode (Node r b k p (child # cs)) \<Longrightarrow> optimizeNode (Node r b k p (child # cs))
    = optimizeNode (Node (rule_index child) (blueprint_index child) (k @ key child) p (children child))"
  by (subst optimizeNode.simps) simp

lemma optimizeNode_keep:
  "\<not> IsSimpleNode (Node r b k p cs) \<Longrightarrow> optimizeNode (Node r b k p cs) = Node r b k p (map optimizeNode cs)"
  by (subst optimizeNode.simps) (auto split: list.split)

lemma optimizeNode_labelled_routes: "labelled_routes (optimizeNode n) = labelled_routes n"
proof (induction n rule: optimizeNode.induct)
  case (1 r b k p cs)
  show ?case
  proof (cases cs)
    case Nil
    then show ?thesis by (simp add: optimizeNode.simps)
  next
    case (Cons child rest)
    show ?thesis
    proof (cases "IsSimpleNode (Node r b k p cs)")
      case True
      note s = simple_child [OF True [unfolded Cons]]
      have "labelled_routes (optimizeNode (Node r b k p cs))
          = labelled_routes (Node (rule_index child) (blueprint_index child) (k @ key child) p (children child))"
        using "1.IH"(1) [OF Cons True] optimizeNode_merge [OF True [unfolded Cons]] Cons by simp
      also have "\<dots> = map (map_prod ((@) (map Lit k)) id) (labelled_routes child)"
        unfolding s(3) by (rule labelled_routes_merge [OF s(4)])
      also have "\<dots> = labelled_routes (Node r b k p cs)"
        by (rule labelled_routes_chain [symmetric]) (simp_all add: s Cons label_def routes_Node)
      finally show ?thesis .
    next
      case False
      then have "optimizeNode (Node r b k p cs) = Node r b k p (map optimizeNode cs)"
        by (rule optimizeNode_keep)
      moreover have same: "map (labelled_routes \<circ> optimizeNode) cs = map labelled_routes cs"
        using "1.IH"(2) [OF Cons False] by simp
      ultimately show ?thesis
        by (simp add: labelled_routes_def [of "Node r b k p _"] label_def routes_Node same)
    qed
  qed
qed

lemma optimizeNode_labelled:
  "label n \<noteq> [] \<Longrightarrow> labelled n \<Longrightarrow> label (optimizeNode n) \<noteq> [] \<and> labelled (optimizeNode n)"
proof (induction n rule: optimizeNode.induct)
  case (1 r b k p cs)
  show ?case
  proof (cases cs)
    case Nil
    then show ?thesis using 1 by (simp add: optimizeNode.simps)
  next
    case (Cons child rest)
    show ?thesis
    proof (cases "IsSimpleNode (Node r b k p cs)")
      case True
      then have "optimizeNode (Node r b k p cs)
          = optimizeNode (Node (rule_index child) (blueprint_index child) (k @ key child) p (children child))"
        using optimizeNode_merge [OF True [unfolded Cons]] Cons by simp
      moreover have "labelled child" using "1.prems"(2) by (simp add: labelled_iff [of "Node _ _ _ _ _"] Cons)
      moreover have "label (Node (rule_index child) (blueprint_index child) (k @ key child) p (children child)) \<noteq> []"
        using "1.prems"(1) by (auto simp: label_def split: if_splits)
      ultimately show ?thesis
        using "1.IH"(1) [OF Cons True] by (simp add: labelled_iff [of child] labelled_iff [of "Node _ _ _ _ _"])
    next
      case False
      then have "optimizeNode (Node r b k p cs) = Node r b k p (map optimizeNode cs)"
        by (rule optimizeNode_keep)
      then show ?thesis
        using "1.IH"(2) [OF Cons False] "1.prems"
        by (auto simp: labelled_iff [of "Node _ _ _ _ _"] label_def split: if_splits)
    qed
  qed
qed

lemma optimize_routes: "routes (optimize head) = routes head"
  by (cases head) (simp add: optimize_def routes_Node o_def optimizeNode_labelled_routes)

lemma optimize_labelled: "labelled head \<Longrightarrow> labelled (optimize head)"
  by (cases head) (auto simp: optimize_def labelled_iff [of "Node _ _ _ _ _"] dest: optimizeNode_labelled)

subsection \<open>Searching the trie is searching its patterns\<close>

text \<open>The law of \<^verbatim>\<open>strtod\<close> that the search relies on: it stops at the end of the text.\<close>

definition strtod_stops :: "(string \<Rightarrow> 'd \<times> nat \<times> bool) \<Rightarrow> bool" where
  "strtod_stops strtod \<longleftrightarrow> (\<forall>s. fst (snd (strtod s)) \<le> length s)"

lemma match_child_bound:
  assumes "strtod_stops strtod" and "match_child strtod c s = Some (n, push)"
  shows "n \<le> length s"
proof -
  have "fst (snd (strtod s)) \<le> length s" using assms(1) by (simp add: strtod_stops_def)
  then show ?thesis
    using assms(2)
    by (auto simp: match_child_def read_int_def read_uint_def read_double_def read_string_def read_path_def
        compare_at_def Let_def length_takeWhile_le split: ParamType.splits if_splits option.splits prod.splits
        dest: arg_cong [of _ _ length])
qed

lemma match_tokens_key:
  "match_tokens strtod (map Lit k @ ts) s ps =
    (if take (length k) s = k then match_tokens strtod ts (drop (length k) s) ps else None)"
proof (induction k arbitrary: s)
  case (Cons c k)
  then show ?case by (cases s) auto
qed simp

lemma match_tokens_label:
  assumes "s \<noteq> []"
  shows "match_tokens strtod (label c @ ts) s ps =
    (case match_child strtod c s of
       None \<Rightarrow> None | Some (n, push) \<Rightarrow> match_tokens strtod ts (drop n s) (push ps))"
proof (cases "param c = P_MAX")
  case True
  then show ?thesis by (simp add: label_def match_tokens_key match_child_def compare_at_def)
next
  case False
  then have "match_child strtod (new_param_node (param c)) s = match_child strtod c s"
    by (simp add: match_child_def new_param_node_def split: ParamType.split)
  then show ?thesis
    using assms False by (auto simp: label_def neq_Nil_conv)
qed

fun token_hits ::
    "(string \<Rightarrow> 'd \<times> nat \<times> bool) \<Rightarrow> (token list \<times> 16 word) list \<Rightarrow> string \<Rightarrow> 'd routing_params
      \<Rightarrow> (16 word \<times> 'd routing_params) list" where
  "token_hits strtod [] s ps = []"
| "token_hits strtod ((ts, r) # rs) s ps =
     (case match_tokens strtod ts s ps of None \<Rightarrow> [] | Some qs \<Rightarrow> [(r, qs)]) @ token_hits strtod rs s ps"

lemma token_hits_append [simp]:
  "token_hits strtod (rs @ rs') s ps = token_hits strtod rs s ps @ token_hits strtod rs' s ps"
  by (induction rs) auto

lemma token_hits_concat: "token_hits strtod (concat rss) s ps = concat (map (\<lambda>rs. token_hits strtod rs s ps) rss)"
  by (induction rss) simp_all

lemma token_hits_label:
  assumes "s \<noteq> []"
  shows "token_hits strtod (map (map_prod ((@) (label c)) id) rs) s ps =
    (case match_child strtod c s of None \<Rightarrow> [] | Some (n, push) \<Rightarrow> token_hits strtod rs (drop n s) (push ps))"
  by (induction rs) (auto simp: match_tokens_label [OF assms] split: option.splits)

lemma token_hits_child:
  assumes "s \<noteq> []"
  shows "token_hits strtod (labelled_routes c) s ps =
    (case match_child strtod c s of None \<Rightarrow> [] | Some (n, push) \<Rightarrow> token_hits strtod (routes c) (drop n s) (push ps))"
  unfolding labelled_routes_def by (rule token_hits_label [OF assms])

lemma in_token_hits:
  "(r, qs) \<in> set (token_hits strtod rs s ps) \<longleftrightarrow> (\<exists>ts. (ts, r) \<in> set rs \<and> match_tokens strtod ts s ps = Some qs)"
  by (induction rs) (auto split: option.splits)

fun better :: "16 word \<times> 'd \<Rightarrow> 16 word \<times> 'd \<Rightarrow> 16 word \<times> 'd" where
  "better (found, ps) (r, qs) = (if r \<noteq> 0 \<and> (found = 0 \<or> r < found) then (r, qs) else (found, ps))"

definition best :: "'d \<Rightarrow> (16 word \<times> 'd) list \<Rightarrow> 16 word \<times> 'd" where
  "best e xs = foldl better (0, e) xs"

lemma better_assoc: "better (better a b) c = better a (better b c)"
  by (cases a; cases b; cases c) auto

lemma foldl_better: "foldl better a xs = better a (best e xs)"
proof (induction xs rule: rev_induct)
  case Nil
  then show ?case by (cases a) (simp add: best_def)
next
  case (snoc x xs)
  then show ?case by (simp add: best_def better_assoc)
qed

definition same_hit :: "16 word \<times> 'd \<Rightarrow> 16 word \<times> 'd \<Rightarrow> bool" where
  "same_hit x y \<longleftrightarrow> fst x = fst y \<and> (fst x \<noteq> 0 \<longrightarrow> snd x = snd y)"

lemma better_same: "same_hit x y \<Longrightarrow> better a x = better a y"
  by (cases a; cases x; cases y) (auto simp: same_hit_def)

definition hit :: "'d found \<Rightarrow> 16 word \<times> 'd routing_params" where
  "hit f = (fst f, snd (snd f))"

lemma hit_simps [simp]: "hit (f, bp, ps) = (f, ps)" "hit (update_found a b) = better (hit a) (hit b)"
  by (cases a; cases b; simp add: hit_def)+

lemma token_hits_end:
  assumes "\<forall>c \<in> set cs. label c \<noteq> []"
  shows "token_hits strtod (concat (map labelled_routes cs)) [] params = []"
proof -
  have "token_hits strtod (labelled_routes c) [] params = []" if "c \<in> set cs" for c
  proof -
    have "label c \<noteq> []" using assms that by blast
    then obtain t l where "label c = t # l" by (cases "label c") auto
    then have "token_hits strtod (map (map_prod ((@) (label c)) id) rs) [] params = []" for rs
      by (induction rs) auto
    then show ?thesis by (simp add: labelled_routes_def)
  qed
  then show ?thesis by (simp add: token_hits_concat)
qed

lemma better_child:
  assumes "drop pos url \<noteq> []" and "match_child strtod child (drop pos url) = Some (n, push)"
    and "same_hit (hit ret) (best no_params (token_hits strtod (routes child) (drop (pos + n) url) (push params)))"
  shows "better (hit acc) (hit ret) = foldl better (hit acc) (token_hits strtod (labelled_routes child) (drop pos url) params)"
  using assms(2,3) unfolding foldl_better [of "hit acc" _ no_params] token_hits_child [OF assms(1)]
  by (simp add: better_same add.commute [of n])

lemma find_is_best:
  "strtod_stops strtod \<Longrightarrow> labelled node \<Longrightarrow> pos \<le> length url \<Longrightarrow>
      same_hit (hit (fst (find_node strtod url node pos params bps)))
        (best no_params (token_hits strtod (routes node) (drop pos url) params))"
  "strtod_stops strtod \<Longrightarrow> (\<forall>c \<in> set cs. label c \<noteq> [] \<and> labelled c) \<Longrightarrow> pos < length url \<Longrightarrow>
      hit (fst (find_children strtod url cs pos params bps acc ff))
        = foldl better (hit acc) (token_hits strtod (concat (map labelled_routes cs)) (drop pos url) params)"
proof (induction strtod url node pos params bps and strtod url cs pos params bps acc ff
    rule: find_node_find_children.induct)
  case (1 strtod url r b k p cs pos params bps)
  show ?case
  proof (cases "pos = length url")
    case True
    have "token_hits strtod (concat (map labelled_routes cs)) [] params = []"
      using "1.prems"(2) by (intro token_hits_end) (simp add: labelled_iff [of "Node _ _ _ _ _"])
    then show ?thesis using True by (simp add: routes_Node same_hit_def best_def)
  next
    case False
    then have pos: "pos < length url" using "1.prems"(3) by simp
    have cs: "\<forall>c \<in> set cs. label c \<noteq> [] \<and> labelled c" using "1.prems"(2) by (simp add: labelled_iff [of "Node _ _ _ _ _"])
    have "hit (fst (find_node strtod url (Node r b k p cs) pos params bps))
        = hit (fst (find_children strtod url cs pos params bps (0, [], no_params) False))"
      using False by (simp split: prod.split)
    also have "\<dots> = best no_params (token_hits strtod (concat (map labelled_routes cs)) (drop pos url) params)"
      using "1.IH" [OF False "1.prems"(1) cs pos] by (simp add: best_def)
    also have "\<dots> = best no_params (token_hits strtod (routes (Node r b k p cs)) (drop pos url) params)"
      using pos by (auto simp: routes_Node split: option.split)
    finally show ?thesis by (simp add: same_hit_def)
  qed
next
  case (2 strtod url pos params bps acc ff)
  then show ?case by simp
next
  case (3 strtod url child cs pos params bps acc ff)
  have rest: "drop pos url \<noteq> []" using "3.prems"(3) by simp
  show ?case
  proof (cases "match_child strtod child (drop pos url)")
    case None
    then show ?thesis using "3.IH"(1) [OF None] "3.prems" by (simp add: token_hits_child [OF rest])
  next
    case (Some m)
    obtain n push where m: "m = (n, push)" by (cases m)
    obtain ret bps' where ret:
      "find_node strtod url child (pos + n) (push params) (push_blueprint child bps) = (ret, bps')"
      by (cases "find_node strtod url child (pos + n) (push params) (push_blueprint child bps)")
    have bound: "pos + n \<le> length url"
      using match_child_bound [OF "3.prems"(1) Some [unfolded m]] "3.prems"(3) by simp
    have "same_hit (hit ret) (best no_params (token_hits strtod (routes child) (drop (pos + n) url) (push params)))"
      using "3.IH"(2) [OF Some m [symmetric]] "3.prems"(1,2) bound by (simp add: ret)
    from better_child [OF rest Some [unfolded m] this] show ?thesis
      using "3.IH"(3) [OF Some m [symmetric] ret [symmetric]] "3.prems" Some m by (simp add: ret)
  qed
qed

lemma best_least:
  assumes "best e xs = (f, m)"
  shows "(f = 0 \<longrightarrow> (\<forall>x \<in> set xs. fst x = 0)) \<and> (f \<noteq> 0 \<longrightarrow> (f, m) \<in> set xs \<and> (\<forall>x \<in> set xs. fst x \<noteq> 0 \<longrightarrow> f \<le> fst x))"
  using assms
proof (induction xs arbitrary: f m rule: rev_induct)
  case (snoc x xs)
  obtain f' m' where b: "best e xs = (f', m')" by (cases "best e xs")
  obtain r q where x: "x = (r, q)" by (cases x)
  have "better (f', m') (r, q) = (f, m)" using snoc.prems b x by (simp add: best_def)
  then show ?case using snoc.IH [OF b] x by (force split: if_splits)
qed (simp add: best_def)

lemma routes_nonzero: "(ts, r) \<in> set (routes n) \<Longrightarrow> r \<noteq> 0"
proof (induction n arbitrary: ts)
  case (Node r' b k p cs)
  then show ?case by (auto simp: routes_Node labelled_routes_def split: if_splits)
qed

lemma trie_find_least:
  assumes "strtod_stops strtod" and "labelled head" and "trie_find strtod req_url head = (found, bps, ps)"
  shows "(found = 0 \<longrightarrow> (\<forall>(ts, r) \<in> set (routes head). match_tokens strtod ts req_url no_params = None))
    \<and> (found \<noteq> 0 \<longrightarrow> (\<exists>ts. (ts, found) \<in> set (routes head) \<and> match_tokens strtod ts req_url no_params = Some ps)
        \<and> (\<forall>(ts, r) \<in> set (routes head). match_tokens strtod ts req_url no_params \<noteq> None \<longrightarrow> found \<le> r))"
proof -
  define xs where "xs = token_hits strtod (routes head) req_url no_params"
  obtain f m where fm: "best no_params xs = (f, m)" by (cases "best no_params xs")
  have "same_hit (found, ps) (f, m)"
    using find_is_best(1) [OF assms(1,2), of 0 req_url no_params "[]"] assms(3) fm
    by (simp add: trie_find_def xs_def)
  then have f: "f = found" "found \<noteq> 0 \<longrightarrow> m = ps" by (auto simp: same_hit_def)
  have hits: "(r, q) \<in> set xs \<longleftrightarrow> (\<exists>ts. (ts, r) \<in> set (routes head) \<and> match_tokens strtod ts req_url no_params = Some q)" for r q
    by (simp add: xs_def in_token_hits)
  note least = best_least [OF fm, unfolded f(1)]
  have none: "match_tokens strtod ts req_url no_params = None" if "found = 0" "(ts, r) \<in> set (routes head)" for ts r
    using that least hits routes_nonzero by (metis fst_conv not_None_eq)
  have bound: "found \<le> r" if "found \<noteq> 0" "(ts, r) \<in> set (routes head)" "match_tokens strtod ts req_url no_params \<noteq> None"
    for ts r
    using that least hits [of r] routes_nonzero by (metis fst_conv not_None_eq)
  have "found \<noteq> 0 \<longrightarrow> (\<exists>ts. (ts, found) \<in> set (routes head) \<and> match_tokens strtod ts req_url no_params = Some ps)"
    using least hits f by blast
  then show ?thesis using none bound by fastforce
qed

subsection \<open>Adding a pattern\<close>

lemma traits_nonempty: "x \<in> set paramTraits \<Longrightarrow> snd x \<noteq> [] \<and> fst x \<noteq> P_MAX"
  by (auto simp: paramTraits_def)

lemma find_trait_SomeD:
  "find_trait url i = Some (ty, name) \<Longrightarrow> name \<noteq> [] \<and> ty \<noteq> P_MAX \<and> i + length name \<le> length url"
proof -
  assume "find_trait url i = Some (ty, name)"
  then have x: "(ty, name) \<in> set paramTraits" "compare_at url i name"
    unfolding find_trait_def by (auto simp: find_Some_iff) (metis snd_conv)
  have "length (take (length name) (drop i url)) = length name" using x(2) by (simp add: compare_at_def)
  then show ?thesis using traits_nonempty [OF x(1)] by (cases "i \<le> length url") auto
qed

text \<open>The pattern that a URL with tags denotes; an unknown tag is \<open>None\<close>.\<close>

function tokens_at :: "string \<Rightarrow> nat \<Rightarrow> token list option" where
  "tokens_at url i =
     (if i < length url then
        if url ! i = CHR ''<'' then
          (case find_trait url i of
             None \<Rightarrow> None
           | Some (ty, name) \<Rightarrow> map_option ((#) (Par ty)) (tokens_at url (i + length name)))
        else map_option ((#) (Lit (url ! i))) (tokens_at url (i + 1))
      else Some [])"
  by pat_completeness auto

termination
  by (relation "measure (\<lambda>(url, i). length url - i)") (auto dest!: find_trait_SomeD intro: diff_less_mono2)

declare tokens_at.simps [simp del]

definition tokens :: "string \<Rightarrow> token list option" where
  "tokens url = tokens_at url 0"

lemma tokens_at_stuck:
  "i < length url \<Longrightarrow> url ! i = CHR ''<'' \<Longrightarrow> find_trait url i = None \<Longrightarrow> tokens_at url i = None"
  by (subst tokens_at.simps) simp

lemma add_loop_tokens:
  assumes "add_loop url rule n bp i idx = Some res"
  shows "tokens_at url i \<noteq> None"
  using _ assms
proof (rule add_loop.raw_induct [where P = "\<lambda>url rule n bp i idx res. tokens_at url i \<noteq> None"], goal_cases)
  case (1 add_loop url rule n bp i idx res)
  note IH = 1(1)
  show ?case
    using 1(2) by (subst tokens_at.simps)
      (auto simp: Let_def bind_eq_Some_conv tokens_at_stuck split: if_splits option.splits dest!: IH)
qed

text \<open>Before merging, every node below the head is a tag or one character, and siblings differ.\<close>

definition single :: "Node \<Rightarrow> bool" where
  "single c = (if param c = P_MAX then length (key c) = 1 \<and> key c \<noteq> [NUL] else key c = [])"

primrec unmerged :: "Node \<Rightarrow> bool" where
  "unmerged (Node r b k p cs) = (distinct (map label cs) \<and> list_all single cs \<and> list_all id (map unmerged cs))"

lemma unmerged_Node:
  "unmerged (Node r b k p cs) \<longleftrightarrow> distinct (map label cs) \<and> (\<forall>c \<in> set cs. single c \<and> unmerged c)"
  by (auto simp: list_all_iff)

declare unmerged.simps [simp del]

lemma single_label: "single c \<Longrightarrow> \<exists>t. label c = [t]"
  by (cases "key c") (auto simp: single_def label_def)

lemma single_param: "single c \<Longrightarrow> ty \<noteq> P_MAX \<Longrightarrow> param c = ty \<longleftrightarrow> label c = [Par ty]"
  by (cases "key c") (auto simp: single_def label_def)

lemma single_key: "single c \<Longrightarrow> ch \<noteq> NUL \<Longrightarrow> key0 c = ch \<longleftrightarrow> label c = [Lit ch]"
  by (cases "key c") (auto simp: single_def label_def key0_def split: if_splits)

lemma unmerged_labelled: "unmerged n \<Longrightarrow> labelled n"
proof (induction n)
  case (Node r b k p cs)
  then show ?case
    using single_label by (fastforce simp: unmerged_Node labelled_iff [of "Node _ _ _ _ _"])
qed

lemma first_child_cases:
  "case first_child P cs of None \<Rightarrow> \<forall>c \<in> set cs. \<not> P c | Some k \<Rightarrow> k < length cs \<and> P (cs ! k)"
  by (induction cs) (auto split: option.splits)

text \<open>What adding the pattern \<open>ts\<close> with a rule did to a node.\<close>

definition added :: "16 word \<Rightarrow> token list \<Rightarrow> Node \<Rightarrow> exn + Node \<Rightarrow> bool" where
  "added rule ts idx res =
     (case res of
        Inl e \<Rightarrow> \<exists>r. (ts, r) \<in> set (routes idx)
      | Inr idx' \<Rightarrow> (\<forall>r. (ts, r) \<notin> set (routes idx)) \<and> unmerged idx' \<and> label idx' = label idx
          \<and> (single idx \<longrightarrow> single idx')
          \<and> set (routes idx') = set (routes idx) \<union> (if rule \<noteq> 0 then {(ts, rule)} else {}))"

lemma in_routes_Nil: "([], r) \<in> set (routes n) \<longleftrightarrow> r = rule_index n \<and> r \<noteq> 0" if "unmerged n"
proof (cases n)
  case (Node r' b k p cs)
  have "([], r) \<notin> set (labelled_routes c)" if "c \<in> set cs" for c
    using single_label [of c] \<open>unmerged n\<close> that Node by (auto simp: unmerged_Node labelled_routes_def)
  then show ?thesis using Node by (auto simp: routes_Node)
qed

lemma in_labelled_routes: "label c = [t] \<Longrightarrow> (ts, r) \<in> set (labelled_routes c) \<longleftrightarrow>
    (\<exists>ts'. ts = t # ts' \<and> (ts', r) \<in> set (routes c))"
  by (force simp: labelled_routes_def)

lemma in_routes_Cons:
  assumes "unmerged (Node r' b k p cs)"
  shows "(t # ts, r) \<in> set (routes (Node r' b k p cs)) \<longleftrightarrow> (\<exists>c \<in> set cs. label c = [t] \<and> (ts, r) \<in> set (routes c))"
proof -
  have "(t # ts, r) \<in> set (labelled_routes c) \<longleftrightarrow> label c = [t] \<and> (ts, r) \<in> set (routes c)" if "c \<in> set cs" for c
    using single_label [of c] that assms by (auto simp: unmerged_Node in_labelled_routes)
  then show ?thesis by (auto simp: routes_Node)
qed

lemma labelled_routes_singleton: "label c = [t] \<Longrightarrow> labelled_routes c = map (map_prod ((#) t) id) (routes c)"
  by (auto simp: labelled_routes_def)

lemma routes_update:
  assumes j: "j < length cs" and labels: "label (cs ! j) = [t]" "label c' = [t]"
    and R: "set (routes c') = set (routes (cs ! j)) \<union> R"
  shows "set (routes (Node r b k p (cs[j := c']))) = set (routes (Node r b k p cs)) \<union> map_prod ((#) t) id ` R"
proof -
  have lr: "set (labelled_routes c') = set (labelled_routes (cs ! j)) \<union> map_prod ((#) t) id ` R"
    by (simp add: labelled_routes_singleton [OF labels(1)] labelled_routes_singleton [OF labels(2)] R image_Un)
  have "(\<Union>c \<in> set (cs[j := c']). set (labelled_routes c))
      = (\<Union>c \<in> set cs. set (labelled_routes c)) \<union> map_prod ((#) t) id ` R" (is "?L = ?R")
  proof
    show "?L \<subseteq> ?R"
      using lr nth_mem [OF j] by (blast dest: set_update_subset_insert [THEN subsetD])
    have "set (labelled_routes c) \<subseteq> ?L" if c: "c \<in> set cs" for c
    proof -
      obtain l where l: "l < length cs" "c = cs ! l" using c by (auto simp: in_set_conv_nth)
      then have "cs[j := c'] ! l \<in> set (cs[j := c'])" by simp
      then show ?thesis using l lr j by (cases "l = j") auto
    qed
    moreover have "map_prod ((#) t) id ` R \<subseteq> ?L"
      using lr set_update_memI [OF j, of c'] by blast
    ultimately show "?R \<subseteq> ?L" by blast
  qed
  then show ?thesis by (auto simp: routes_Node)
qed

lemma added_in_child:
  assumes idx: "unmerged (Node r' b k p cs)" and j: "j < length cs" "label (cs ! j) = [t]"
    and child: "added rule ts (cs ! j) res"
  shows "added rule (t # ts) (Node r' b k p cs) (map_sum id (set_child (Node r' b k p cs) j) res)"
proof -
  have same: "c = cs ! j" if "c \<in> set cs" "label c = [t]" for c
    using idx j that by (auto simp: unmerged_Node distinct_conv_nth in_set_conv_nth) (metis nth_map length_map)
  have member: "(t # ts, r) \<in> set (routes (Node r' b k p cs)) \<longleftrightarrow> (ts, r) \<in> set (routes (cs ! j))" for r
    using same j nth_mem [OF j(1)] by (auto simp: in_routes_Cons [OF idx])
  show ?thesis
  proof (cases res)
    case (Inl e)
    then show ?thesis using child by (auto simp: added_def member)
  next
    case (Inr c')
    have c': "\<forall>r. (ts, r) \<notin> set (routes (cs ! j))" "unmerged c'" "label c' = [t]" "single c'"
      "set (routes c') = set (routes (cs ! j)) \<union> (if rule \<noteq> 0 then {(ts, rule)} else {})"
      using child Inr j idx nth_mem [OF j(1)] by (auto simp: added_def unmerged_Node)
    have labels: "map label (cs[j := c']) = map label cs"
      using j c'(3) by (metis list_update_id map_update)
    have "unmerged (Node r' b k p (cs[j := c']))"
      using idx c' by (auto simp: unmerged_Node labels dest!: set_update_subset_insert [THEN subsetD])
    then show ?thesis
      using c'(1) Inr routes_update [OF j c'(3,5), of r' b k p] by (auto simp: added_def member label_def single_def)
  qed
qed

lemma added_new_child:
  assumes idx: "unmerged (Node r' b k p cs)" and new: "\<forall>c \<in> set cs. label c \<noteq> [t]"
    and f: "label f = [t]" "single f" "unmerged f" "routes f = []" and child: "added rule ts f res"
  shows "added rule (t # ts) (Node r' b k p cs) (map_sum id (add_child (Node r' b k p cs)) res)"
proof -
  have fresh: "(t # ts, r) \<notin> set (routes (Node r' b k p cs))" for r
    using new by (auto simp: in_routes_Cons [OF idx])
  obtain c' where c': "res = Inr c'" "unmerged c'" "label c' = [t]" "single c'"
    "set (routes c') = (if rule \<noteq> 0 then {(ts, rule)} else {})"
    using child f by (auto simp: added_def split: sum.splits)
  have "unmerged (Node r' b k p (cs @ [c']))"
    using idx c' new by (auto simp: unmerged_Node)
  moreover have "set (routes (Node r' b k p (cs @ [c'])))
      = set (routes (Node r' b k p cs)) \<union> (if rule \<noteq> 0 then {(t # ts, rule)} else {})"
    using c'(5) by (auto simp: routes_Node labelled_routes_singleton [OF c'(3)])
  ultimately show ?thesis using fresh c'(1) by (auto simp: added_def label_def single_def)
qed

lemma fresh_nodes:
  "ty \<noteq> P_MAX \<Longrightarrow> label (new_param_node ty) = [Par ty] \<and> single (new_param_node ty) \<and> unmerged (new_param_node ty)
    \<and> routes (new_param_node ty) = []"
  "ch \<noteq> NUL \<Longrightarrow> label (new_char_node ch b) = [Lit ch] \<and> single (new_char_node ch b) \<and> unmerged (new_char_node ch b)
    \<and> routes (new_char_node ch b) = []"
  by (simp_all add: label_def single_def unmerged_Node routes_Node new_param_node_def new_char_node_def)

text \<open>One step of the loop: go to the child with the token, or make it, and add the rest there.\<close>

lemma added_step:
  assumes idx: "idx = Node r b k p cs" "unmerged idx" and P: "\<And>c. c \<in> set cs \<Longrightarrow> P c \<longleftrightarrow> label c = [t]"
    and f: "label f = [t] \<and> single f \<and> unmerged f \<and> routes f = []"
    and adds: "\<And>c. unmerged c \<Longrightarrow> \<exists>res. add c = Some res \<and> added rule ts c res"
  shows "\<exists>res. (case first_child P cs of
      Some j \<Rightarrow> Option.bind (add (cs ! j)) (\<lambda>r. Some (map_sum id (set_child idx j) r))
    | None \<Rightarrow> Option.bind (add f) (\<lambda>r. Some (map_sum id (add_child idx) r))) = Some res
    \<and> added rule (t # ts) idx res"
proof (cases "first_child P cs")
  case None
  then have "\<forall>c \<in> set cs. label c \<noteq> [t]" using first_child_cases [of cs P] P by simp
  then show ?thesis
    using adds [of f] f None added_new_child [OF idx(2) [unfolded idx(1)]] idx(1) by auto
next
  case (Some j)
  then have "j < length cs" "P (cs ! j)" using first_child_cases [of cs P] by simp_all
  then have j: "j < length cs" "label (cs ! j) = [t]" using P nth_mem by blast+
  then have "unmerged (cs ! j)" using idx by (simp add: unmerged_Node)
  then show ?thesis
    using adds [of "cs ! j"] Some added_in_child [OF idx(2) [unfolded idx(1)] j] idx(1) by auto
qed

lemma add_loop_added:
  "tokens_at url i = Some ts \<Longrightarrow> unmerged idx \<Longrightarrow> NUL \<notin> set url \<Longrightarrow>
    \<exists>res. add_loop url rule n bp i idx = Some res \<and> added rule ts idx res"
proof (induction url i arbitrary: ts idx rule: tokens_at.induct)
  case (1 url i)
  obtain r b k p cs where idx: "idx = Node r b k p cs" by (cases idx)
  show ?case
  proof (cases "i < length url")
    case False
    then have "ts = []" using "1.prems"(1) by (simp add: tokens_at.simps [of url i])
    then show ?thesis
      using False "1.prems"(2) in_routes_Nil [OF "1.prems"(2)]
      by (subst add_loop.simps) (auto simp: added_def idx unmerged_Node label_def single_def routes_Node)
  next
    case True
    have single: "\<And>c. c \<in> set cs \<Longrightarrow> single c" using "1.prems"(2) idx by (simp add: unmerged_Node)
    show ?thesis
    proof (cases "url ! i = CHR ''<''")
      case tag: True
      obtain ty name where trait: "find_trait url i = Some (ty, name)"
        using "1.prems"(1) True tag tokens_at_stuck [of i url] by (cases "find_trait url i") auto
      obtain ts' where ts': "tokens_at url (i + length name) = Some ts'" "ts = Par ty # ts'"
        using "1.prems"(1) True tag trait by (auto simp: tokens_at.simps [of url i])
      have ty: "ty \<noteq> P_MAX" using find_trait_SomeD [OF trait] by blast
      have "\<exists>res. add_loop url rule n bp (i + length name) c = Some res \<and> added rule ts' c res" if "unmerged c" for c
        using "1.IH"(1) [OF True tag trait refl ts'(1) that "1.prems"(3)] .
      from added_step [OF idx "1.prems"(2) single_param [OF single ty] fresh_nodes(1) [OF ty] this]
      show ?thesis
        using True tag trait ts'(2) idx by (subst add_loop.simps) (simp cong: option.case_cong)
    next
      case char: False
      obtain ts' where ts': "tokens_at url (i + 1) = Some ts'" "ts = Lit (url ! i) # ts'"
        using "1.prems"(1) True char by (auto simp: tokens_at.simps [of url i])
      have ch: "url ! i \<noteq> NUL" using "1.prems"(3) True by (metis nth_mem)
      have "\<exists>res. add_loop url rule n bp (i + 1) c = Some res \<and> added rule ts' c res" if "unmerged c" for c
        using "1.IH"(2) [OF True char ts'(1) that "1.prems"(3)] .
      from added_step [OF idx "1.prems"(2) single_key [OF single ch] fresh_nodes(2) [OF ch] this]
      show ?thesis
        using True char ts'(2) idx by (subst add_loop.simps) (simp add: Let_def cong: option.case_cong)
    qed
  qed
qed

lemma unmerged_fresh: "unmerged fresh_node" "routes fresh_node = []"
  by (simp_all add: fresh_node_def unmerged_Node routes_Node)

lemma trie_add_added:
  "tokens url = Some ts \<Longrightarrow> unmerged head \<Longrightarrow> NUL \<notin> set url \<Longrightarrow>
    \<exists>res. trie_add url rule n bp head = Some res \<and> added rule ts head res"
  unfolding trie_add_def tokens_def by (rule add_loop_added)

lemma trie_add_None: "tokens url = None \<Longrightarrow> trie_add url rule n bp head = None"
  unfolding trie_add_def tokens_def using add_loop_tokens by (metis not_None_eq)

subsection \<open>The router is a linear scan\<close>

text \<open>Adding the rules one after the other, as \<^verbatim>\<open>Router::validate\<close> does: URL, rule index, prefix length and blueprint.\<close>

fun add_rules :: "(string \<times> 16 word \<times> nat \<times> 16 word) list \<Rightarrow> Node \<Rightarrow> (exn + Node) option" where
  "add_rules [] head = Some (Inr head)"
| "add_rules ((url, rule, n, bp) # rules) head =
     (case trie_add url rule n bp head of
        Some (Inr head) \<Rightarrow> add_rules rules head
      | failed \<Rightarrow> failed)"

definition match_route :: "(string \<Rightarrow> 'd \<times> nat \<times> bool) \<Rightarrow> string \<Rightarrow> string \<Rightarrow> 'd routing_params option" where
  "match_route strtod url req = Option.bind (tokens url) (\<lambda>ts. match_tokens strtod ts req no_params)"

lemma add_rules_routes:
  "add_rules rules head = Some (Inr h) \<Longrightarrow> unmerged head \<Longrightarrow> (\<forall>x \<in> set rules. NUL \<notin> set (fst x)) \<Longrightarrow>
    unmerged h \<and> set (routes h) = set (routes head)
      \<union> {(ts, r). r \<noteq> 0 \<and> (\<exists>url n bp. (url, r, n, bp) \<in> set rules \<and> tokens url = Some ts)}"
proof (induction rules head rule: add_rules.induct)
  case (2 url rule n bp rules head)
  obtain ts where ts: "tokens url = Some ts"
    using "2.prems"(1) trie_add_None [of url] by (cases "tokens url") auto
  obtain res where res: "trie_add url rule n bp head = Some res" "added rule ts head res"
    using trie_add_added [OF ts "2.prems"(2)] "2.prems"(3) by fastforce
  obtain h' where h': "res = Inr h'" using "2.prems"(1) res(1) by (cases res) auto
  have inv: "unmerged h'" "set (routes h') = set (routes head) \<union> (if rule \<noteq> 0 then {(ts, rule)} else {})"
    using res(2) h' by (auto simp: added_def)
  have "unmerged h \<and> set (routes h) = set (routes h')
      \<union> {(ts, r). r \<noteq> 0 \<and> (\<exists>url n bp. (url, r, n, bp) \<in> set rules \<and> tokens url = Some ts)}"
    using "2.IH" [of "Inr h'" h'] "2.prems" res(1) h' inv(1) by simp
  then show ?case using inv(2) ts by (auto split: if_splits)
qed simp

lemma fresh_routes:
  assumes "add_rules rules fresh_node = Some (Inr head)" and "\<forall>x \<in> set rules. NUL \<notin> set (fst x)"
  shows "unmerged head"
    and "(ts, r) \<in> set (routes head) \<longleftrightarrow> r \<noteq> 0 \<and> (\<exists>url n bp. (url, r, n, bp) \<in> set rules \<and> tokens url = Some ts)"
  using add_rules_routes [OF assms(1) unmerged_fresh(1) assms(2)] unmerged_fresh(2) by auto

lemma linear_scan:
  assumes "strtod_stops strtod" and "add_rules rules fresh_node = Some (Inr head)"
    and "\<forall>x \<in> set rules. NUL \<notin> set (fst x)" and "validate head = Inr merged" and "trie \<in> {head, merged}"
    and "trie_find strtod req trie = (found, bps, ps)"
  shows "(found = 0 \<longrightarrow> (\<forall>(url, r, n, bp) \<in> set rules. r = 0 \<or> match_route strtod url req = None))
    \<and> (found \<noteq> 0 \<longrightarrow> (\<exists>url n bp. (url, found, n, bp) \<in> set rules \<and> match_route strtod url req = Some ps)
        \<and> (\<forall>(url, r, n, bp) \<in> set rules. r = 0 \<or> match_route strtod url req = None \<or> found \<le> r))"
proof -
  note head = fresh_routes [OF assms(2,3)]
  have "merged = optimize head" using assms(4) by (simp add: validate_def split: if_splits)
  then have "labelled trie" and routes: "routes trie = routes head"
    using assms(5) unmerged_labelled [OF head(1)] by (auto simp: optimize_labelled optimize_routes)
  note least = trie_find_least [OF assms(1) this(1) assms(6), unfolded routes]
  have total: "found \<noteq> 0 \<and> found \<le> r" if rule: "(url, r, n, bp) \<in> set rules" "r \<noteq> 0" "match_route strtod url req \<noteq> None"
    for url r n bp
  proof -
    obtain ts where ts: "tokens url = Some ts" "match_tokens strtod ts req no_params \<noteq> None"
      using rule(3) by (cases "tokens url") (auto simp: match_route_def)
    then have "(ts, r) \<in> set (routes head)" using head(2) rule by blast
    then show ?thesis using least ts(2) by fastforce
  qed
  have "\<exists>url n bp. (url, found, n, bp) \<in> set rules \<and> match_route strtod url req = Some ps" if nonzero: "found \<noteq> 0"
  proof -
    obtain ts where ts: "(ts, found) \<in> set (routes head)" "match_tokens strtod ts req no_params = Some ps"
      using least nonzero by blast
    then obtain url n bp where "(url, found, n, bp) \<in> set rules" "tokens url = Some ts" using head(2) by blast
    moreover from this have "match_route strtod url req = Some ps" using ts(2) by (simp add: match_route_def)
    ultimately show ?thesis by blast
  qed
  then show ?thesis using total by blast
qed

text \<open>
  C32. Whatever rules were added, the search in the trie, before and after merging, is the search for the least
  rule index among the rules whose pattern matches the request: it answers 0 exactly when no rule matches, and
  otherwise the parameters that the pattern of the found rule reads from the request.
\<close>

theorem router_is_linear_scan:
  assumes "strtod_stops strtod" and "add_rules rules fresh_node = Some (Inr head)"
    and "\<forall>x \<in> set rules. NUL \<notin> set (fst x)" and "validate head = Inr merged" and "trie \<in> {head, merged}"
    and "trie_find strtod req trie = (found, bps, ps)"
  shows "(found = 0 \<longrightarrow> (\<forall>(url, r, n, bp) \<in> set rules. r = 0 \<or> match_route strtod url req = None))
    \<and> (found \<noteq> 0 \<longrightarrow> (\<exists>url n bp. (url, found, n, bp) \<in> set rules \<and> match_route strtod url req = Some ps)
        \<and> (\<forall>(url, r, n, bp) \<in> set rules. r = 0 \<or> match_route strtod url req = None \<or> found \<le> r))"
  by (rule linear_scan [OF assms])

text \<open>
  C33. Adding a URL never returns exactly when it has a \<^verbatim>\<open><\<close> that begins no known tag; otherwise it throws
  exactly when a rule with the same pattern is there already, and else the trie gets the pattern and keeps
  all others.
\<close>

theorem trie_add_outcome:
  assumes "add_rules rules fresh_node = Some (Inr head)" and "\<forall>x \<in> set rules. NUL \<notin> set (fst x)" and "NUL \<notin> set url"
  shows "case trie_add url rule n bp head of
      None \<Rightarrow> tokens url = None
    | Some (Inl e) \<Rightarrow> tokens url \<noteq> None \<and> (\<exists>(u, r, _) \<in> set rules. r \<noteq> 0 \<and> tokens u = tokens url)
    | Some (Inr head') \<Rightarrow> tokens url \<noteq> None \<and> (\<forall>(u, r, _) \<in> set rules. r = 0 \<or> tokens u \<noteq> tokens url)
        \<and> set (routes head') = set (routes head) \<union> (if rule \<noteq> 0 then {(the (tokens url), rule)} else {})"
proof (cases "tokens url")
  case None
  then show ?thesis by (simp add: trie_add_None)
next
  case (Some ts)
  note head = fresh_routes [OF assms(1,2)]
  obtain res where res: "trie_add url rule n bp head = Some res" "added rule ts head res"
    using trie_add_added [OF Some head(1) assms(3)] by blast
  have present: "(\<exists>r. (ts, r) \<in> set (routes head)) \<longleftrightarrow> (\<exists>(u, r, _) \<in> set rules. r \<noteq> 0 \<and> tokens u = Some ts)"
    unfolding head(2) by fast
  show ?thesis
  proof (cases res)
    case (Inl e)
    then have "\<exists>(u, r, _) \<in> set rules. r \<noteq> 0 \<and> tokens u = Some ts"
      using res(2) unfolding present [symmetric] by (simp add: added_def)
    then show ?thesis using res(1) Some Inl by simp
  next
    case (Inr h)
    then have "\<not> (\<exists>(u, r, _) \<in> set rules. r \<noteq> 0 \<and> tokens u = Some ts)"
      using res(2) unfolding present [symmetric] by (simp add: added_def)
    moreover have "set (routes h) = set (routes head) \<union> (if rule \<noteq> 0 then {(ts, rule)} else {})"
      using res(2) Inr by (simp add: added_def)
    ultimately show ?thesis using res(1) Some Inr by auto
  qed
qed

subsection \<open>A sample\<close>

definition sample_rules :: "(string \<times> 16 word \<times> nat \<times> 16 word) list" where
  "sample_rules = [(''/a/<int>'', 3, 0, INVALID_BP_ID), (''/a/5'', 2, 0, INVALID_BP_ID)]"

definition no_strtod :: "string \<Rightarrow> nat \<times> nat \<times> bool" where
  "no_strtod s = (0, 0, False)"

lemmas trie_eval = trie_add_def add_loop.simps find_trait_def paramTraits_def compare_at_def new_param_node_def
  new_char_node_def key0_def INVALID_BP_ID_def fresh_node_def Let_def

lemma sample_trie:
  "\<exists>head. add_rules sample_rules fresh_node = Some (Inr head) \<and> validate head = Inr (optimize head)"
  by (simp add: sample_rules_def trie_eval validate_def)

lemma sample_names: "\<forall>x \<in> set sample_rules. NUL \<notin> set (fst x)"
  by (simp add: sample_rules_def)

lemma sample_match: "match_route no_strtod ''/a/5'' ''/a/5'' \<noteq> None"
  by (simp add: match_route_def tokens_def tokens_at.simps)

theorem router_is_linear_scan_witness:
  "\<exists>head. add_rules sample_rules fresh_node = Some (Inr head) \<and> fst (trie_find no_strtod ''/a/5'' (optimize head)) \<noteq> 0"
proof -
  obtain head where head: "add_rules sample_rules fresh_node = Some (Inr head)" "validate head = Inr (optimize head)"
    using sample_trie by blast
  obtain found bps ps where f: "trie_find no_strtod ''/a/5'' (optimize head) = (found, bps, ps)"
    by (cases "trie_find no_strtod ''/a/5'' (optimize head)")
  have stops: "strtod_stops no_strtod" by (simp add: strtod_stops_def no_strtod_def)
  have rule: "(''/a/5'', 2, 0, INVALID_BP_ID) \<in> set sample_rules" by (simp add: sample_rules_def)
  have "found \<noteq> 0"
    using router_is_linear_scan [OF stops head(1) sample_names head(2) _ f] sample_match rule by fastforce
  then show ?thesis using head(1) f by auto
qed

theorem trie_add_outcome_witness:
  "\<exists>head. add_rules sample_rules fresh_node = Some (Inr head) \<and> trie_add ''/<x'' 4 0 0 head = None"
proof -
  obtain head where head: "add_rules sample_rules fresh_node = Some (Inr head)"
    using sample_trie by blast
  have "tokens ''/<x'' = None"
    by (simp add: tokens_def tokens_at.simps find_trait_def paramTraits_def compare_at_def)
  then have "trie_add ''/<x'' 4 0 0 head = None"
    using trie_add_outcome [OF head sample_names, of "''/<x''" 4 0 0] by (auto split: option.splits sum.splits)
  then show ?thesis using head by blast
qed

end
