(* ===== verification/Crow_Tags.thy ===== *)
theory Crow_Tags
  imports Crow_Router
begin

text \<open>
  The type-checking of routes in \<^verbatim>\<open>src/include/crow_all.h\<close>: namespace \<^verbatim>\<open>black_magic\<close> computes from a pattern
  a number with one digit in base 6 for each tag, at compile time for \<^verbatim>\<open>CROW_ROUTE\<close> and at run time for
  \<^verbatim>\<open>route_dynamic\<close>; \<^verbatim>\<open>arguments\<close> turns the number into the argument types of the handler; and
  \<^verbatim>\<open>routing_handler_call_helper::call\<close> fetches the arguments from the vectors that the trie filled. The lemmas
  show that the two computations agree with the patterns the trie uses, and that the handler of a tagged rule
  is called with the values that its pattern read, in their order, and never reads outside the vectors.

  A \<^verbatim>\<open>const_str\<close> is its list of characters, and an index is a natural number: \<^verbatim>\<open>unsigned\<close> would wrap only for
  a pattern of 4 GB. A template that is not defined for its arguments is the value \<open>None\<close>, and a
  \<^verbatim>\<open>throw\<close> in a constant expression is a failed compilation as well.
\<close>

subsection \<open>Strings of constant expressions\<close>

datatype tag_exn = OutOfRange nat nat | Tag_Error string

definition requires_in_range :: "nat \<Rightarrow> nat \<Rightarrow> tag_exn + nat" where
  "requires_in_range i len = (if i \<ge> len then Inl (OutOfRange i len) else Inr i)"

definition const_at :: "string \<Rightarrow> nat \<Rightarrow> tag_exn + char" where
  "const_at s i = map_sum id (\<lambda>i. s ! i) (requires_in_range i (length s))"

lemma const_at_simps [simp]: "const_at s i = (if i < length s then Inr (s ! i) else Inl (OutOfRange i (length s)))"
  by (simp add: const_at_def requires_in_range_def)

function find_closing_tag :: "string \<Rightarrow> nat \<Rightarrow> tag_exn + nat" where
  "find_closing_tag s p =
     (case const_at s p of
        Inl e \<Rightarrow> Inl e
      | Inr c \<Rightarrow> if c = CHR ''>'' then Inr p else find_closing_tag s (p + 1))"
  by pat_completeness auto

termination
  by (relation "measure (\<lambda>(s, p). length s - p)") (auto split: if_splits)

declare find_closing_tag.simps [simp del]

function is_valid :: "string \<Rightarrow> nat \<Rightarrow> int \<Rightarrow> tag_exn + bool" where
  "is_valid s i f =
     (if i = length s then Inr (f = 0)
      else if f < 0 \<or> f \<ge> 2 then Inr False
      else case const_at s i of
             Inl e \<Rightarrow> Inl e
           | Inr c \<Rightarrow> if c = CHR ''<'' then is_valid s (i + 1) (f + 1)
                     else if c = CHR ''>'' then is_valid s (i + 1) (f - 1)
                     else is_valid s (i + 1) f)"
  by pat_completeness auto

termination
  by (relation "measure (\<lambda>(s, i, f). length s - i)") (auto split: if_splits)

declare is_valid.simps [simp del]

text \<open>\<^verbatim>\<open>is_equ_p\<close> compares C strings, which end with their list.\<close>

fun is_equ_p :: "string \<Rightarrow> string \<Rightarrow> nat \<Rightarrow> bool" where
  "is_equ_p a b n =
     (if a = [] \<and> b = [] \<and> n = 0 then True
      else if a = [] \<or> b = [] then False
      else if n = 0 then True
      else if hd a \<noteq> hd b then False
      else is_equ_p (tl a) (tl b) (n - 1))"

declare is_equ_p.simps [simp del]

fun is_equ_n :: "string \<Rightarrow> nat \<Rightarrow> string \<Rightarrow> nat \<Rightarrow> nat \<Rightarrow> bool" where
  "is_equ_n a ai b bi n =
     (if ai + n > length a \<or> bi + n > length b then False
      else if n = 0 then True
      else if a ! ai \<noteq> b ! bi then False
      else is_equ_n a (ai + 1) b (bi + 1) (n - 1))"

declare is_equ_n.simps [simp del]

definition is_int :: "string \<Rightarrow> nat \<Rightarrow> bool" where
  "is_int s i = is_equ_n s i ''<int>'' 0 5"

definition is_uint :: "string \<Rightarrow> nat \<Rightarrow> bool" where
  "is_uint s i = is_equ_n s i ''<uint>'' 0 6"

definition is_float :: "string \<Rightarrow> nat \<Rightarrow> bool" where
  "is_float s i = (is_equ_n s i ''<float>'' 0 7 \<or> is_equ_n s i ''<double>'' 0 8)"

definition is_str :: "string \<Rightarrow> nat \<Rightarrow> bool" where
  "is_str s i = (is_equ_n s i ''<str>'' 0 5 \<or> is_equ_n s i ''<string>'' 0 8)"

definition is_path :: "string \<Rightarrow> nat \<Rightarrow> bool" where
  "is_path s i = is_equ_n s i ''<path>'' 0 6"

subsection \<open>The number of a pattern\<close>

lemma find_closing_tag_ge: "find_closing_tag s p = Inr q \<Longrightarrow> p \<le> q \<and> s ! q = CHR ''>''"
proof (induction s p rule: find_closing_tag.induct)
  case (1 s p)
  then show ?case by (subst (asm) find_closing_tag.simps) (force split: if_splits)
qed

lemma find_closing_tag_gt: "find_closing_tag s p = Inr q \<Longrightarrow> s ! p = CHR ''<'' \<Longrightarrow> p < q"
  using find_closing_tag_ge [of s p q] by (cases "p = q") auto

text \<open>What follows the tag at \<open>p\<close> is counted from its closing bracket.\<close>

function get_parameter_tag :: "string \<Rightarrow> nat \<Rightarrow> tag_exn + 64 word" where
  "get_parameter_tag s p =
     (if p = length s then Inr 0
      else case const_at s p of
        Inl e \<Rightarrow> Inl e
      | Inr c \<Rightarrow>
          if c = CHR ''<'' then
            let follow = (\<lambda>digit. case find_closing_tag s p of
                                    Inl e \<Rightarrow> Inl e
                                  | Inr q \<Rightarrow> map_sum id (\<lambda>t. t * 6 + digit) (get_parameter_tag s q))
            in if is_int s p then follow 1
               else if is_uint s p then follow 2
               else if is_float s p then follow 3
               else if is_str s p then follow 4
               else if is_path s p then follow 5
               else Inl (Tag_Error ''invalid parameter type'')
          else get_parameter_tag s (p + 1))"
  by pat_completeness auto

termination
  by (relation "measure (\<lambda>(s, p). length s - p)")
    (auto split: if_splits dest!: find_closing_tag_gt intro!: diff_less_mono2)

declare get_parameter_tag.simps [simp del]

text \<open>
  The same at run time, on a C string: the list of its characters, the terminator coming after its end.
\<close>

definition c_char :: "string \<Rightarrow> nat \<Rightarrow> char" where
  "c_char s p = (if p < length s then s ! p else NUL)"

text \<open>\<^verbatim>\<open>std::strncmp(a, b, n) == 0\<close>\<close>

fun strncmp_eq :: "string \<Rightarrow> string \<Rightarrow> nat \<Rightarrow> bool" where
  "strncmp_eq a b 0 = True"
| "strncmp_eq [] b (Suc n) = (b = [])"
| "strncmp_eq (x # a) [] (Suc n) = False"
| "strncmp_eq (x # a) (y # b) (Suc n) = (x = y \<and> strncmp_eq a b n)"

function find_closing_tag_runtime :: "string \<Rightarrow> nat \<Rightarrow> tag_exn + nat" where
  "find_closing_tag_runtime s p =
     (if c_char s p = NUL then Inl (Tag_Error ''unmatched tag <'')
      else if c_char s p = CHR ''>'' then Inr p
      else find_closing_tag_runtime s (p + 1))"
  by pat_completeness auto

termination
  by (relation "measure (\<lambda>(s, p). length s - p)") (auto simp: c_char_def split: if_splits)

declare find_closing_tag_runtime.simps [simp del]

lemma find_closing_tag_runtime_ge:
  "find_closing_tag_runtime s p = Inr q \<Longrightarrow> p \<le> q \<and> c_char s q = CHR ''>''"
proof (induction s p rule: find_closing_tag_runtime.induct)
  case (1 s p)
  then show ?case by (subst (asm) find_closing_tag_runtime.simps) (force split: if_splits)
qed

lemma find_closing_tag_runtime_gt:
  "find_closing_tag_runtime s p = Inr q \<Longrightarrow> c_char s p = CHR ''<'' \<Longrightarrow> p < length s \<and> p < q"
  using find_closing_tag_runtime_ge [of s p q] by (cases "p = q") (auto simp: c_char_def split: if_splits)

function get_parameter_tag_runtime :: "string \<Rightarrow> nat \<Rightarrow> tag_exn + 64 word" where
  "get_parameter_tag_runtime s p =
     (if c_char s p = NUL then Inr 0
      else if c_char s p = CHR ''<'' then
        let follow = (\<lambda>digit. case find_closing_tag_runtime s p of
                                Inl e \<Rightarrow> Inl e
                              | Inr q \<Rightarrow> map_sum id (\<lambda>t. t * 6 + digit) (get_parameter_tag_runtime s q))
        in if strncmp_eq (drop p s) ''<int>'' 5 then follow 1
           else if strncmp_eq (drop p s) ''<uint>'' 6 then follow 2
           else if strncmp_eq (drop p s) ''<float>'' 7 \<or> strncmp_eq (drop p s) ''<double>'' 8 then follow 3
           else if strncmp_eq (drop p s) ''<str>'' 5 \<or> strncmp_eq (drop p s) ''<string>'' 8 then follow 4
           else if strncmp_eq (drop p s) ''<path>'' 6 then follow 5
           else Inl (Tag_Error ''invalid parameter type'')
      else get_parameter_tag_runtime s (p + 1))"
  by pat_completeness auto

termination
  by (relation "measure (\<lambda>(s, p). length s - p)")
    (auto dest!: find_closing_tag_runtime_gt intro!: diff_less_mono2 simp: c_char_def split: if_splits)

declare get_parameter_tag_runtime.simps [simp del]

subsection \<open>Argument types\<close>

datatype arg_type = Int64 | UInt64 | Double | String

definition single_tag_to_type :: "64 word \<Rightarrow> arg_type option" where
  "single_tag_to_type n =
     (if n = 1 then Some Int64 else if n = 2 then Some UInt64 else if n = 3 then Some Double
      else if n = 4 then Some String else if n = 5 then Some String else None)"

lemma div_6_less: "(a :: 64 word) \<noteq> 0 \<Longrightarrow> unat (a div 6) < unat a"
  by (simp add: unat_div unat_gt_0)

function arguments :: "64 word \<Rightarrow> arg_type list option" where
  "arguments t =
     (if t = 0 then Some []
      else case arguments (t div 6) of
             None \<Rightarrow> None
           | Some subarguments \<Rightarrow> map_option (\<lambda>ty. ty # subarguments) (single_tag_to_type (t mod 6)))"
  by pat_completeness auto

termination
  by (relation "measure unat") (simp_all add: div_6_less)

declare arguments.simps [simp del]

text \<open>The C++ types of the parameters of a handler; \<open>C_other\<close> is any type the tables do not name.\<close>

datatype cpp_type =
    C_char | C_short | C_int | C_long | C_long_long
  | C_uchar | C_ushort | C_uint | C_ulong | C_ulong_long
  | C_float | C_double | C_string | C_request | C_response | C_other

fun parameter_tag :: "cpp_type \<Rightarrow> int" where
  "parameter_tag C_int = 1"
| "parameter_tag C_char = 1"
| "parameter_tag C_short = 1"
| "parameter_tag C_long = 1"
| "parameter_tag C_long_long = 1"
| "parameter_tag C_uint = 2"
| "parameter_tag C_uchar = 2"
| "parameter_tag C_ushort = 2"
| "parameter_tag C_ulong = 2"
| "parameter_tag C_ulong_long = 2"
| "parameter_tag C_double = 3"
| "parameter_tag C_string = 4"
| "parameter_tag _ = 0"

text \<open>The values are \<^verbatim>\<open>int\<close> constants, so that an overflow is an error of compilation.\<close>

fun compute_parameter_tag_from_args_list :: "cpp_type list \<Rightarrow> int option" where
  "compute_parameter_tag_from_args_list [] = Some 0"
| "compute_parameter_tag_from_args_list (a # as) =
     (case compute_parameter_tag_from_args_list as of
        None \<Rightarrow> None
      | Some sub_value \<Rightarrow>
          if parameter_tag a \<noteq> 0 then
            if sub_value * 6 + parameter_tag a < 2 ^ 31 then Some (sub_value * 6 + parameter_tag a) else None
          else Some sub_value)"

function is_parameter_tag_compatible :: "64 word \<Rightarrow> 64 word \<Rightarrow> bool" where
  "is_parameter_tag_compatible a b =
     (if a = 0 then b = 0
      else if b = 0 then a = 0
      else let sa = a mod 6; sb = a mod 6;
               sa = (if sa = 5 then 4 else sa); sb = (if sb = 5 then 4 else sb)
           in if sa \<noteq> sb then False else is_parameter_tag_compatible (a div 6) (b div 6))"
  by pat_completeness auto

termination
  by (relation "measure (\<lambda>(a, b). unat a)") (simp_all add: div_6_less)

declare is_parameter_tag_compatible.simps [simp del]

text \<open>
  \<^verbatim>\<open>promote_t\<close>, and the argument types of a handler without its leading request and response. A type that
  \<^verbatim>\<open>call\<close> has no specialisation for is \<open>None\<close>.
\<close>

fun promote_t :: "cpp_type \<Rightarrow> arg_type option" where
  "promote_t C_char = Some Int64"
| "promote_t C_short = Some Int64"
| "promote_t C_int = Some Int64"
| "promote_t C_long = Some Int64"
| "promote_t C_long_long = Some Int64"
| "promote_t C_uchar = Some UInt64"
| "promote_t C_ushort = Some UInt64"
| "promote_t C_uint = Some UInt64"
| "promote_t C_ulong = Some UInt64"
| "promote_t C_ulong_long = Some UInt64"
| "promote_t C_float = Some Double"
| "promote_t C_double = Some Double"
| "promote_t C_string = Some String"
| "promote_t _ = None"

definition args_type :: "cpp_type list \<Rightarrow> arg_type list option" where
  "args_type as = those (map promote_t
     (if take 2 as = [C_request, C_response] then drop 2 as
      else if take 1 as = [C_request] then drop 1 as
      else as))"

subsection \<open>Calling the handler\<close>

datatype 'd arg = A_int int | A_uint "64 word" | A_double 'd | A_string string

text \<open>\<^verbatim>\<open>routing_params::get\<close> does not check its index: \<open>None\<close> is a read outside the vector.\<close>

definition vector_at :: "'a list \<Rightarrow> nat \<Rightarrow> 'a option" where
  "vector_at xs i = (if i < length xs then Some (xs ! i) else None)"

fun get_param :: "'d routing_params \<Rightarrow> arg_type \<times> nat \<Rightarrow> 'd arg option" where
  "get_param ps (Int64, i) = map_option A_int (vector_at (int_params ps) i)"
| "get_param ps (UInt64, i) = map_option A_uint (vector_at (uint_params ps) i)"
| "get_param ps (Double, i) = map_option A_double (vector_at (double_params ps) i)"
| "get_param ps (String, i) = map_option A_string (vector_at (string_params ps) i)"

text \<open>The recursion of \<^verbatim>\<open>call\<close> over the types, which pairs each with its index in its vector.\<close>

fun call_pairs :: "nat \<Rightarrow> nat \<Rightarrow> nat \<Rightarrow> nat \<Rightarrow> arg_type list \<Rightarrow> (arg_type \<times> nat) list \<Rightarrow> (arg_type \<times> nat) list" where
  "call_pairs NInt NUint NDouble NString (Int64 # as) pushed = call_pairs (NInt + 1) NUint NDouble NString as (pushed @ [(Int64, NInt)])"
| "call_pairs NInt NUint NDouble NString (UInt64 # as) pushed = call_pairs NInt (NUint + 1) NDouble NString as (pushed @ [(UInt64, NUint)])"
| "call_pairs NInt NUint NDouble NString (Double # as) pushed = call_pairs NInt NUint (NDouble + 1) NString as (pushed @ [(Double, NDouble)])"
| "call_pairs NInt NUint NDouble NString (String # as) pushed = call_pairs NInt NUint NDouble (NString + 1) as (pushed @ [(String, NString)])"
| "call_pairs NInt NUint NDouble NString [] pushed = pushed"

definition handler_args :: "'d routing_params \<Rightarrow> arg_type list \<Rightarrow> 'd arg list option" where
  "handler_args ps tys = those (map (get_param ps) (call_pairs 0 0 0 0 tys []))"

text \<open>
  \<^verbatim>\<open>DynamicRule::wrap\<close>: the argument types with which the handler will be called. Outside, \<open>None\<close> is a
  handler that does not compile.
\<close>

definition wrap :: "string \<Rightarrow> cpp_type list \<Rightarrow> (tag_exn + arg_type list) option" where
  "wrap rule as =
     (case (compute_parameter_tag_from_args_list as, args_type as) of
        (Some n, Some tys) \<Rightarrow>
          Some (case get_parameter_tag_runtime (c_str rule) 0 of
                  Inl e \<Rightarrow> Inl e
                | Inr t \<Rightarrow>
                    if \<not> is_parameter_tag_compatible t (word_of_int n)
                    then Inl (Tag_Error (''route_dynamic: Handler type is mismatched with URL parameters: '' @ rule))
                    else Inr tys)
      | _ \<Rightarrow> None)"

subsection \<open>Tags and patterns\<close>

lemma is_equ_n_iff: "is_equ_n a ai b bi n \<longleftrightarrow>
    ai + n \<le> length a \<and> bi + n \<le> length b \<and> take n (drop ai a) = take n (drop bi b)"
proof (induction a ai b bi n rule: is_equ_n.induct)
  case (1 a ai b bi n)
  show ?case
  proof (cases "ai + n \<le> length a \<and> bi + n \<le> length b \<and> n \<noteq> 0")
    case True
    then obtain m where "n = Suc m" "ai < length a" "bi < length b" by (cases n) auto
    then show ?thesis using 1 True by (subst is_equ_n.simps) (auto simp: Cons_nth_drop_Suc [symmetric])
  qed (subst is_equ_n.simps, auto)
qed

lemma is_equ_n_name: "name \<noteq> [] \<Longrightarrow> is_equ_n s i name 0 (length name) \<longleftrightarrow> compare_at s i name"
proof -
  assume "name \<noteq> []"
  have "i + length name \<le> length s" if "take (length name) (drop i s) = name"
    using arg_cong [OF that, of length] \<open>name \<noteq> []\<close> by (cases "i \<le> length s") auto
  then show ?thesis by (auto simp: is_equ_n_iff compare_at_def)
qed

lemma strncmp_eq_name: "strncmp_eq s name (length name) \<longleftrightarrow> take (length name) s = name"
proof (induction name arbitrary: s)
  case (Cons c name)
  then show ?case by (cases s) auto
qed simp

lemma tag_tests:
  "is_int s i = compare_at s i ''<int>''" "is_uint s i = compare_at s i ''<uint>''"
  "is_float s i = (compare_at s i ''<float>'' \<or> compare_at s i ''<double>'')"
  "is_str s i = (compare_at s i ''<str>'' \<or> compare_at s i ''<string>'')"
  "is_path s i = compare_at s i ''<path>''"
  using is_equ_n_name [of "''<int>''" s i] is_equ_n_name [of "''<uint>''" s i] is_equ_n_name [of "''<float>''" s i]
    is_equ_n_name [of "''<double>''" s i] is_equ_n_name [of "''<str>''" s i] is_equ_n_name [of "''<string>''" s i]
    is_equ_n_name [of "''<path>''" s i]
  by (simp_all add: numeral_eq_Suc is_int_def is_uint_def is_float_def is_str_def is_path_def)

lemma strncmp_tests:
  "strncmp_eq (drop i s) ''<int>'' 5 = compare_at s i ''<int>''"
  "strncmp_eq (drop i s) ''<uint>'' 6 = compare_at s i ''<uint>''"
  "strncmp_eq (drop i s) ''<float>'' 7 = compare_at s i ''<float>''"
  "strncmp_eq (drop i s) ''<double>'' 8 = compare_at s i ''<double>''"
  "strncmp_eq (drop i s) ''<str>'' 5 = compare_at s i ''<str>''"
  "strncmp_eq (drop i s) ''<string>'' 8 = compare_at s i ''<string>''"
  "strncmp_eq (drop i s) ''<path>'' 6 = compare_at s i ''<path>''"
  using strncmp_eq_name [of "drop i s" "''<int>''"] strncmp_eq_name [of "drop i s" "''<uint>''"]
    strncmp_eq_name [of "drop i s" "''<float>''"] strncmp_eq_name [of "drop i s" "''<double>''"]
    strncmp_eq_name [of "drop i s" "''<str>''"] strncmp_eq_name [of "drop i s" "''<string>''"]
    strncmp_eq_name [of "drop i s" "''<path>''"]
  by (simp_all add: numeral_eq_Suc compare_at_def)

lemma find_trait_tests:
  "find_trait s i =
     (if is_int s i then Some (P_INT, ''<int>'')
      else if is_uint s i then Some (P_UINT, ''<uint>'')
      else if is_float s i then Some (P_DOUBLE, if compare_at s i ''<float>'' then ''<float>'' else ''<double>'')
      else if is_str s i then Some (P_STRING, if compare_at s i ''<str>'' then ''<str>'' else ''<string>'')
      else if is_path s i then Some (P_PATH, ''<path>'')
      else None)"
  by (simp add: find_trait_def paramTraits_def tag_tests)

lemma closing_tag:
  "drop p s = w @ CHR ''>'' # r \<Longrightarrow> CHR ''>'' \<notin> set w \<Longrightarrow> find_closing_tag s p = Inr (p + length w)"
proof (induction w arbitrary: p)
  case Nil
  then have "p < length s" "s ! p = CHR ''>''"
    by (metis append_Nil drop_eq_Nil list.distinct(1) not_le) (metis append_Nil Nil.prems(1) hd_drop_conv_nth list.sel(1) drop_eq_Nil list.distinct(1) not_le)
  then show ?case by (simp add: find_closing_tag.simps)
next
  case (Cons c w)
  then have "p < length s" by (metis append_Cons drop_eq_Nil list.distinct(1) not_le)
  then have "s ! p = c" "drop (Suc p) s = w @ CHR ''>'' # r" using Cons.prems(1) by (auto simp: Cons_nth_drop_Suc [symmetric])
  then show ?case using Cons.IH [of "Suc p"] Cons.prems(2) \<open>p < length s\<close> by (auto simp: find_closing_tag.simps [of s p])
qed

lemma closing_tag_runtime: "NUL \<notin> set s \<Longrightarrow> find_closing_tag s p = Inr q \<Longrightarrow> find_closing_tag_runtime s p = Inr q"
proof (induction s p rule: find_closing_tag.induct)
  case (1 s p)
  then have p: "p < length s" by (auto simp: find_closing_tag.simps [of s p] split: if_splits)
  then have "s ! p \<noteq> NUL" using "1.prems"(1) by (metis nth_mem)
  then show ?case
    using 1 p by (subst find_closing_tag_runtime.simps) (auto simp: c_char_def find_closing_tag.simps [of s p] split: if_splits)
qed

lemma trait_closing:
  assumes "find_trait s i = Some (ty, name)"
  shows "find_closing_tag s i = Inr (i + (length name - 1))" "i + length name \<le> length s" "0 < length name"
    "s ! (i + (length name - 1)) = CHR ''>''"
proof -
  show b: "i + length name \<le> length s" "0 < length name" using find_trait_SomeD [OF assms] by auto
  have "(ty, name) \<in> set paramTraits" "compare_at s i name"
    using assms unfolding find_trait_def by (auto simp: find_Some_iff) (metis snd_conv)
  then obtain w where w: "name = w @ [CHR ''>'']" "CHR ''>'' \<notin> set w" "take (length name) (drop i s) = name"
    by (auto simp: paramTraits_def compare_at_def)
  then have "drop i s = w @ CHR ''>'' # drop (length name) (drop i s)" by (metis append_take_drop_id append.assoc append_Cons append_Nil)
  from closing_tag [OF this w(2)] show c: "find_closing_tag s i = Inr (i + (length name - 1))" using w(1) by simp
  show "s ! (i + (length name - 1)) = CHR ''>''" using find_closing_tag_ge [OF c] by simp
qed

text \<open>The digit of each tag, and the number of the pattern from the tags it has.\<close>

fun tag_digit :: "ParamType \<Rightarrow> nat" where
  "tag_digit P_INT = 1"
| "tag_digit P_UINT = 2"
| "tag_digit P_DOUBLE = 3"
| "tag_digit P_STRING = 4"
| "tag_digit P_PATH = 5"
| "tag_digit P_MAX = 0"

fun params_of :: "token list \<Rightarrow> ParamType list" where
  "params_of [] = []"
| "params_of (Lit c # ts) = params_of ts"
| "params_of (Par ty # ts) = ty # params_of ts"

definition tag_number :: "ParamType list \<Rightarrow> nat" where
  "tag_number tys = horner_sum tag_digit 6 tys"

lemma tag_number_simps [simp]: "tag_number [] = 0" "tag_number (ty # tys) = tag_digit ty + 6 * tag_number tys"
  by (simp_all add: tag_number_def)

definition tag_of :: "token list option \<Rightarrow> tag_exn + 64 word" where
  "tag_of ts = (case ts of
     None \<Rightarrow> Inl (Tag_Error ''invalid parameter type'')
   | Some ts \<Rightarrow> Inr (word_of_nat (tag_number (params_of ts))))"

lemma tag_of_cons:
  "tag_of (map_option ((#) (Par ty)) ts) = map_sum id (\<lambda>t. t * 6 + word_of_nat (tag_digit ty)) (tag_of ts)"
  "tag_of (map_option ((#) (Lit c)) ts) = tag_of ts"
  by (cases ts; simp add: tag_of_def algebra_simps)+

lemma get_parameter_tag_step:
  "p < length s \<Longrightarrow> s ! p \<noteq> CHR ''<'' \<Longrightarrow> get_parameter_tag s p = get_parameter_tag s (p + 1)"
  by (simp add: get_parameter_tag.simps [of s p])

lemma get_parameter_tag_open:
  assumes "p < length s" and "s ! p = CHR ''<''"
  shows "get_parameter_tag s p = (case find_trait s p of
     None \<Rightarrow> Inl (Tag_Error ''invalid parameter type'')
   | Some (ty, name) \<Rightarrow> map_sum id (\<lambda>t. t * 6 + word_of_nat (tag_digit ty)) (get_parameter_tag s (p + length name)))"
proof (cases "find_trait s p")
  case None
  then show ?thesis using assms
    by (simp add: get_parameter_tag.simps [of s p] find_trait_tests Let_def split: if_splits)
next
  case (Some x)
  obtain ty name where x: "x = (ty, name)" by (cases x)
  note c = trait_closing [OF Some [unfolded x]]
  have "get_parameter_tag s p = map_sum id (\<lambda>t. t * 6 + word_of_nat (tag_digit ty)) (get_parameter_tag s (p + (length name - 1)))"
    using assms c(1) Some [unfolded x find_trait_tests]
    by (subst get_parameter_tag.simps) (auto simp: Let_def split: if_splits)
  also have "get_parameter_tag s (p + (length name - 1)) = get_parameter_tag s (p + length name)"
    using get_parameter_tag_step [of "p + (length name - 1)" s] c(2-4) by (cases name) simp_all
  finally show ?thesis using Some x by (simp add: id_def)
qed

lemma get_parameter_tag_tokens: "p \<le> length s \<Longrightarrow> get_parameter_tag s p = tag_of (tokens_at s p)"
proof (induction s p rule: tokens_at.induct)
  case (1 s p)
  show ?case
  proof (cases "p < length s")
    case False
    then have "p = length s" using "1.prems" by simp
    then show ?thesis by (simp add: get_parameter_tag.simps tokens_at.simps [of s "length s"] tag_of_def)
  next
    case p: True
    show ?thesis
    proof (cases "s ! p = CHR ''<''")
      case False
      then show ?thesis using "1.IH"(2) [OF p] p by (simp add: get_parameter_tag_step tokens_at.simps [of s p] tag_of_cons)
    next
      case open_tag: True
      show ?thesis
      proof (cases "find_trait s p")
        case None
        then show ?thesis using p open_tag by (simp add: get_parameter_tag_open tokens_at_stuck tag_of_def)
      next
        case (Some x)
        obtain ty name where x: "x = (ty, name)" by (cases x)
        show ?thesis
          using "1.IH"(1) [OF p open_tag Some x [symmetric]] trait_closing(2) [OF Some [unfolded x]] p open_tag Some x
          by (simp add: get_parameter_tag_open tokens_at.simps [of s p] tag_of_cons)
      qed
    qed
  qed
qed

text \<open>Both computations agree: on a C string without \<^verbatim>\<open>NUL\<close> every test and every search is the same.\<close>

lemma get_parameter_tag_runtime_step:
  assumes "p < length s" and "s ! p \<noteq> CHR ''<''" and "NUL \<notin> set s"
  shows "get_parameter_tag_runtime s p = get_parameter_tag_runtime s (p + 1)"
proof -
  have "s ! p \<noteq> NUL" using assms(1,3) by (metis nth_mem)
  then show ?thesis using assms(1,2) by (simp add: get_parameter_tag_runtime.simps [of s p] c_char_def)
qed

lemma get_parameter_tag_runtime_eq: "NUL \<notin> set s \<Longrightarrow> p \<le> length s \<Longrightarrow> get_parameter_tag_runtime s p = get_parameter_tag s p"
proof (induction s p rule: get_parameter_tag.induct)
  case (1 s p)
  show ?case
  proof (cases "p < length s")
    case False
    then show ?thesis using "1.prems"(2) by (simp add: get_parameter_tag.simps get_parameter_tag_runtime.simps c_char_def)
  next
    case p: True
    show ?thesis
    proof (cases "s ! p = CHR ''<''")
      case False
      then show ?thesis using "1.IH"(2) p "1.prems"(1)
        by (simp add: get_parameter_tag_runtime_step get_parameter_tag_step)
    next
      case open_tag: True
      note unfold = get_parameter_tag_runtime.simps [of s p] get_parameter_tag_open [OF p open_tag]
      show ?thesis
      proof (cases "find_trait s p")
        case None
        then show ?thesis using p open_tag
          by (simp add: unfold c_char_def Let_def strncmp_tests find_trait_tests tag_tests split: if_splits)
      next
        case (Some x)
        obtain ty name where x: "x = (ty, name)" by (cases x)
        note c = trait_closing [OF Some [unfolded x]]
        note q = closing_tag_runtime [OF "1.prems"(1) c(1)]
        have less: "p + (length name - 1) \<le> length s" using c(2) by simp
        have IH: "get_parameter_tag_runtime s (p + (length name - 1)) = get_parameter_tag s (p + (length name - 1))"
          using "1.IH"(1) p open_tag c(1) less "1.prems"(1) by simp
        also have "\<dots> = get_parameter_tag s (p + length name)"
          using get_parameter_tag_step [of "p + (length name - 1)" s] c(2-4) by (cases name) simp_all
        finally show ?thesis
          using p open_tag Some [unfolded x find_trait_tests] q Some x
          by (auto simp: unfold c_char_def Let_def strncmp_tests tag_tests split: if_splits)
      qed
    qed
  qed
qed

lemma runtime_tokens: "NUL \<notin> set s \<Longrightarrow> get_parameter_tag_runtime s 0 = tag_of (tokens s)"
  by (simp add: get_parameter_tag_runtime_eq get_parameter_tag_tokens tokens_def)

subsection \<open>Argument types of a pattern\<close>

fun type_of_param :: "ParamType \<Rightarrow> arg_type" where
  "type_of_param P_INT = Int64"
| "type_of_param P_UINT = UInt64"
| "type_of_param P_DOUBLE = Double"
| "type_of_param _ = String"

lemma params_of_tokens_at: "tokens_at s i = Some ts \<Longrightarrow> P_MAX \<notin> set (params_of ts)"
proof (induction s i arbitrary: ts rule: tokens_at.induct)
  case (1 s i)
  then show ?case
    by (subst (asm) tokens_at.simps) (auto split: if_splits option.splits dest: find_trait_SomeD)
qed

lemma tag_digit_bounds: "tag_digit ty < 6" "ty \<noteq> P_MAX \<Longrightarrow> 0 < tag_digit ty"
  by (cases ty; simp)+

lemma tag_number_less: "tag_number tys < 6 ^ length tys"
proof (induction tys)
  case (Cons ty tys)
  then show ?case using tag_digit_bounds(1) [of ty] by simp
qed simp

lemma tag_number_fits: "length tys \<le> 24 \<Longrightarrow> tag_number tys < 2 ^ 64"
proof -
  assume "length tys \<le> 24"
  then have "(6 :: nat) ^ length tys \<le> 6 ^ 24" by (rule power_increasing) simp
  then show ?thesis using tag_number_less [of tys] by simp
qed

lemma word_of_nat_div_mod:
  assumes "n < 2 ^ 64"
  shows "(word_of_nat n :: 64 word) div 6 = word_of_nat (n div 6)" "(word_of_nat n :: 64 word) mod 6 = word_of_nat (n mod 6)"
    "(word_of_nat n :: 64 word) = 0 \<longleftrightarrow> n = 0"
  using assms by (simp_all add: word_unat_eq_iff unat_div unat_mod unat_of_nat take_bit_eq_mod)

lemma arguments_tag:
  "length tys \<le> 24 \<Longrightarrow> P_MAX \<notin> set tys \<Longrightarrow> arguments (word_of_nat (tag_number tys)) = Some (map type_of_param tys)"
proof (induction tys)
  case (Cons ty tys)
  note w = word_of_nat_div_mod [OF tag_number_fits [OF Cons.prems(1)]]
  have d: "tag_digit ty < 6" "0 < tag_digit ty" using tag_digit_bounds Cons.prems(2) by auto
  have "tag_number (ty # tys) div 6 = tag_number tys" "tag_number (ty # tys) mod 6 = tag_digit ty" "tag_number (ty # tys) \<noteq> 0"
    using d by simp_all
  moreover have "single_tag_to_type (word_of_nat (tag_digit ty)) = Some (type_of_param ty)"
    using Cons.prems(2) by (cases ty) (simp_all add: single_tag_to_type_def)
  ultimately show ?case using Cons w by (subst arguments.simps) (simp del: tag_number_simps)
qed (simp add: arguments.simps)

subsection \<open>The values a pattern reads\<close>

fun arg_kind :: "'d arg \<Rightarrow> arg_type" where
  "arg_kind (A_int _) = Int64"
| "arg_kind (A_uint _) = UInt64"
| "arg_kind (A_double _) = Double"
| "arg_kind (A_string _) = String"

fun push_arg :: "'d arg \<Rightarrow> 'd routing_params \<Rightarrow> 'd routing_params" where
  "push_arg (A_int v) = push_int v"
| "push_arg (A_uint v) = push_uint v"
| "push_arg (A_double v) = push_double v"
| "push_arg (A_string v) = push_string v"

definition values_of :: "'d routing_params \<Rightarrow> 'd arg list" where
  "values_of ps = map A_int (int_params ps) @ map A_uint (uint_params ps) @ map A_double (double_params ps)
     @ map A_string (string_params ps)"

lemma values_of_push [simp]: "values_of (push_arg v no_params) = [v]"
  by (cases v)
    (simp_all add: values_of_def push_int_def push_uint_def push_double_def push_string_def no_params_def)

text \<open>Reading a request along a pattern, one value for each tag.\<close>

fun read_args :: "(string \<Rightarrow> 'd \<times> nat \<times> bool) \<Rightarrow> token list \<Rightarrow> string \<Rightarrow> 'd arg list" where
  "read_args strtod (Lit c # ts) (d # s) = read_args strtod ts s"
| "read_args strtod (Par ty # ts) (d # s) =
     (case match_child strtod (new_param_node ty) (d # s) of
        None \<Rightarrow> []
      | Some (n, push) \<Rightarrow> values_of (push no_params) @ read_args strtod ts (drop n (d # s)))"
| "read_args strtod _ _ = []"

lemma match_child_push:
  "match_child strtod (new_param_node ty) s = Some (n, push) \<Longrightarrow> ty \<noteq> P_MAX \<Longrightarrow>
    \<exists>v. push = push_arg v \<and> arg_kind v = type_of_param ty"
  by (cases ty) (force simp: match_child_def new_param_node_def read_int_def read_uint_def read_double_def
      read_string_def read_path_def Let_def split: if_splits option.splits prod.splits
      intro: exI [of _ "A_int _"] exI [of _ "A_uint _"] exI [of _ "A_double _"] exI [of _ "A_string _"])+

lemma match_tokens_args:
  "match_tokens strtod ts s ps = Some ps' \<Longrightarrow> P_MAX \<notin> set (params_of ts) \<Longrightarrow>
    ps' = fold push_arg (read_args strtod ts s) ps \<and> map arg_kind (read_args strtod ts s) = map type_of_param (params_of ts)"
proof (induction strtod ts s ps rule: match_tokens.induct)
  case (4 strtod ty ts d s ps)
  then obtain n push where m: "match_child strtod (new_param_node ty) (d # s) = Some (n, push)"
      "match_tokens strtod ts (drop n (d # s)) (push ps) = Some ps'"
    by (auto split: option.splits prod.splits)
  obtain v where v: "push = push_arg v" "arg_kind v = type_of_param ty"
    using match_child_push [OF m(1)] "4.prems"(2) by auto
  show ?case using "4.IH" [OF m(1) refl] m "4.prems"(2) v by simp
qed (auto split: if_splits)

subsection \<open>The indices of \<^verbatim>\<open>call\<close>\<close>

lemma call_pairs_pushed: "call_pairs i u d n tys pushed = pushed @ call_pairs i u d n tys []"
proof (induction tys arbitrary: i u d n pushed)
  case (Cons ty tys)
  have "call_pairs i u d n tys (pushed @ [x]) = pushed @ call_pairs i u d n tys [x]" for i u d n x
    using Cons.IH [of i u d n "pushed @ [x]"] Cons.IH [of i u d n "[x]"] by simp
  then show ?case by (cases ty) simp_all
qed simp

lemma get_param_push: "get_param ps x = Some v \<Longrightarrow> get_param (push_arg a ps) x = Some v"
  by (cases "(ps, x)" rule: get_param.cases; cases a)
    (auto simp: vector_at_def nth_append push_int_def push_uint_def push_double_def push_string_def split: if_splits)

lemma get_param_fold: "get_param ps x = Some v \<Longrightarrow> get_param (fold push_arg as ps) x = Some v"
  by (induction as arbitrary: ps) (simp_all add: get_param_push)

lemma those_map_Cons: "f x = Some y \<Longrightarrow> those (map f xs) = Some ys \<Longrightarrow> those (map f (x # xs)) = Some (y # ys)"
  by simp

lemma call_pairs_args:
  "those (map (get_param (fold push_arg as ps))
     (call_pairs (length (int_params ps)) (length (uint_params ps)) (length (double_params ps)) (length (string_params ps))
        (map arg_kind as) [])) = Some as"
proof (induction as arbitrary: ps)
  case (Cons a as)
  define x where "x = (arg_kind a, case a of A_int _ \<Rightarrow> length (int_params ps) | A_uint _ \<Rightarrow> length (uint_params ps)
    | A_double _ \<Rightarrow> length (double_params ps) | A_string _ \<Rightarrow> length (string_params ps))"
  have "get_param (push_arg a ps) x = Some a"
    by (cases a) (simp_all add: x_def vector_at_def push_int_def push_uint_def push_double_def push_string_def)
  then have "get_param (fold push_arg (a # as) ps) x = Some a" by (simp add: get_param_fold)
  moreover have "call_pairs (length (int_params ps)) (length (uint_params ps)) (length (double_params ps))
      (length (string_params ps)) (map arg_kind (a # as)) []
    = x # call_pairs (length (int_params (push_arg a ps))) (length (uint_params (push_arg a ps)))
        (length (double_params (push_arg a ps))) (length (string_params (push_arg a ps))) (map arg_kind as) []"
    by (cases a; simp add: x_def push_int_def push_uint_def push_double_def push_string_def; rule call_pairs_pushed [of _ _ _ _ _ "[_]", simplified])
  ultimately show ?case using Cons.IH [of "push_arg a ps"] by simp
qed simp

lemma handler_args_fold: "handler_args (fold push_arg as no_params) (map arg_kind as) = Some as"
  using call_pairs_args [of as no_params] by (simp add: handler_args_def no_params_def)

subsection \<open>Routes are typed\<close>

definition route_params :: "string \<Rightarrow> ParamType list" where
  "route_params url = (case tokens url of None \<Rightarrow> [] | Some ts \<Rightarrow> params_of ts)"

lemma trie_add_fresh: "NUL \<notin> set url \<Longrightarrow> trie_add url rule n bp fresh_node = None \<longleftrightarrow> tokens url = None"
  using trie_add_None [of url] trie_add_added [OF _ unmerged_fresh(1), of url _ rule n bp] by (cases "tokens url") auto

text \<open>
  C37. The two computations of the number of a pattern agree, and fail exactly for the patterns on which
  \<^verbatim>\<open>Trie::add\<close> would not return, so that \<^verbatim>\<open>CROW_ROUTE\<close> refuses them at compile time; the number has one
  digit for each tag, and up to 24 tags it determines the argument types of the handler, in their order.
\<close>

theorem route_numbers_agree:
  assumes "NUL \<notin> set url"
  shows "get_parameter_tag_runtime url 0 = get_parameter_tag url 0
    \<and> ((\<exists>e. get_parameter_tag url 0 = Inl e) \<longleftrightarrow> trie_add url rule n bp fresh_node = None)
    \<and> (\<forall>t. get_parameter_tag url 0 = Inr t \<longrightarrow> t = word_of_nat (horner_sum tag_digit 6 (route_params url))
        \<and> (length (route_params url) \<le> 24 \<longrightarrow> arguments t = Some (map type_of_param (route_params url))))"
proof -
  have tag: "get_parameter_tag url 0 = tag_of (tokens url)" by (simp add: get_parameter_tag_tokens tokens_def)
  show ?thesis
  proof (cases "tokens url")
    case None
    then show ?thesis using tag assms trie_add_fresh [OF assms] by (simp add: tag_of_def get_parameter_tag_runtime_eq)
  next
    case (Some ts)
    have "P_MAX \<notin> set (params_of ts)" using Some params_of_tokens_at by (simp add: tokens_def)
    then show ?thesis using tag assms trie_add_fresh [OF assms] Some arguments_tag [of "params_of ts"]
      by (simp add: tag_of_def get_parameter_tag_runtime_eq route_params_def tag_number_def)
  qed
qed

lemma matched_args:
  assumes "match_route strtod url req = Some ps"
  shows "\<exists>ts. tokens url = Some ts \<and> ps = fold push_arg (read_args strtod ts req) no_params
    \<and> map arg_kind (read_args strtod ts req) = map type_of_param (route_params url)"
proof -
  obtain ts where ts: "tokens url = Some ts" "match_tokens strtod ts req no_params = Some ps"
    using assms by (auto simp: match_route_def bind_eq_Some_conv)
  then show ?thesis
    using match_tokens_args [OF ts(2)] params_of_tokens_at by (auto simp: tokens_def route_params_def)
qed

lemma matched_handler:
  assumes "match_route strtod url req = Some ps" and "length (route_params url) \<le> 24"
  shows "\<exists>t tys ts args. get_parameter_tag url 0 = Inr t \<and> arguments t = Some tys \<and> tokens url = Some ts
    \<and> handler_args ps tys = Some args \<and> args = read_args strtod ts req \<and> map arg_kind args = tys"
proof -
  obtain ts where ts: "tokens url = Some ts" "ps = fold push_arg (read_args strtod ts req) no_params"
      "map arg_kind (read_args strtod ts req) = map type_of_param (route_params url)"
    using matched_args [OF assms(1)] by blast
  have "get_parameter_tag url 0 = Inr (word_of_nat (tag_number (route_params url)))"
    using ts(1) by (simp add: get_parameter_tag_tokens [of 0] tokens_def [symmetric] tag_of_def route_params_def)
  moreover have "arguments (word_of_nat (tag_number (route_params url))) = Some (map type_of_param (route_params url))"
    using assms(2) ts(1) params_of_tokens_at by (intro arguments_tag) (auto simp: route_params_def tokens_def)
  ultimately show ?thesis using handler_args_fold [of "read_args strtod ts req"] ts by auto
qed

text \<open>
  C38. Whenever a request matches a pattern of at most 24 tags, the handler whose types \<^verbatim>\<open>CROW_ROUTE\<close> computed
  from the pattern is called with exactly the values its tags read, in the order of the pattern, and no index
  lies outside the vectors of the parameters.
\<close>

theorem tagged_handler_gets_its_values:
  assumes "match_route strtod url req = Some ps" and "length (route_params url) \<le> 24"
  shows "\<exists>t tys ts args. get_parameter_tag url 0 = Inr t \<and> arguments t = Some tys \<and> tokens url = Some ts
    \<and> handler_args ps tys = Some args \<and> args = read_args strtod ts req \<and> map arg_kind args = tys"
  by (rule matched_handler [OF assms])

subsection \<open>Dynamic rules\<close>

definition digits :: "nat list \<Rightarrow> nat" where
  "digits ds = horner_sum id 6 ds"

lemma digits_simps [simp]: "digits [] = 0" "digits (d # ds) = d + 6 * digits ds"
  by (simp_all add: digits_def)

lemma digits_zero: "(\<forall>d \<in> set ds. 0 < d) \<Longrightarrow> digits ds = 0 \<longleftrightarrow> ds = []"
  by (cases ds) auto

lemma tag_number_digits: "tag_number tys = digits (map tag_digit tys)"
  by (induction tys) simp_all

text \<open>The comparison takes both remainders from its first argument, so it only counts the digits.\<close>

lemma compatible_counts:
  "(\<forall>d \<in> set ds. 0 < d \<and> d < 6) \<Longrightarrow> (\<forall>d \<in> set es. 0 < d \<and> d < 6) \<Longrightarrow> digits ds < 2 ^ 64 \<Longrightarrow> digits es < 2 ^ 64 \<Longrightarrow>
    is_parameter_tag_compatible (word_of_nat (digits ds)) (word_of_nat (digits es)) \<longleftrightarrow> length ds = length es"
proof (induction ds arbitrary: es)
  case Nil
  have "digits es = 0 \<longleftrightarrow> es = []" using Nil.prems(2) by (intro digits_zero) auto
  then show ?case using word_of_nat_div_mod(3) [OF Nil.prems(4)]
    by (subst is_parameter_tag_compatible.simps) auto
next
  case (Cons d ds)
  note a = word_of_nat_div_mod [OF Cons.prems(3)] and b = word_of_nat_div_mod [OF Cons.prems(4)]
  have nonzero: "digits (d # ds) \<noteq> 0" and div_d: "digits (d # ds) div 6 = digits ds" using Cons.prems(1) by auto
  show ?case
  proof (cases es)
    case Nil
    then show ?thesis using a(3) nonzero by (subst is_parameter_tag_compatible.simps) simp
  next
    case (Cons e es')
    then have "digits es \<noteq> 0" "digits es div 6 = digits es'" using Cons.prems(2) by auto
    then show ?thesis using a b nonzero div_d Cons.IH [of es'] Cons.prems Cons
      by (subst is_parameter_tag_compatible.simps) (simp del: digits_simps add: Let_def)
  qed
qed

definition tagged_args :: "cpp_type list \<Rightarrow> cpp_type list" where
  "tagged_args as = filter (\<lambda>a. parameter_tag a \<noteq> 0) as"

lemma parameter_tag_bounds: "0 \<le> parameter_tag a" "parameter_tag a < 6"
  by (cases a; simp)+

lemma computed_tag:
  "compute_parameter_tag_from_args_list as = Some n \<Longrightarrow>
    n = int (digits (map (\<lambda>a. nat (parameter_tag a)) (tagged_args as))) \<and> n < 2 ^ 31"
proof (induction as arbitrary: n)
  case (Cons a as)
  then show ?case using parameter_tag_bounds [of a]
    by (cases "compute_parameter_tag_from_args_list as") (auto simp: tagged_args_def split: if_splits)
qed (simp add: tagged_args_def)

lemma computed_compatible:
  assumes "compute_parameter_tag_from_args_list as = Some n" and "length tys \<le> 24" and "P_MAX \<notin> set tys"
  shows "is_parameter_tag_compatible (word_of_nat (tag_number tys)) (word_of_int n) \<longleftrightarrow> length tys = length (tagged_args as)"
proof -
  define ds where "ds = map (\<lambda>a. nat (parameter_tag a)) (tagged_args as)"
  have n: "n = int (digits ds)" "digits ds < 2 ^ 64" using computed_tag [OF assms(1)] by (auto simp: ds_def)
  have ds: "\<forall>d \<in> set ds. 0 < d \<and> d < 6"
  proof
    fix d
    assume "d \<in> set ds"
    then obtain a where "d = nat (parameter_tag a)" "parameter_tag a \<noteq> 0" by (auto simp: ds_def tagged_args_def)
    then show "0 < d \<and> d < 6" using parameter_tag_bounds [of a] by linarith
  qed
  have tys: "\<forall>d \<in> set (map tag_digit tys). 0 < d \<and> d < 6" using assms(3) by (auto intro!: tag_digit_bounds)
  have "length ds = length (tagged_args as)" by (simp add: ds_def)
  then show ?thesis
    using compatible_counts [OF tys ds _ n(2)] tag_number_fits [OF assms(2)] n(1) by (simp add: tag_number_digits)
qed

text \<open>
  C39. For a pattern without NUL and with at most 24 tags, \<^verbatim>\<open>route_dynamic\<close> accepts a handler that compiles
  exactly when the pattern has known tags only and as many of them as the handler has arguments with a
  tag, whatever their types: an unknown tag and another number of arguments are refused with their messages.
\<close>

theorem dynamic_rule_checks_number:
  assumes "NUL \<notin> set rule" and "length (route_params rule) \<le> 24"
    and "compute_parameter_tag_from_args_list as \<noteq> None" and "args_type as = Some tys"
  shows "wrap rule as = Some (
    if tokens rule = None then Inl (Tag_Error ''invalid parameter type'')
    else if length (route_params rule) \<noteq> length (tagged_args as)
    then Inl (Tag_Error (''route_dynamic: Handler type is mismatched with URL parameters: '' @ rule))
    else Inr tys)"
proof -
  obtain n where n: "compute_parameter_tag_from_args_list as = Some n" using assms(3) by auto
  have c: "c_str rule = rule" using assms(1) by (auto simp: c_str_def takeWhile_eq_all_conv)
  show ?thesis
  proof (cases "tokens rule")
    case None
    then show ?thesis using n assms c by (simp add: wrap_def runtime_tokens tag_of_def)
  next
    case (Some ts)
    have "P_MAX \<notin> set (params_of ts)" using Some params_of_tokens_at by (simp add: tokens_def)
    then show ?thesis using n assms c Some computed_compatible [OF n, of "params_of ts"]
      by (simp add: wrap_def runtime_tokens tag_of_def route_params_def)
  qed
qed

subsection \<open>A sample\<close>

lemma sample_tokens: "tokens ''/<int>'' = Some [Lit slash, Par P_INT]" "tokens ''/'' = Some [Lit slash]"
  by (simp_all add: tokens_def tokens_at.simps find_trait_def paramTraits_def compare_at_def)

lemma sample_reads: "match_route no_strtod ''/<int>'' ''/5'' = Some (push_int 5 no_params)"
proof -
  have "read_int ''5'' = Some (1, push_int 5 :: nat routing_params \<Rightarrow> nat routing_params)"
    by (simp add: read_int_def scan_int_def scan_sign_def isdigit_def isspace_def byte_of_def scan_digits_def
        digits_val_def digit_val_def signed_val_def)
  then show ?thesis by (simp add: match_route_def sample_tokens match_child_def new_param_node_def)
qed

text \<open>
  A handler with a string argument is accepted for the tag \<^verbatim>\<open><int>\<close>, and one with a \<^verbatim>\<open>float\<close>, which has
  no tag, for a pattern without tags; the request then reads outside an empty vector.
\<close>

theorem dynamic_rule_reads_outside:
  "wrap ''/<int>'' [C_string] = Some (Inr [String])
    \<and> (\<exists>ps. match_route no_strtod ''/<int>'' ''/5'' = Some ps \<and> handler_args ps [String] = None)
    \<and> wrap ''/'' [C_float] = Some (Inr [Double])
    \<and> (\<exists>ps. match_route no_strtod ''/'' ''/'' = Some ps \<and> handler_args ps [Double] = None)"
proof -
  have "is_parameter_tag_compatible 1 4"
    using computed_compatible [of "[C_string]" 4 "[P_INT]"] by (simp add: tagged_args_def)
  moreover have "is_parameter_tag_compatible 0 0" by (subst is_parameter_tag_compatible.simps) simp
  ultimately have "wrap ''/<int>'' [C_string] = Some (Inr [String])" "wrap ''/'' [C_float] = Some (Inr [Double])"
    by (simp_all add: sample_tokens wrap_def c_str_def args_type_def runtime_tokens tag_of_def eval_nat_numeral)
  moreover have "match_route no_strtod ''/'' ''/'' = Some no_params" by (simp add: match_route_def sample_tokens)
  ultimately show ?thesis by (simp add: sample_reads handler_args_def vector_at_def push_int_def no_params_def)
qed

theorem route_numbers_agree_witness:
  "\<exists>t. get_parameter_tag ''/<int>'' 0 = Inr t \<and> arguments t = Some [Int64]"
proof -
  have "\<exists>t. get_parameter_tag ''/<int>'' 0 = Inr t"
    by (simp add: get_parameter_tag_tokens tokens_def [symmetric] sample_tokens tag_of_def)
  then show ?thesis
    using route_numbers_agree [of "''/<int>''" 0 0 0] by (auto simp: route_params_def sample_tokens)
qed

theorem tagged_handler_gets_its_values_witness:
  "\<exists>t tys. get_parameter_tag ''/<int>'' 0 = Inr t \<and> arguments t = Some tys
    \<and> handler_args (push_int 5 no_params :: nat routing_params) tys \<noteq> None"
  using tagged_handler_gets_its_values [OF sample_reads] by (fastforce simp: route_params_def sample_tokens)

theorem dynamic_rule_checks_number_witness:
  "\<exists>e. wrap ''/<int>'' [C_request, C_int, C_uint] = Some (Inl e)"
  using dynamic_rule_checks_number [of "''/<int>''" "[C_request, C_int, C_uint]"]
  by (simp add: route_params_def sample_tokens tagged_args_def args_type_def)

end
