(* ===== verification/Crow_Dispatch.thy ===== *)
theory Crow_Dispatch
  imports Crow_Tags
begin

unbundle bit_operations_syntax

text \<open>
  Class \<^verbatim>\<open>crow::Router\<close> of \<^verbatim>\<open>src/include/crow_all.h\<close>, above the trie: HTTP methods and their names, rules with
  their method masks, blueprints, the registration of all rules when the router is validated, and the
  dispatch of a request. The lemmas show that a validated router without blueprints answers every request as
  a scan over its rules in the order of their registration would, with the answers 301, 404, 405 and 500 in the
  cases the code has for them, and that no handler of a tagged rule is called with an argument from outside
  the parameters.

  Rules and blueprints are values: the model has no aliasing between the owner of a rule and the tables that
  point to it. Blueprints carry an identity, which is their address. Handlers are parameters, functions from
  arguments, request and response to the response they leave and the exception they raise, if any.
  \<open>completions\<close> counts the calls of \<^verbatim>\<open>complete_request_handler_\<close>, which sends the response. Log output and the
  base directory of templates are left out.
\<close>

subsection \<open>Outcomes\<close>

datatype 'a outcome = Returns 'a | Throws exn | Hangs | Undefined

primrec obind :: "'a outcome \<Rightarrow> ('a \<Rightarrow> 'b outcome) \<Rightarrow> 'b outcome" where
  "obind (Returns x) f = f x"
| "obind (Throws e) f = Throws e"
| "obind Hangs f = Hangs"
| "obind Undefined f = Undefined"

primrec ofold :: "('a \<Rightarrow> 's \<Rightarrow> 's outcome) \<Rightarrow> 'a list \<Rightarrow> 's \<Rightarrow> 's outcome" where
  "ofold f [] s = Returns s"
| "ofold f (x # xs) s = obind (f x s) (ofold f xs)"

lemma obind_Returns_iff [simp]: "obind m f = Returns y \<longleftrightarrow> (\<exists>x. m = Returns x \<and> f x = Returns y)"
  by (cases m) auto

text \<open>An element of a vector whose index is not checked.\<close>

definition element :: "'a list \<Rightarrow> nat \<Rightarrow> 'a outcome" where
  "element xs i = (if i < length xs then Returns (xs ! i) else Undefined)"

definition outcome_of_add :: "(exn + Node) option \<Rightarrow> Node outcome" where
  "outcome_of_add r = (case r of None \<Rightarrow> Hangs | Some (Inl e) \<Rightarrow> Throws e | Some (Inr n) \<Rightarrow> Returns n)"

subsection \<open>HTTP methods\<close>

datatype HTTPMethod =
    Delete | Get | Head | Post | Put
  | Connect | Options | Trace
  | Patch | Purge
  | Copy | Lock | MkCol | Move | Propfind | Proppatch | Search | Unlock | Bind | Rebind | Unbind | Acl
  | Report | MkActivity | Checkout | Merge
  | MSearch | Notify | Subscribe | Unsubscribe
  | MkCalendar
  | Link | Unlink
  | Source
  | InternalMethodCount

definition http_methods :: "HTTPMethod list" where
  "http_methods =
     [Delete, Get, Head, Post, Put,
      Connect, Options, Trace,
      Patch, Purge,
      Copy, Lock, MkCol, Move, Propfind, Proppatch, Search, Unlock, Bind, Rebind, Unbind, Acl,
      Report, MkActivity, Checkout, Merge,
      MSearch, Notify, Subscribe, Unsubscribe,
      MkCalendar,
      Link, Unlink,
      Source]"

definition method_strings :: "string list" where
  "method_strings =
     [''DELETE'', ''GET'', ''HEAD'', ''POST'', ''PUT'',
      ''CONNECT'', ''OPTIONS'', ''TRACE'',
      ''PATCH'', ''PURGE'',
      ''COPY'', ''LOCK'', ''MKCOL'', ''MOVE'', ''PROPFIND'', ''PROPPATCH'', ''SEARCH'', ''UNLOCK'', ''BIND'', ''REBIND'',
      ''UNBIND'', ''ACL'',
      ''REPORT'', ''MKACTIVITY'', ''CHECKOUT'', ''MERGE'',
      ''M-SEARCH'', ''NOTIFY'', ''SUBSCRIBE'', ''UNSUBSCRIBE'',
      ''MKCALENDAR'',
      ''LINK'', ''UNLINK'',
      ''SOURCE'']"

text \<open>\<^verbatim>\<open>static_cast\<close> in both directions\<close>

definition method_number :: "HTTPMethod \<Rightarrow> nat" where
  "method_number m = length (takeWhile (\<lambda>x. x \<noteq> m) http_methods)"

definition method_at :: "nat \<Rightarrow> HTTPMethod" where
  "method_at i = (if i < length http_methods then http_methods ! i else InternalMethodCount)"

definition method_name :: "HTTPMethod \<Rightarrow> string" where
  "method_name m = (if method_number m < length http_methods then method_strings ! method_number m else ''invalid'')"

definition method_table :: "(string \<times> nat \<times> HTTPMethod) list" where
  "method_table =
     [(''GET'', 3, Get), (''DELETE'', 6, Delete), (''HEAD'', 4, Head), (''POST'', 4, Post), (''PUT'', 3, Put),
      (''OPTIONS'', 7, Options), (''CONNECT'', 7, Connect), (''TRACE'', 5, Trace),
      (''PATCH'', 5, Patch), (''PURGE'', 5, Purge), (''COPY'', 4, Copy), (''LOCK'', 4, Lock), (''MKCOL'', 5, MkCol),
      (''MOVE'', 4, Move), (''PROPFIND'', 8, Propfind), (''PROPPATCH'', 9, Proppatch), (''SEARCH'', 6, Search),
      (''UNLOCK'', 6, Unlock), (''BIND'', 4, Bind), (''REBIND'', 6, Rebind), (''UNBIND'', 6, Unbind), (''ACL'', 3, Acl),
      (''REPORT'', 6, Report), (''MKACTIVITY'', 10, MkActivity), (''CHECKOUT'', 8, Checkout), (''MERGE'', 5, Merge),
      (''MSEARCH'', 7, MSearch), (''NOTIFY'', 6, Notify), (''SUBSCRIBE'', 9, Subscribe),
      (''UNSUBSCRIBE'', 11, Unsubscribe),
      (''MKCALENDAR'', 10, MkCalendar),
      (''LINK'', 4, Link), (''UNLINK'', 6, Unlink),
      (''SOURCE'', 6, Source)]"

definition method_from_string :: "string \<Rightarrow> exn + HTTPMethod" where
  "method_from_string str =
     (case List.find (\<lambda>(name, n, m). is_equ_p str name n) method_table of
        Some (name, n, m) \<Rightarrow> Inr m
      | None \<Rightarrow> Inl (Runtime_Error ''invalid http method''))"

lemma is_equ_p_length [simp]: "is_equ_p a b (length b) \<longleftrightarrow> a = b"
proof (induction b arbitrary: a)
  case Nil
  then show ?case by (subst is_equ_p.simps) simp
next
  case (Cons c b)
  then show ?case by (subst is_equ_p.simps) (cases a; simp)
qed

lemma method_from_string_eq:
  "method_from_string str =
     (case List.find (\<lambda>(name, n, m). str = name) method_table of
        Some (name, n, m) \<Rightarrow> Inr m
      | None \<Rightarrow> Inl (Runtime_Error ''invalid http method''))"
proof -
  have "\<forall>(name, n, m) \<in> set method_table. n = length name" by (simp add: method_table_def)
  then have "List.find (\<lambda>(name, n, m). is_equ_p str name n) method_table = List.find (\<lambda>(name, n, m). str = name) method_table"
    by (intro find_cong) auto
  then show ?thesis by (simp add: method_from_string_def)
qed

text \<open>
  The names of the methods are read back as the methods, except \<^verbatim>\<open>M-SEARCH\<close>, which is refused, and no other
  text is accepted than these names and \<^verbatim>\<open>MSEARCH\<close>.
\<close>

theorem method_name_roundtrip:
  "(\<forall>m. method_from_string (method_name m)
      = (if m = MSearch \<or> m = InternalMethodCount then Inl (Runtime_Error ''invalid http method'') else Inr m))
    \<and> (\<forall>str m. method_from_string str = Inr m \<longrightarrow> str = (if m = MSearch then ''MSEARCH'' else method_name m))"
proof
  show "\<forall>m. method_from_string (method_name m)
      = (if m = MSearch \<or> m = InternalMethodCount then Inl (Runtime_Error ''invalid http method'') else Inr m)"
  proof
    fix m
    show "method_from_string (method_name m)
      = (if m = MSearch \<or> m = InternalMethodCount then Inl (Runtime_Error ''invalid http method'') else Inr m)"
      by (cases m) (simp_all add: method_from_string_eq method_table_def method_name_def method_number_def http_methods_def
          method_strings_def)
  qed
  show "\<forall>str m. method_from_string str = Inr m \<longrightarrow> str = (if m = MSearch then ''MSEARCH'' else method_name m)"
  proof (intro allI impI)
    fix str m
    assume "method_from_string str = Inr m"
    then obtain n where "(str, n, m) \<in> set method_table"
      unfolding method_from_string_eq by (auto split: option.splits dest!: find_SomeD)
    then show "str = (if m = MSearch then ''MSEARCH'' else method_name m)"
      by (auto simp: method_table_def method_name_def method_number_def http_methods_def method_strings_def)
  qed
qed

theorem method_name_roundtrip_witness:
  "method_from_string (method_name Get) = Inr Get \<and> method_name Get = ''GET''"
proof -
  have get: "method_from_string (method_name Get) = Inr Get" using method_name_roundtrip by simp
  have "method_from_string ''GET'' = Inr Get" by (simp add: method_from_string_eq method_table_def)
  then have "''GET'' = (if Get = MSearch then ''MSEARCH'' else method_name Get)" using method_name_roundtrip by blast
  with get show ?thesis by simp
qed

subsection \<open>Requests and responses\<close>

text \<open>
  Header names are compared without regard to case (\<^verbatim>\<open>ci_key_eq\<close>); of several values \<^verbatim>\<open>find\<close> gives one, here
  the first.
\<close>

definition upper :: "char \<Rightarrow> char" where
  "upper c = (if 97 \<le> byte_of c \<and> byte_of c \<le> 122 then char_of (byte_of c - 32) else c)"

definition iequals :: "string \<Rightarrow> string \<Rightarrow> bool" where
  "iequals l r = (map upper l = map upper r)"

definition get_header_value :: "(string \<times> string) list \<Rightarrow> string \<Rightarrow> string" where
  "get_header_value headers nm = (case List.find (\<lambda>(k, v). iequals k nm) headers of Some (k, v) \<Rightarrow> v | None \<Rightarrow> [])"

record request =
  req_method :: HTTPMethod
  req_url :: string
  req_headers :: "(string \<times> string) list"
  req_body :: string

record response =
  res_code :: int
  res_body :: string
  res_headers :: "(string \<times> string) list"
  skip_body :: bool
  manual_length_header :: bool
  completed :: bool
  completions :: nat

definition set_header :: "string \<Rightarrow> string \<Rightarrow> response \<Rightarrow> response" where
  "set_header nm v res = res\<lparr>res_headers := filter (\<lambda>(k, _). \<not> iequals k nm) (res_headers res) @ [(nm, v)]\<rparr>"

definition add_header :: "string \<Rightarrow> string \<Rightarrow> response \<Rightarrow> response" where
  "add_header nm v res = res\<lparr>res_headers := res_headers res @ [(nm, v)]\<rparr>"

text \<open>\<^verbatim>\<open>response(code)\<close>, and the assignment of such a response, which keeps the flags and the handlers of the target\<close>

definition response_of_code :: "int \<Rightarrow> response" where
  "response_of_code c = \<lparr>res_code = c, res_body = [], res_headers = [], skip_body = False, manual_length_header = False,
     completed = False, completions = 0\<rparr>"

definition response_assign :: "response \<Rightarrow> response \<Rightarrow> response" where
  "response_assign res r = res\<lparr>res_body := res_body r, res_code := res_code r, res_headers := res_headers r,
     completed := completed r\<rparr>"

definition response_end :: "response \<Rightarrow> response" where
  "response_end res =
     (if \<not> completed res then
        let res = res\<lparr>completed := True\<rparr>;
            res = (if skip_body res
                   then (set_header ''Content-Length'' (dec_nat (length (res_body res))) res)
                          \<lparr>res_body := [], manual_length_header := True\<rparr>
                   else res)
        in res\<lparr>completions := completions res + 1\<rparr>
      else res)"

text \<open>\<^verbatim>\<open>res = response(code); res.end();\<close>\<close>

abbreviation answer_code :: "int \<Rightarrow> response \<Rightarrow> response" where
  "answer_code c res \<equiv> response_end (response_assign res (response_of_code c))"

subsection \<open>Rules\<close>

text \<open>
  What a rule does: nothing yet, call a handler with arguments of some types, or accept a WebSocket. A handler
  gives the response as it leaves it and the exception it raises.
\<close>

datatype 'd handling =
    No_Handler
  | Handler "arg_type list" "'d arg list \<Rightarrow> request \<Rightarrow> response \<Rightarrow> response \<times> exn option"
  | Web_Socket

record 'd rule =
  rule_methods :: "32 word"
  rule_url :: string
  rule_name :: string
  rule_handling :: "'d handling"
  rule_to_upgrade :: "string option"

definition base_rule :: "'d handling \<Rightarrow> string \<Rightarrow> 'd rule" where
  "base_rule h url = \<lparr>rule_methods = push_bit (method_number Get) 1, rule_url = url, rule_name = [], rule_handling = h,
     rule_to_upgrade = None\<rparr>"

definition upgrade :: "'d rule \<Rightarrow> 'd rule option" where
  "upgrade r = map_option (base_rule Web_Socket) (rule_to_upgrade r)"

text \<open>
  \<^verbatim>\<open>RuleParameterTraits\<close>. Shifting an \<^verbatim>\<open>int\<close> by 32 or more is undefined.
\<close>

definition websocket :: "'d rule \<Rightarrow> 'd rule" where
  "websocket r = r\<lparr>rule_to_upgrade := Some (rule_url r)\<rparr>"

definition set_name :: "string \<Rightarrow> 'd rule \<Rightarrow> 'd rule" where
  "set_name n r = r\<lparr>rule_name := n\<rparr>"

definition method_bit :: "HTTPMethod \<Rightarrow> 32 word outcome" where
  "method_bit m = (if method_number m < 32 then Returns (push_bit (method_number m) 1) else Undefined)"

fun methods :: "HTTPMethod list \<Rightarrow> 'd rule \<Rightarrow> 'd rule outcome" where
  "methods [] r = Returns r"
| "methods [m] r = obind (method_bit m) (\<lambda>b. Returns (r\<lparr>rule_methods := b\<rparr>))"
| "methods (m # ms) r =
     obind (methods ms r) (\<lambda>r. obind (method_bit m) (\<lambda>b. Returns (r\<lparr>rule_methods := rule_methods r OR b\<rparr>)))"

function foreach_loop :: "32 word \<Rightarrow> nat \<Rightarrow> 32 word \<Rightarrow> nat list" where
  "foreach_loop ms method b =
     (if method < method_number InternalMethodCount then
        (if ms AND b \<noteq> 0 then [method] else [])
          @ foreach_loop ms (method + 1) (push_bit 1 b)
      else [])"
  by pat_completeness auto

termination
  by (relation "measure (\<lambda>(_, method, _). method_number InternalMethodCount - method)") auto

declare foreach_loop.simps [simp del]

text \<open>The numbers of the methods for which \<^verbatim>\<open>foreach_method\<close> calls its function, in this order\<close>

definition foreach_method :: "'d rule \<Rightarrow> nat list" where
  "foreach_method r = foreach_loop (rule_methods r) 0 1"

definition rule_validate :: "'d rule \<Rightarrow> unit outcome" where
  "rule_validate r =
     (case rule_handling r of
        No_Handler \<Rightarrow> Throws (Runtime_Error (rule_name r @ (if rule_name r \<noteq> [] then '': '' else []) @ ''no handler for url '' @ rule_url r))
      | _ \<Rightarrow> Returns ())"

definition rule_handle :: "'d rule \<Rightarrow> request \<Rightarrow> response \<Rightarrow> 'd routing_params \<Rightarrow> (response \<times> exn option) outcome" where
  "rule_handle r req res ps =
     (case rule_handling r of
        No_Handler \<Rightarrow> Returns (res, Some (Runtime_Error ''bad_function_call''))
      | Handler tys f \<Rightarrow> (case handler_args ps tys of None \<Rightarrow> Undefined | Some args \<Rightarrow> Returns (f args req res))
      | Web_Socket \<Rightarrow> Returns (answer_code 404 res, None))"

text \<open>Upgrading a connection is a parameter: it takes the socket and leaves the response alone.\<close>

definition rule_handle_upgrade :: "'d rule \<Rightarrow> (request \<Rightarrow> exn option) \<Rightarrow> request \<Rightarrow> response \<Rightarrow> response \<times> exn option" where
  "rule_handle_upgrade r connect req res =
     (case rule_handling r of
        Web_Socket \<Rightarrow> (res, connect req)
      | _ \<Rightarrow> (answer_code 404 res, None))"

subsection \<open>Blueprints\<close>

text \<open>A catch-all rule is its handler, if it has one.\<close>

type_synonym catchall = "(request \<Rightarrow> response \<Rightarrow> response \<times> exn option) option"

datatype 'd blueprint =
  Blueprint (bp_id: nat) (prefix: string) (static_dir: string) (templates_dir: string) (bp_rules: "'d rule list")
    (bp_catchall: catchall) (bp_children: "'d blueprint list")

fun blueprint_new_rule :: "'d rule \<Rightarrow> 'd blueprint \<Rightarrow> 'd blueprint" where
  "blueprint_new_rule r (Blueprint i p sd td rs c bps) =
     Blueprint i p sd td (rs @ [r\<lparr>rule_url := slash # p @ rule_url r\<rparr>]) c bps"

text \<open>
  \<^verbatim>\<open>apply_blueprint\<close>, which a blueprint calls for itself: below, \<open>apply_blueprint p sd td\<close> is the call on the
  blueprint with these directories. Its recursive calls are calls on the same blueprint.
\<close>

fun apply_blueprint :: "string \<Rightarrow> string \<Rightarrow> string \<Rightarrow> 'd blueprint \<Rightarrow> 'd blueprint" where
  "apply_blueprint p sd td (Blueprint i p' sd' td' rs c bps) =
     Blueprint i (p @ slash # p') (sd @ slash # sd') (td @ slash # td')
       (map (\<lambda>r. r\<lparr>rule_url := slash # p @ rule_url r\<rparr>) rs) c (map (apply_blueprint p sd td) bps)"

fun blueprint_register :: "'d blueprint \<Rightarrow> 'd blueprint \<Rightarrow> 'd blueprint outcome" where
  "blueprint_register bp (Blueprint i p sd td rs c bps) =
     (if bps = [] \<or> bp_id bp \<notin> set (map bp_id bps)
      then Returns (Blueprint i p sd td rs c (bps @ [apply_blueprint p sd td bp]))
      else Throws (Runtime_Error (''blueprint \"'' @ prefix bp @ ''\" already exists in blueprint \"'' @ p @ ''\"'')))"

subsection \<open>The router\<close>

record 'd per_method =
  rules :: "'d rule option list"
  trie :: Node

record 'd router =
  per_methods :: "'d per_method list"
  all_rules :: "'d rule list"
  catchall_rule :: catchall
  blueprints :: "'d blueprint list"

definition per_method_new :: "'d per_method" where
  "per_method_new = \<lparr>rules = [None, None], trie = fresh_node\<rparr>"

definition router_new :: "'d router" where
  "router_new = \<lparr>per_methods = replicate (method_number InternalMethodCount) per_method_new, all_rules = [],
     catchall_rule = None, blueprints = []\<rparr>"

definition router_new_rule :: "'d rule \<Rightarrow> 'd router \<Rightarrow> 'd router" where
  "router_new_rule r rt = rt\<lparr>all_rules := all_rules rt @ [r]\<rparr>"

definition router_register :: "'d blueprint \<Rightarrow> 'd router \<Rightarrow> 'd router outcome" where
  "router_register bp rt =
     (if bp_id bp \<notin> set (map bp_id (blueprints rt)) then Returns (rt\<lparr>blueprints := blueprints rt @ [bp]\<rparr>)
      else Throws (Runtime_Error (''blueprint \"'' @ prefix bp @ ''\" already exists in router'')))"

definition RULE_SPECIAL_REDIRECT_SLASH :: nat where "RULE_SPECIAL_REDIRECT_SLASH = 1"

definition has_trailing_slash :: "string \<Rightarrow> bool" where
  "has_trailing_slash url = (length url > 1 \<and> last url = slash)"

text \<open>
  The lambda of \<^verbatim>\<open>internal_add_rule_object\<close> for one method. The length of the prefix is looked up in the list the
  caller passes for the rule, and in the list of the router for the redirection.
\<close>

definition prefix_length :: "16 word \<Rightarrow> 'd blueprint list \<Rightarrow> nat outcome" where
  "prefix_length BP_index bps =
     (if BP_index \<noteq> INVALID_BP_ID
      then obind (element bps (unat BP_index)) (\<lambda>bp. Returns (length (prefix bp)))
      else Returns 0)"

definition add_rule_method ::
    "string \<Rightarrow> 'd rule \<Rightarrow> 16 word \<Rightarrow> 'd blueprint list \<Rightarrow> 'd blueprint list \<Rightarrow> 'd per_method \<Rightarrow> 'd per_method outcome" where
  "add_rule_method url r BP_index bps router_bps pm =
     (let pm = pm\<lparr>rules := rules pm @ [Some r]\<rparr>
      in obind (prefix_length BP_index bps) (\<lambda>n.
         obind (outcome_of_add (trie_add url (word_of_nat (length (rules pm) - 1)) n BP_index (trie pm))) (\<lambda>t.
         let pm = pm\<lparr>trie := t\<rparr>
         in if has_trailing_slash url then
              obind (prefix_length BP_index router_bps) (\<lambda>n.
              obind (outcome_of_add (trie_add (butlast url) (word_of_nat RULE_SPECIAL_REDIRECT_SLASH) n BP_index (trie pm)))
                (\<lambda>t. Returns (pm\<lparr>trie := t\<rparr>)))
            else Returns pm)))"

definition update_method :: "('d per_method \<Rightarrow> 'd per_method outcome) \<Rightarrow> nat \<Rightarrow> 'd per_method list \<Rightarrow> 'd per_method list outcome" where
  "update_method f m pms = obind (element pms m) (\<lambda>pm. obind (f pm) (\<lambda>pm. Returns (pms[m := pm])))"

definition internal_add_rule_object ::
    "string \<Rightarrow> 'd rule \<Rightarrow> 16 word \<Rightarrow> 'd blueprint list \<Rightarrow> 'd blueprint list \<Rightarrow> 'd per_method list \<Rightarrow> 'd per_method list outcome" where
  "internal_add_rule_object url r BP_index bps router_bps pms =
     ofold (update_method (add_rule_method url r BP_index bps router_bps)) (foreach_method r) pms"

text \<open>The body of the loops over rules: the rule to upgrade takes the place of the rule.\<close>

definition add_rule ::
    "16 word \<Rightarrow> 'd blueprint list \<Rightarrow> 'd blueprint list \<Rightarrow> 'd rule \<Rightarrow> 'd per_method list \<Rightarrow> 'd per_method list outcome" where
  "add_rule BP_index bps router_bps r pms =
     (let r = (case upgrade r of Some u \<Rightarrow> u | None \<Rightarrow> r)
      in obind (rule_validate r) (\<lambda>_. internal_add_rule_object (rule_url r) r BP_index bps router_bps pms))"

text \<open>Methods are appended unless they are there already, except \<^verbatim>\<open>Get\<close> for a static directory.\<close>

fun get_recursive_child_methods :: "'d blueprint \<Rightarrow> nat list \<Rightarrow> nat list" where
  "get_recursive_child_methods (Blueprint i p sd td rs c bps) ms =
     (let ms = (if sd = [] \<and> rs = [] then fold get_recursive_child_methods bps ms
                else if sd \<noteq> [] then ms @ [method_number Get] else ms)
      in fold (\<lambda>m ms. if m \<in> set ms then ms else ms @ [m]) (concat (map foreach_method rs)) ms)"

text \<open>
  \<^verbatim>\<open>validate_bp\<close>. In the loop over the methods of an empty blueprint the name \<^verbatim>\<open>i\<close> is the number of the method,
  which is passed as the index of the blueprint.
\<close>

definition validate_empty_bp :: "'d blueprint \<Rightarrow> 'd per_method list \<Rightarrow> 'd per_method list outcome" where
  "validate_empty_bp bp pms =
     (if static_dir bp = [] \<and> bp_rules bp = [] then
        ofold (\<lambda>i. update_method (\<lambda>pm.
            obind (outcome_of_add (trie_add (prefix bp) 0 (length (prefix bp)) (word_of_nat i) (trie pm)))
              (\<lambda>t. Returns (pm\<lparr>trie := t\<rparr>))) i)
          (get_recursive_child_methods bp []) pms
      else Returns pms)"

function validate_bp :: "'d blueprint list \<Rightarrow> 'd blueprint list \<Rightarrow> nat \<Rightarrow> 'd blueprint list \<Rightarrow> 'd per_method list
    \<Rightarrow> 'd per_method list outcome" where
  "validate_bp router_bps bps i [] pms = Returns pms"
| "validate_bp router_bps bps i (bp # rest) pms =
     obind (validate_empty_bp bp pms) (\<lambda>pms.
     obind (ofold (add_rule (word_of_nat i) bps router_bps) (bp_rules bp) pms) (\<lambda>pms.
     obind (validate_bp router_bps (bp_children bp) 0 (bp_children bp) pms)
       (validate_bp router_bps bps (i + 1) rest)))"
  by pat_completeness auto

termination
proof (relation "measure (\<lambda>(_, _, _, bps, _). size_list size bps)")
  show "((router_bps, bp_children bp, 0, bp_children bp, pms'), router_bps, bps, i, bp # rest, pms)
      \<in> measure (\<lambda>(_, _, _, bps, _). size_list size bps)"
    for router_bps bps :: "'d blueprint list" and i and bp :: "'d blueprint" and rest pms pms'
    by (cases bp) simp
qed simp_all

text \<open>The vectors that own the rules hold the upgraded rules afterwards.\<close>

definition upgraded :: "'d rule \<Rightarrow> 'd rule" where
  "upgraded r = (case upgrade r of Some u \<Rightarrow> u | None \<Rightarrow> r)"

fun upgraded_bp :: "'d blueprint \<Rightarrow> 'd blueprint" where
  "upgraded_bp (Blueprint i p sd td rs c bps) = Blueprint i p sd td (map upgraded rs) c (map upgraded_bp bps)"

definition outcome_of_sum :: "exn + 'a \<Rightarrow> 'a outcome" where
  "outcome_of_sum r = (case r of Inl e \<Rightarrow> Throws e | Inr x \<Rightarrow> Returns x)"

definition validate_trie :: "'d per_method \<Rightarrow> 'd per_method list \<Rightarrow> 'd per_method list outcome" where
  "validate_trie pm pms = obind (outcome_of_sum (Crow_Router.validate (trie pm))) (\<lambda>t. Returns (pms @ [pm\<lparr>trie := t\<rparr>]))"

definition router_validate :: "'d router \<Rightarrow> 'd router outcome" where
  "router_validate rt =
     obind (validate_bp (blueprints rt) (blueprints rt) 0 (blueprints rt) (per_methods rt)) (\<lambda>pms.
     obind (ofold (add_rule INVALID_BP_ID (blueprints rt) (blueprints rt)) (all_rules rt) pms) (\<lambda>pms.
     obind (ofold validate_trie pms []) (\<lambda>pms.
     Returns (rt\<lparr>per_methods := pms, all_rules := map upgraded (all_rules rt),
       blueprints := map upgraded_bp (blueprints rt)\<rparr>))))"

subsection \<open>Dispatch\<close>

text \<open>
  \<^verbatim>\<open>get_found_bp\<close>. \<open>bps\<close> is the list of the blueprint found last; the topmost is the list of the router.
\<close>

definition verify_prefix :: "16 word list \<Rightarrow> nat \<Rightarrow> 'd blueprint list \<Rightarrow> 'd blueprint list \<Rightarrow> bool outcome" where
  "verify_prefix bp_i index bps found_bps =
     (if index > 0 \<and> unat (bp_i ! index) < length bps then
        obind (element found_bps (index - 1)) (\<lambda>parent.
        Returns (take (length (prefix parent) + 1) (prefix (bps ! unat (bp_i ! index))) = prefix parent @ [slash]))
      else Returns False)"

function get_found_bp :: "'d blueprint list \<Rightarrow> 16 word list \<Rightarrow> 'd blueprint list \<Rightarrow> 'd blueprint list \<Rightarrow> nat
    \<Rightarrow> 'd blueprint list outcome" where
  "get_found_bp router_bps bp_i bps found_bps index =
     (if index < length bp_i then
        obind (verify_prefix bp_i index bps found_bps) (\<lambda>ok.
        obind (if ok then Returns (found_bps @ [bps ! unat (bp_i ! index)])
               else if length found_bps < 2 then
                 obind (element router_bps (unat (bp_i ! index))) (\<lambda>bp. Returns [bp])
               else let found_bps = butlast found_bps in
                 obind (element (bp_children (last found_bps)) (unat (bp_i ! index))) (\<lambda>bp. Returns (found_bps @ [bp])))
          (\<lambda>found_bps. get_found_bp router_bps bp_i (bp_children (last found_bps)) found_bps (index + 1)))
      else Returns found_bps)"
  by pat_completeness auto

termination
  by (relation "measure (\<lambda>(_, bp_i, _, _, index). length bp_i - index)") auto

declare get_found_bp.simps [simp del]

text \<open>
  \<^verbatim>\<open>get_error\<close>: the catch-all rule of the innermost blueprint that has one, the first blueprint excepted, or
  that of the router. An exception of the handler is not caught.
\<close>

definition call_catchall :: "(request \<Rightarrow> response \<Rightarrow> response \<times> exn option) \<Rightarrow> request \<Rightarrow> response \<Rightarrow> response outcome" where
  "call_catchall h req res = (case h req res of (res, None) \<Rightarrow> Returns res | (res, Some e) \<Rightarrow> Throws e)"

definition get_error :: "'d router \<Rightarrow> int \<Rightarrow> 16 word list \<Rightarrow> request \<Rightarrow> response \<Rightarrow> response outcome" where
  "get_error rt c found_BP req res =
     (let res = res\<lparr>res_code := c\<rparr>
      in obind (get_found_bp (blueprints rt) found_BP (blueprints rt) [] 0) (\<lambda>bps_found.
         case List.find (\<lambda>bp. bp_catchall bp \<noteq> None) (rev (drop 1 bps_found)) of
           Some bp \<Rightarrow> call_catchall (the (bp_catchall bp)) req res
         | None \<Rightarrow> (case catchall_rule rt of Some h \<Rightarrow> call_catchall h req res | None \<Rightarrow> Returns res)))"

text \<open>The names of the methods that a condition allows, in order, each with a comma and a space\<close>

definition allowed :: "('d per_method \<Rightarrow> bool) \<Rightarrow> 'd per_method list \<Rightarrow> string" where
  "allowed P pms = concat (map (\<lambda>(i, pm). if P pm then method_name (method_at i) @ '', '' else []) (enumerate 0 pms))"

definition drop_last2 :: "string \<Rightarrow> string" where
  "drop_last2 s = take (length s - 2) s"

definition redirect_response :: "request \<Rightarrow> response \<Rightarrow> response" where
  "redirect_response req res =
     (let res = response_assign res (response_of_code 301);
          host = get_header_value (req_headers req) ''Host'';
          res = (if host = [] then add_header ''Location'' (req_url req @ [slash]) res
                 else add_header ''Location'' (''http://'' @ host @ req_url req @ [slash]) res)
      in response_end res)"

definition found_rule :: "(string \<Rightarrow> 'd \<times> nat \<times> bool) \<Rightarrow> string \<Rightarrow> 'd per_method \<Rightarrow> bool" where
  "found_rule strtod url pm = (fst (trie_find strtod url (trie pm)) \<noteq> 0)"

definition options_response :: "string \<Rightarrow> response \<Rightarrow> response" where
  "options_response allow res =
     response_end (set_header ''Allow'' (drop_last2 allow) (response_assign res (response_of_code 204)))"

text \<open>The end of \<^verbatim>\<open>handle\<close>: an exception of the handler becomes the answer 500.\<close>

definition answer_exception :: "response \<times> exn option \<Rightarrow> response" where
  "answer_exception r = (case r of (res, None) \<Rightarrow> res | (res, Some e) \<Rightarrow> answer_code 500 res)"

definition router_handle :: "(string \<Rightarrow> 'd \<times> nat \<times> bool) \<Rightarrow> 'd router \<Rightarrow> request \<Rightarrow> response \<Rightarrow> response outcome" where
  "router_handle strtod rt req res =
     (let m = req_method req; pms = per_methods rt in
      if method_number m \<ge> method_number InternalMethodCount then Returns res
      else if m = Options then
        (if req_url req = ''/*'' then
           Returns (options_response (''OPTIONS, HEAD, '' @ allowed (\<lambda>pm. \<not> is_empty (trie pm)) pms) res)
         else
           let allow = ''OPTIONS, HEAD, '' @ allowed (found_rule strtod (req_url req)) pms in
           if allow \<noteq> ''OPTIONS, HEAD, '' then Returns (options_response allow res)
           else Returns (answer_code 404 res))
      else
        let method_actual = (if m = Head then Get else m);
            res = (if m = Head then res\<lparr>skip_body := True\<rparr> else res)
        in obind (element pms (method_number method_actual)) (\<lambda>pm.
           case trie_find strtod (req_url req) (trie pm) of (idx, found_BP, ps) \<Rightarrow>
           if idx = 0 then
             obind (get_error rt (if list_ex (found_rule strtod (req_url req)) pms then 405 else 404) found_BP req res)
               (\<lambda>res. Returns (response_end res))
           else if unat idx \<ge> length (rules pm) then Throws (Runtime_Error ''Trie internal structure corrupted!'')
           else if unat idx = RULE_SPECIAL_REDIRECT_SLASH then Returns (redirect_response req res)
           else (case rules pm ! unat idx of
                   None \<Rightarrow> Undefined
                 | Some r \<Rightarrow> obind (rule_handle r req res ps) (\<lambda>r. Returns (answer_exception r)))))"

definition router_handle_upgrade ::
    "(string \<Rightarrow> 'd \<times> nat \<times> bool) \<Rightarrow> (request \<Rightarrow> exn option) \<Rightarrow> 'd router \<Rightarrow> request \<Rightarrow> response \<Rightarrow> response outcome" where
  "router_handle_upgrade strtod connect rt req res =
     (let m = req_method req; pms = per_methods rt in
      if method_number m \<ge> method_number InternalMethodCount then Returns res
      else obind (element pms (method_number m)) (\<lambda>pm.
        let idx = fst (trie_find strtod (req_url req) (trie pm)) in
        if idx = 0 then
          Returns (answer_code (if list_ex (found_rule strtod (req_url req)) pms then 405 else 404) res)
        else if unat idx \<ge> length (rules pm) then Throws (Runtime_Error ''Trie internal structure corrupted!'')
        else if unat idx = RULE_SPECIAL_REDIRECT_SLASH then Returns (redirect_response req res)
        else (case rules pm ! unat idx of
                None \<Rightarrow> Undefined
              | Some r \<Rightarrow> Returns (answer_exception (rule_handle_upgrade r connect req res)))))"

subsection \<open>Method masks\<close>

lemma method_number_count [simp]: "method_number InternalMethodCount = 34"
  by (simp add: method_number_def http_methods_def)

lemma method_number_less: "method_number m \<le> 34" "method_number m < 34 \<longleftrightarrow> m \<noteq> InternalMethodCount"
  by (cases m; simp add: method_number_def http_methods_def)+

lemma method_number_inject [simp]: "method_number m = method_number n \<longleftrightarrow> m = n"
proof -
  have "method_at (method_number m) = m" for m
    by (cases m) (simp_all add: method_at_def method_number_def http_methods_def)
  then show ?thesis by metis
qed

lemma foreach_loop_filter:
  "foreach_loop ms i (push_bit i 1) = filter (\<lambda>n. bit ms n) [i..<34]"
proof (induction "34 - i" arbitrary: i)
  case 0
  then show ?case by (subst foreach_loop.simps) simp
next
  case (Suc n)
  have "ms AND push_bit i 1 \<noteq> 0 \<longleftrightarrow> bit ms i"
    by (simp add: push_bit_of_1 and_exp_eq_0_iff_not_bit)
  moreover have "push_bit 1 (push_bit i (1 :: 32 word)) = push_bit (Suc i) 1" by (simp add: push_bit_push_bit)
  moreover have "n = 34 - Suc i" "i < 34" using Suc.hyps(2) by auto
  ultimately show ?case using Suc.hyps(1) [of "Suc i"] by (subst foreach_loop.simps) (simp add: upt_conv_Cons mult.commute)
qed

lemma foreach_method_filter: "foreach_method r = filter (\<lambda>n. bit (rule_methods r) n) [0..<34]"
  using foreach_loop_filter [of "rule_methods r" 0] by (simp add: foreach_method_def)

lemma foreach_method_less: "m \<in> set (foreach_method r) \<Longrightarrow> m < 32"
  using bit_imp_le_length by (fastforce simp: foreach_method_filter)

lemma foreach_method_distinct: "distinct (foreach_method r)"
  by (simp add: foreach_method_filter)

lemma method_bit_cases:
  "method_bit m = (if m \<in> {Unlink, Source, InternalMethodCount} then Undefined else Returns (push_bit (method_number m) 1))"
  by (cases m) (simp_all add: method_bit_def method_number_def http_methods_def)

lemma methods_mask:
  "ms \<noteq> [] \<Longrightarrow> methods ms r =
     (if set ms \<inter> {Unlink, Source, InternalMethodCount} \<noteq> {} then Undefined
      else Returns (r\<lparr>rule_methods := foldr (\<lambda>m w. w OR push_bit (method_number m) 1) ms 0\<rparr>))"
proof (induction ms r rule: methods.induct)
  case (2 m r)
  then show ?case by (simp add: method_bit_cases)
next
  case (3 m m' ms r)
  then show ?case by (auto simp: method_bit_cases)
qed simp

lemma bit_mask_iff:
  "set ms \<inter> {Unlink, Source, InternalMethodCount} = {} \<Longrightarrow>
    bit (foldr (\<lambda>m w. w OR push_bit (method_number m) 1) ms (0 :: 32 word)) n \<longleftrightarrow> n \<in> method_number ` set ms"
proof (induction ms)
  case (Cons m ms)
  have "method_number m < 32" using Cons.prems method_bit_cases [of m] by (auto simp: method_bit_def split: if_splits)
  then show ?case using Cons by (auto simp: bit_or_iff bit_exp_iff)
qed simp

text \<open>
  C36. Setting the methods of a rule is undefined exactly when \<^verbatim>\<open>UNLINK\<close> or \<^verbatim>\<open>SOURCE\<close> is among them, whose numbers
  are the width of \<^verbatim>\<open>int\<close> and more; otherwise the rule is registered for exactly the methods given, each once
  and in the order of their numbers.
\<close>

theorem methods_registered:
  assumes "ms \<noteq> []" and "InternalMethodCount \<notin> set ms"
  shows "(methods ms r = Undefined \<longleftrightarrow> Unlink \<in> set ms \<or> Source \<in> set ms)
    \<and> (Unlink \<in> set ms \<or> Source \<in> set ms \<or>
       (\<exists>r'. methods ms r = Returns r' \<and> set (foreach_method r') = method_number ` set ms
          \<and> sorted (foreach_method r') \<and> distinct (foreach_method r') \<and> rule_url r' = rule_url r))"
proof (cases "Unlink \<in> set ms \<or> Source \<in> set ms")
  case True
  then show ?thesis using assms by (auto simp: methods_mask)
next
  case False
  define r' where "r' = r\<lparr>rule_methods := foldr (\<lambda>m w. w OR push_bit (method_number m) 1) ms 0\<rparr>"
  have ms: "set ms \<inter> {Unlink, Source, InternalMethodCount} = {}" using False assms(2) by auto
  have "set (foreach_method r') = method_number ` set ms"
    using bit_mask_iff [OF ms] method_number_less(2) assms(2)
    by (auto simp: foreach_method_filter r'_def simp del: push_bit_of_1)
  moreover have "methods ms r = Returns r'" using methods_mask [OF assms(1)] ms by (simp add: r'_def)
  moreover have "sorted (foreach_method r')" by (simp add: foreach_method_filter sorted_wrt_filter)
  ultimately show ?thesis using False foreach_method_distinct [of r'] by (auto simp: r'_def)
qed

theorem methods_registered_witness:
  "methods [Source] (base_rule No_Handler ''/'') = Undefined"
  using methods_registered [of "[Source]"] by simp

subsection \<open>Registration without blueprints\<close>

text \<open>What the rules of a method, the first with index \<open>k\<close>, add to its trie.\<close>

fun entries :: "nat \<Rightarrow> 'd rule list \<Rightarrow> (string \<times> 16 word \<times> nat \<times> 16 word) list" where
  "entries k [] = []"
| "entries k (r # rs) =
     (rule_url r, word_of_nat k, 0, INVALID_BP_ID)
     # (if has_trailing_slash (rule_url r) then [(butlast (rule_url r), 1, 0, INVALID_BP_ID)] else [])
     @ entries (k + 1) rs"

lemma entries_append: "entries k (rs @ rs') = entries k rs @ entries (k + length rs) rs'"
  by (induction k rs rule: entries.induct) simp_all

lemma in_entries:
  "(u, i, n, b) \<in> set (entries k rs) \<longleftrightarrow> n = 0 \<and> b = INVALID_BP_ID \<and>
    ((\<exists>j < length rs. u = rule_url (rs ! j) \<and> i = word_of_nat (k + j))
     \<or> i = 1 \<and> (\<exists>r \<in> set rs. has_trailing_slash (rule_url r) \<and> u = butlast (rule_url r)))"
proof (induction k rs rule: entries.induct)
  case (2 k r rs)
  have "(\<exists>j < length (r # rs). u = rule_url ((r # rs) ! j) \<and> i = word_of_nat (k + j))
      \<longleftrightarrow> u = rule_url r \<and> i = word_of_nat k \<or> (\<exists>j < length rs. u = rule_url (rs ! j) \<and> i = word_of_nat (k + 1 + j))"
    by (auto simp: less_Suc_eq_0_disj)
  then show ?case using 2 by auto
qed simp

lemma add_rules_append:
  "add_rules (xs @ ys) head = (case add_rules xs head of Some (Inr head) \<Rightarrow> add_rules ys head | failed \<Rightarrow> failed)"
  by (induction xs head rule: add_rules.induct) (auto split: option.split sum.split)

lemma outcome_of_add_Returns [simp]: "outcome_of_add m = Returns t \<longleftrightarrow> m = Some (Inr t)"
  by (auto simp: outcome_of_add_def split: option.splits sum.splits)

text \<open>A table is built from another by some rules.\<close>

definition registered :: "'d rule list \<Rightarrow> 'd per_method \<Rightarrow> 'd per_method \<Rightarrow> bool" where
  "registered rs pm pm' \<longleftrightarrow> rules pm' = rules pm @ map Some rs
     \<and> add_rules (entries (length (rules pm)) rs) (trie pm) = Some (Inr (trie pm'))"

lemma registered_Nil [simp]: "registered [] pm pm' \<longleftrightarrow> pm' = pm"
  by (auto simp: registered_def)

lemma registered_append: "registered rs pm pm' \<Longrightarrow> registered rs' pm' pm'' \<Longrightarrow> registered (rs @ rs') pm pm''"
  by (simp add: registered_def entries_append add_rules_append)

lemma add_rule_method_registered:
  "add_rule_method (rule_url r) r INVALID_BP_ID bps router_bps pm = Returns pm' \<Longrightarrow> registered [r] pm pm'"
  by (auto simp: add_rule_method_def Let_def prefix_length_def registered_def RULE_SPECIAL_REDIRECT_SLASH_def
      split: if_splits dest!: arg_cong [where f = trie])

lemma element_Returns [simp]: "element xs i = Returns x \<longleftrightarrow> i < length xs \<and> x = xs ! i"
  by (auto simp: element_def)

lemma update_method_Returns:
  "update_method f m pms = Returns pms' \<longleftrightarrow> (\<exists>pm. m < length pms \<and> f (pms ! m) = Returns pm \<and> pms' = pms[m := pm])"
  by (auto simp: update_method_def)

lemma update_methods:
  "ofold (update_method f) ms pms = Returns pms' \<Longrightarrow> distinct ms \<Longrightarrow>
    length pms' = length pms \<and> (\<forall>m < length pms. if m \<in> set ms then f (pms ! m) = Returns (pms' ! m) else pms' ! m = pms ! m)"
proof (induction ms arbitrary: pms)
  case (Cons m ms)
  then obtain pm where pm: "m < length pms" "f (pms ! m) = Returns pm" "ofold (update_method f) ms (pms[m := pm]) = Returns pms'"
    by (auto simp: update_method_Returns)
  then show ?case using Cons.IH [OF pm(3)] Cons.prems(2) by (auto simp: nth_list_update split: if_splits)
qed simp

definition method_rules :: "'d rule list \<Rightarrow> nat \<Rightarrow> 'd rule list" where
  "method_rules rs m = filter (\<lambda>r. m \<in> set (foreach_method r)) rs"

lemma add_rule_Returns: "add_rule b bps router_bps r pms = Returns pms' \<longleftrightarrow> rule_validate (upgraded r) = Returns ()
    \<and> internal_add_rule_object (rule_url (upgraded r)) (upgraded r) b bps router_bps pms = Returns pms'"
  by (auto simp: add_rule_def upgraded_def Let_def)

lemma validate_trie_Returns: "validate_trie pm pms = Returns pms' \<longleftrightarrow>
    (\<exists>t. Crow_Router.validate (trie pm) = Inr t \<and> pms' = pms @ [pm\<lparr>trie := t\<rparr>])"
  by (auto simp: validate_trie_def outcome_of_sum_def split: sum.splits)

lemma add_rules_registered:
  "ofold (add_rule INVALID_BP_ID bps router_bps) rs pms = Returns pms' \<Longrightarrow>
    length pms' = length pms \<and> (\<forall>m < length pms. registered (method_rules (map upgraded rs) m) (pms ! m) (pms' ! m))
    \<and> (\<forall>r \<in> set rs. rule_validate (upgraded r) = Returns ())"
proof (induction rs arbitrary: pms)
  case (Cons r rs)
  define u where "u = upgraded r"
  obtain pms1 where pms1: "rule_validate u = Returns ()"
      "internal_add_rule_object (rule_url u) u INVALID_BP_ID bps router_bps pms = Returns pms1"
      "ofold (add_rule INVALID_BP_ID bps router_bps) rs pms1 = Returns pms'"
    using Cons.prems by (auto simp: add_rule_Returns u_def)
  have first: "length pms1 = length pms" "registered (if m \<in> set (foreach_method u) then [u] else []) (pms ! m) (pms1 ! m)"
    if "m < length pms" for m
    using update_methods [OF pms1(2) [unfolded internal_add_rule_object_def] foreach_method_distinct] that
    by (auto intro!: add_rule_method_registered [where bps = bps and router_bps = router_bps])
  have len: "length pms1 = length pms"
    using update_methods [OF pms1(2) [unfolded internal_add_rule_object_def] foreach_method_distinct] by simp
  have "registered (method_rules (map upgraded (r # rs)) m) (pms ! m) (pms' ! m)" if "m < length pms" for m
  proof -
    have "method_rules (map upgraded (r # rs)) m
        = (if m \<in> set (foreach_method u) then [u] else []) @ method_rules (map upgraded rs) m"
      by (simp add: method_rules_def u_def)
    then show ?thesis using registered_append [OF first(2) [OF that]] Cons.IH [OF pms1(3)] that len by auto
  qed
  then show ?case using Cons.IH [OF pms1(3)] pms1(1) len by (auto simp: u_def)
qed (simp add: method_rules_def)

lemma validate_tries:
  "ofold validate_trie pms done = Returns pms' \<Longrightarrow>
    \<exists>new. pms' = done @ new \<and> length new = length pms
      \<and> (\<forall>m < length pms. rules (new ! m) = rules (pms ! m) \<and> Crow_Router.validate (trie (pms ! m)) = Inr (trie (new ! m)))"
proof (induction pms arbitrary: "done")
  case (Cons pm pms)
  then obtain t where t: "Crow_Router.validate (trie pm) = Inr t"
      "ofold validate_trie pms (done @ [pm\<lparr>trie := t\<rparr>]) = Returns pms'"
    by (auto simp: validate_trie_Returns)
  obtain new where "pms' = (done @ [pm\<lparr>trie := t\<rparr>]) @ new" "length new = length pms"
      "\<forall>m < length pms. rules (new ! m) = rules (pms ! m) \<and> Crow_Router.validate (trie (pms ! m)) = Inr (trie (new ! m))"
    using Cons.IH [OF t(2)] by blast
  then show ?case using t(1) by (intro exI [of _ "pm\<lparr>trie := t\<rparr> # new"]) (auto simp: nth_Cons split: nat.split)
qed simp

subsection \<open>Tries without blueprints\<close>

primrec no_bps :: "Node \<Rightarrow> bool" where
  "no_bps (Node r b k p cs) = (b = INVALID_BP_ID \<and> list_all id (map no_bps cs))"

lemma no_bps_Node: "no_bps (Node r b k p cs) \<longleftrightarrow> b = INVALID_BP_ID \<and> (\<forall>c \<in> set cs. no_bps c)"
  by (auto simp: list_all_iff)

declare no_bps.simps [simp del]

lemma no_bps_children: "no_bps n \<longleftrightarrow> blueprint_index n = INVALID_BP_ID \<and> (\<forall>c \<in> set (children n). no_bps c)"
  by (cases n) (simp add: no_bps_Node)

lemma no_bps_new: "no_bps fresh_node" "no_bps (new_param_node ty)" "no_bps (new_char_node c INVALID_BP_ID)"
  by (simp_all add: fresh_node_def new_param_node_def new_char_node_def no_bps_Node)

lemma no_bps_update:
  "no_bps n \<Longrightarrow> no_bps c \<Longrightarrow> no_bps (set_child n i c)" "no_bps n \<Longrightarrow> no_bps c \<Longrightarrow> no_bps (add_child n c)"
  "no_bps n \<Longrightarrow> no_bps (set_rule n r)"
  by (cases n; auto simp: no_bps_Node dest: set_update_subset_insert [THEN subsetD])+

lemma first_child_nth: "first_child P cs = Some k \<Longrightarrow> k < length cs \<and> P (cs ! k)"
  by (induction P cs arbitrary: k rule: first_child.induct) (auto split: if_splits)

lemma no_bps_child: "no_bps n \<Longrightarrow> first_child P (children n) = Some k \<Longrightarrow> no_bps (children n ! k)"
  using first_child_nth no_bps_children by (metis nth_mem)

lemma map_sum_Inr_iff: "map_sum id f y = Inr h \<longleftrightarrow> (\<exists>h'. y = Inr h' \<and> h = f h')"
  by (cases y) auto

lemma add_loop_no_bps:
  assumes "add_loop url rule n bp i idx = Some res"
  shows "bp = INVALID_BP_ID \<longrightarrow> no_bps idx \<longrightarrow> (\<forall>h. res = Inr h \<longrightarrow> no_bps h)"
  using _ assms
proof (rule add_loop.raw_induct [where P = "\<lambda>url rule n bp i idx res. bp = INVALID_BP_ID \<longrightarrow> no_bps idx
      \<longrightarrow> (\<forall>h. res = Inr h \<longrightarrow> no_bps h)"], goal_cases)
  case (1 add_loop url rule n bp i idx res)
  show ?case
    using 1(2) by (auto simp: Let_def bind_eq_Some_conv no_bps_new no_bps_update no_bps_child map_sum_Inr_iff
        split: if_splits option.splits dest!: 1(1) intro!: no_bps_update)
qed

lemma add_rules_no_bps:
  "add_rules es head = Some (Inr h) \<Longrightarrow> no_bps head \<Longrightarrow> (\<forall>e \<in> set es. snd (snd (snd e)) = INVALID_BP_ID) \<Longrightarrow> no_bps h"
proof (induction es head rule: add_rules.induct)
  case (2 url rule n bp es head)
  obtain h' where h': "trie_add url rule n bp head = Some (Inr h')" "add_rules es h' = Some (Inr h)"
    using "2.prems"(1) by (auto split: option.splits sum.splits)
  have "no_bps h'" using add_loop_no_bps [of url rule n bp 0 head] h'(1) "2.prems"(2,3) by (simp add: trie_add_def)
  then show ?case using "2.IH" [OF h'(1) refl] h'(2) "2.prems"(3) by simp
qed simp

lemma optimizeNode_no_bps: "no_bps n \<Longrightarrow> no_bps (optimizeNode n)"
proof (induction n rule: optimizeNode.induct)
  case (1 r b k p cs)
  show ?case
  proof (cases cs)
    case Nil
    then show ?thesis using "1.prems" by (simp add: optimizeNode.simps)
  next
    case (Cons c rest)
    show ?thesis
    proof (cases "IsSimpleNode (Node r b k p cs)")
      case True
      have "no_bps (Node (rule_index c) (blueprint_index c) (k @ key c) p (children c))"
        using "1.prems" Cons by (cases c) (simp add: no_bps_Node)
      then show ?thesis using "1.IH"(1) [OF Cons True] True Cons by (simp add: optimizeNode_merge del: IsSimpleNode.simps)
    next
      case False
      then show ?thesis using "1.IH"(2) [OF Cons False] "1.prems" Cons
        by (simp add: optimizeNode_keep no_bps_Node del: IsSimpleNode.simps)
    qed
  qed
qed

lemma optimize_no_bps: "no_bps head \<Longrightarrow> no_bps (optimize head)"
  by (cases head) (auto simp: optimize_def no_bps_Node optimizeNode_no_bps)

lemma find_no_bps:
  "no_bps node \<Longrightarrow> bps = [] \<Longrightarrow> fst (snd (fst (find_node strtod url node pos ps bps))) = [] \<and> snd (find_node strtod url node pos ps bps) = []"
  "(\<forall>c \<in> set cs. no_bps c) \<Longrightarrow> bps = [] \<Longrightarrow> fst (snd acc) = [] \<Longrightarrow>
    (case find_children strtod url cs pos ps bps acc ff of (acc, ff, bps) \<Rightarrow> fst (snd acc) = [] \<and> bps = [])"
proof (induction strtod url node pos ps bps and strtod url cs pos ps bps acc ff rule: find_node_find_children.induct)
  case (1 strtod url r b k p cs pos ps bps)
  then show ?case by (auto simp: no_bps_Node split: prod.splits)
next
  case (3 strtod url child cs pos ps bps acc ff)
  show ?case
  proof (cases "match_child strtod child (drop pos url)")
    case None
    then show ?thesis using "3.IH"(1) "3.prems" by simp
  next
    case (Some m)
    obtain n push where m: "m = (n, push)" by (cases m)
    obtain ret bps' where ret: "find_node strtod url child (pos + n) (push ps) (push_blueprint child bps) = (ret, bps')"
      by (cases "find_node strtod url child (pos + n) (push ps) (push_blueprint child bps)")
    have "push_blueprint child bps = []" using "3.prems" no_bps_children [of child] by (simp add: push_blueprint_def)
    then have "fst (snd ret) = []" "bps' = []" using "3.IH"(2) [OF Some m [symmetric]] "3.prems" ret by simp_all
    moreover from this have "fst (snd (update_found acc ret)) = []" by (cases acc; cases ret) simp
    ultimately show ?thesis
      using "3.IH"(3) [OF Some m [symmetric] ret [symmetric]] "3.prems" Some m ret by (simp add: pop_blueprint_def)
  qed
qed simp

subsection \<open>The table of a method\<close>

definition table_of :: "'d rule list \<Rightarrow> 'd per_method \<Rightarrow> bool" where
  "table_of R pm \<longleftrightarrow> rules pm = [None, None] @ map Some R
     \<and> (\<exists>head. add_rules (entries 2 R) fresh_node = Some (Inr head) \<and> Crow_Router.validate head = Inr (trie pm))"

text \<open>A router to which rules were added, and nothing else yet.\<close>

definition plain_router :: "'d router \<Rightarrow> bool" where
  "plain_router rt \<longleftrightarrow> per_methods rt = per_methods router_new \<and> blueprints rt = []"

lemma validated_tables:
  assumes "router_validate rt = Returns rt'" and "plain_router rt"
  shows "length (per_methods rt') = 34 \<and> blueprints rt' = [] \<and> catchall_rule rt' = catchall_rule rt
    \<and> (\<forall>m < 34. table_of (method_rules (map upgraded (all_rules rt)) m) (per_methods rt' ! m))
    \<and> (\<forall>r \<in> set (all_rules rt). rule_validate (upgraded r) = Returns ())"
proof -
  have bps: "blueprints rt = []" "per_methods rt = replicate 34 per_method_new"
    using assms(2) by (simp_all add: plain_router_def router_new_def)
  obtain pms pms' where pms: "ofold (add_rule INVALID_BP_ID [] []) (all_rules rt) (per_methods rt) = Returns pms"
      "ofold validate_trie pms [] = Returns pms'" and rt': "rt' = rt\<lparr>per_methods := pms', all_rules := map upgraded (all_rules rt),
        blueprints := []\<rparr>"
    using assms(1) bps(1) by (auto simp: router_validate_def)
  note reg = add_rules_registered [OF pms(1)] and val = validate_tries [OF pms(2)]
  have len: "length pms = 34" "length pms' = 34" using reg val bps(2) by auto
  have "table_of (method_rules (map upgraded (all_rules rt)) m) (pms' ! m)" if "m < 34" for m
  proof -
    have "registered (method_rules (map upgraded (all_rules rt)) m) per_method_new (pms ! m)"
      using reg that bps(2) by simp
    moreover have "rules (pms' ! m) = rules (pms ! m)" "Crow_Router.validate (trie (pms ! m)) = Inr (trie (pms' ! m))"
      using val that len by auto
    ultimately show ?thesis by (simp add: registered_def table_of_def per_method_new_def numeral_2_eq_2)
  qed
  then show ?thesis using len reg rt' by simp
qed

subsection \<open>Lookup in the list of rules\<close>

datatype 'd lookup = No_Route | Redirect | Route "'d rule" "'d routing_params"

definition redirects :: "(string \<Rightarrow> 'd \<times> nat \<times> bool) \<Rightarrow> string \<Rightarrow> 'd rule \<Rightarrow> bool" where
  "redirects strtod url r \<longleftrightarrow> has_trailing_slash (rule_url r) \<and> match_route strtod (butlast (rule_url r)) url \<noteq> None"

definition route_lookup :: "(string \<Rightarrow> 'd \<times> nat \<times> bool) \<Rightarrow> string \<Rightarrow> 'd rule list \<Rightarrow> 'd lookup" where
  "route_lookup strtod url R =
     (if list_ex (redirects strtod url) R then Redirect
      else case List.find (\<lambda>r. match_route strtod (rule_url r) url \<noteq> None) R of
             None \<Rightarrow> No_Route
           | Some r \<Rightarrow> Route r (the (match_route strtod (rule_url r) url)))"

lemma unat_index: "j < length R \<Longrightarrow> length R < 65534 \<Longrightarrow> unat (word_of_nat (2 + j) :: 16 word) = 2 + j"
  by (intro of_nat_inverse [OF refl]) simp

lemma entries_no_NUL:
  "(\<forall>r \<in> set R. NUL \<notin> set (rule_url r)) \<Longrightarrow> \<forall>x \<in> set (entries k R). NUL \<notin> set (fst x)"
  using in_set_butlastD by (fastforce simp: in_entries)

lemma table_scan:
  assumes "table_of R pm" and "strtod_stops strtod" and "\<forall>r \<in> set R. NUL \<notin> set (rule_url r)"
    and "trie_find strtod url (trie pm) = (found, bp, ps)"
  shows "(found = 0 \<longrightarrow> (\<forall>(u, i, n, b) \<in> set (entries 2 R). i = 0 \<or> match_route strtod u url = None))
    \<and> (found \<noteq> 0 \<longrightarrow> (\<exists>u n b. (u, found, n, b) \<in> set (entries 2 R) \<and> match_route strtod u url = Some ps)
        \<and> (\<forall>(u, i, n, b) \<in> set (entries 2 R). i = 0 \<or> match_route strtod u url = None \<or> found \<le> i))"
proof -
  obtain head where head: "add_rules (entries 2 R) fresh_node = Some (Inr head)" "Crow_Router.validate head = Inr (trie pm)"
    using assms(1) by (auto simp: table_of_def)
  show ?thesis using linear_scan [OF assms(2) head(1) entries_no_NUL [OF assms(3)] head(2) _ assms(4)] by simp
qed

lemma rule_entry:
  assumes "j < length R" and "length R < 65534"
  shows "(rule_url (R ! j), word_of_nat (2 + j), 0, INVALID_BP_ID) \<in> set (entries 2 R)" "(word_of_nat (2 + j) :: 16 word) \<noteq> 0"
proof -
  show "(rule_url (R ! j), word_of_nat (2 + j), 0, INVALID_BP_ID) \<in> set (entries 2 R)" using assms(1) by (auto simp: in_entries)
  show "(word_of_nat (2 + j) :: 16 word) \<noteq> 0" using unat_index [OF assms] by (metis add_is_0 unat_0 zero_neq_numeral)
qed

lemma table_lookup:
  assumes "table_of R pm" and "strtod_stops strtod" and "\<forall>r \<in> set R. NUL \<notin> set (rule_url r)" and "length R < 65534"
    and "trie_find strtod url (trie pm) = (found, bp, ps)"
  shows "case route_lookup strtod url R of
      No_Route \<Rightarrow> found = 0
    | Redirect \<Rightarrow> found = 1
    | Route r p \<Rightarrow> \<exists>j < length R. unat found = 2 + j \<and> R ! j = r \<and> ps = p"
proof (cases "list_ex (redirects strtod url) R")
  case True
  then obtain r where r: "r \<in> set R" "redirects strtod url r" by (auto simp: list_ex_iff)
  then have "(butlast (rule_url r), 1, 0, INVALID_BP_ID) \<in> set (entries 2 R)" by (auto simp: in_entries redirects_def)
  then have "found \<noteq> 0 \<and> found \<le> 1" using table_scan [OF assms(1-3,5)] r(2) by (fastforce simp: redirects_def)
  then have "unat found = 1" using unat_gt_0 [of found] by (simp add: word_le_nat_alt)
  then show ?thesis using True by (simp add: route_lookup_def word_unat_eq_iff)
next
  case no_redirect: False
  note scan = table_scan [OF assms(1-3,5)] and index = unat_index [OF _ assms(4)] and entry = rule_entry [OF _ assms(4)]
  show ?thesis
  proof (cases "found = 0")
    case True
    have "match_route strtod (rule_url (R ! j)) url = None" if "j < length R" for j
      using scan True entry [OF that] by fastforce
    then have "\<forall>r \<in> set R. match_route strtod (rule_url r) url = None" by (metis in_set_conv_nth)
    then show ?thesis using no_redirect True by (simp add: route_lookup_def find_None_iff split: option.split)
  next
    case False
    obtain u n b where u: "(u, found, n, b) \<in> set (entries 2 R)" "match_route strtod u url = Some ps"
      using scan False by blast
    then obtain j where j: "j < length R" "u = rule_url (R ! j)" "found = word_of_nat (2 + j)"
      using no_redirect by (auto simp: in_entries redirects_def list_ex_iff)
    have "match_route strtod (rule_url (R ! i)) url = None" if "i < j" for i
    proof (rule ccontr)
      assume *: "match_route strtod (rule_url (R ! i)) url \<noteq> None"
      have i: "i < length R" using that j(1) by simp
      have "found \<le> word_of_nat (2 + i)" using scan False entry [OF i] * by fastforce
      then show False using index [OF i] index [OF j(1)] j(3) that by (simp add: word_le_nat_alt)
    qed
    then have "List.find (\<lambda>r. match_route strtod (rule_url r) url \<noteq> None) R = Some (R ! j)"
      using j u(2) by (auto simp: find_Some_iff)
    then show ?thesis using no_redirect j u(2) index [OF j(1)] by (auto simp: route_lookup_def)
  qed
qed

lemma table_found:
  assumes "table_of R pm" and "strtod_stops strtod" and "\<forall>r \<in> set R. NUL \<notin> set (rule_url r)" and "length R < 65534"
  shows "found_rule strtod url pm \<longleftrightarrow> route_lookup strtod url R \<noteq> No_Route"
proof -
  obtain found bp ps where f: "trie_find strtod url (trie pm) = (found, bp, ps)"
    by (cases "trie_find strtod url (trie pm)")
  show ?thesis using table_lookup [OF assms f] f by (auto simp: found_rule_def split: lookup.splits)
qed

lemma table_no_bps:
  assumes "table_of R pm"
  shows "fst (snd (trie_find strtod url (trie pm))) = []"
proof -
  obtain head where head: "add_rules (entries 2 R) fresh_node = Some (Inr head)" "Crow_Router.validate head = Inr (trie pm)"
    using assms by (auto simp: table_of_def)
  have "no_bps head" by (rule add_rules_no_bps [OF head(1) no_bps_new(1)]) (auto simp: in_entries)
  moreover have "trie pm = optimize head" using head(2) by (simp add: Crow_Router.validate_def split: if_splits)
  ultimately have "no_bps (trie pm)" by (simp add: optimize_no_bps)
  then show ?thesis by (simp add: trie_find_def find_no_bps)
qed

lemma optimize_empty: "is_empty (optimize head) = is_empty head"
  by (cases head) (simp add: is_empty_def optimize_def)

lemma table_empty:
  assumes "table_of R pm" and "\<forall>r \<in> set R. NUL \<notin> set (rule_url r)" and "length R < 65534"
  shows "is_empty (trie pm) \<longleftrightarrow> R = []"
proof -
  obtain head where head: "add_rules (entries 2 R) fresh_node = Some (Inr head)" "Crow_Router.validate head = Inr (trie pm)"
    using assms by (auto simp: table_of_def)
  then have "IsSimpleNode head" and "trie pm = optimize head" by (simp_all add: Crow_Router.validate_def split: if_splits)
  then have empty: "is_empty (trie pm) = is_empty head" by (simp add: optimize_empty)
  have "rule_index head = 0" using \<open>IsSimpleNode head\<close> by (cases head) simp
  have "R = []" if "is_empty head"
  proof (rule ccontr)
    assume "R \<noteq> []"
    then obtain r rs where R: "R = r # rs" by (cases R) auto
    have "routes head = []" using that \<open>rule_index head = 0\<close> by (cases head) (simp add: is_empty_def routes_Node)
    moreover have "tokens (rule_url r) \<noteq> None"
    proof
      assume "tokens (rule_url r) = None"
      then show False using head(1) trie_add_None [of "rule_url r"] by (simp add: R)
    qed
    moreover have "(rule_url r, 2, 0, INVALID_BP_ID) \<in> set (entries 2 R)" by (simp add: R)
    ultimately show False
      using fresh_routes(2) [OF head(1) entries_no_NUL [OF assms(2)], of _ 2] by fastforce
  qed
  moreover have "is_empty head" if "R = []" using that head(1) by (auto simp: is_empty_def fresh_node_def)
  ultimately show ?thesis using empty by blast
qed

subsection \<open>Dispatch as a scan over the rules\<close>

text \<open>
  The answer to a request by the rules \<open>rs\<close> in the order of their registration and the catch-all handler \<open>h\<close>.
\<close>

definition answer_error :: "catchall \<Rightarrow> int \<Rightarrow> request \<Rightarrow> response \<Rightarrow> response outcome" where
  "answer_error h c req res =
     obind (case h of Some h \<Rightarrow> call_catchall h req (res\<lparr>res_code := c\<rparr>) | None \<Rightarrow> Returns (res\<lparr>res_code := c\<rparr>))
       (\<lambda>res. Returns (response_end res))"

definition methods_where :: "(nat \<Rightarrow> bool) \<Rightarrow> string" where
  "methods_where P = concat (map (\<lambda>m. if P m then method_name (method_at m) @ '', '' else []) [0..<34])"

definition dispatch ::
    "(string \<Rightarrow> 'd \<times> nat \<times> bool) \<Rightarrow> 'd rule list \<Rightarrow> catchall \<Rightarrow> request \<Rightarrow> response \<Rightarrow> response outcome" where
  "dispatch strtod rs h req res =
     (let look = (\<lambda>m. route_lookup strtod (req_url req) (method_rules rs m)) in
      case req_method req of
        InternalMethodCount \<Rightarrow> Returns res
      | Options \<Rightarrow>
          if req_url req = ''/*'' then
            Returns (options_response (''OPTIONS, HEAD, '' @ methods_where (\<lambda>m. method_rules rs m \<noteq> [])) res)
          else if \<exists>m < 34. look m \<noteq> No_Route then
            Returns (options_response (''OPTIONS, HEAD, '' @ methods_where (\<lambda>m. look m \<noteq> No_Route)) res)
          else Returns (answer_code 404 res)
      | method \<Rightarrow>
          let actual = (if method = Head then Get else method);
              res = (if method = Head then res\<lparr>skip_body := True\<rparr> else res)
          in case look (method_number actual) of
               No_Route \<Rightarrow> answer_error h (if \<exists>m < 34. look m \<noteq> No_Route then 405 else 404) req res
             | Redirect \<Rightarrow> Returns (redirect_response req res)
             | Route r ps \<Rightarrow> obind (rule_handle r req res ps) (\<lambda>r. Returns (answer_exception r)))"

lemma dispatch_other:
  "m = req_method req \<Longrightarrow> m \<notin> {InternalMethodCount, Options} \<Longrightarrow> dispatch strtod rs h req res =
     (let look = (\<lambda>m. route_lookup strtod (req_url req) (method_rules rs m));
          actual = (if m = Head then Get else m);
          res = (if m = Head then res\<lparr>skip_body := True\<rparr> else res)
      in case look (method_number actual) of
           No_Route \<Rightarrow> answer_error h (if \<exists>m < 34. look m \<noteq> No_Route then 405 else 404) req res
         | Redirect \<Rightarrow> Returns (redirect_response req res)
         | Route r ps \<Rightarrow> obind (rule_handle r req res ps) (\<lambda>r. Returns (answer_exception r)))"
  unfolding dispatch_def Let_def by (cases m) simp_all

lemma allowed_where: "length pms = 34 \<Longrightarrow> allowed P pms = methods_where (\<lambda>m. P (pms ! m))"
proof -
  assume len: "length pms = 34"
  have "enumerate 0 pms = map (\<lambda>m. (m, pms ! m)) [0..<34]"
    using len by (intro nth_equalityI) (simp_all add: nth_enumerate_eq)
  then show ?thesis by (simp add: allowed_def methods_where_def comp_def)
qed

lemma methods_where_cong: "(\<And>m. m < 34 \<Longrightarrow> P m = Q m) \<Longrightarrow> methods_where P = methods_where Q"
  unfolding methods_where_def by (intro arg_cong [where f = concat] map_cong) auto

lemma methods_where_Nil: "methods_where P = [] \<longleftrightarrow> \<not> (\<exists>m < 34. P m)"
  by (auto simp: methods_where_def simp del: if_image_distrib)

text \<open>What the rules of a router must satisfy: no \<^verbatim>\<open>NUL\<close> in a pattern, and indices that fit into 16 bits.\<close>

definition indexable :: "'d rule list \<Rightarrow> bool" where
  "indexable rs \<longleftrightarrow> (\<forall>r \<in> set rs. NUL \<notin> set (rule_url r)) \<and> (\<forall>m < 34. length (method_rules rs m) < 65534)"

lemma get_error_no_bps:
  "blueprints rt = [] \<Longrightarrow> get_error rt c [] req res
    = (case catchall_rule rt of Some h \<Rightarrow> call_catchall h req (res\<lparr>res_code := c\<rparr>) | None \<Rightarrow> Returns (res\<lparr>res_code := c\<rparr>))"
  by (simp add: get_error_def get_found_bp.simps Let_def)

text \<open>A router whose tables hold these rules, and which has no blueprints.\<close>

definition serves :: "(string \<Rightarrow> 'd \<times> nat \<times> bool) \<Rightarrow> 'd rule list \<Rightarrow> 'd router \<Rightarrow> bool" where
  "serves strtod rs rt \<longleftrightarrow> strtod_stops strtod \<and> indexable rs \<and> length (per_methods rt) = 34 \<and> blueprints rt = []
     \<and> (\<forall>m < 34. table_of (method_rules rs m) (per_methods rt ! m))"

lemma servesD:
  assumes "serves strtod rs rt" and "m < 34"
  shows "strtod_stops strtod" "table_of (method_rules rs m) (per_methods rt ! m)"
    "\<forall>r \<in> set (method_rules rs m). NUL \<notin> set (rule_url r)" "length (method_rules rs m) < 65534"
  using assms by (auto simp: serves_def indexable_def method_rules_def)

lemma serves_found:
  "serves strtod rs rt \<Longrightarrow> m < 34 \<Longrightarrow>
    found_rule strtod url (per_methods rt ! m) \<longleftrightarrow> route_lookup strtod url (method_rules rs m) \<noteq> No_Route"
  by (intro table_found servesD)

lemma serves_any:
  "serves strtod rs rt \<Longrightarrow> list_ex (found_rule strtod url) (per_methods rt)
    \<longleftrightarrow> (\<exists>m < 34. route_lookup strtod url (method_rules rs m) \<noteq> No_Route)"
  using serves_found [of strtod rs rt _ url] by (metis (no_types, lifting) list_ex_length serves_def)

lemma serves_allowed:
  assumes "serves strtod rs rt"
  shows "allowed (found_rule strtod url) (per_methods rt)
      = methods_where (\<lambda>m. route_lookup strtod url (method_rules rs m) \<noteq> No_Route)"
    and "allowed (\<lambda>pm. \<not> is_empty (trie pm)) (per_methods rt) = methods_where (\<lambda>m. method_rules rs m \<noteq> [])"
proof -
  have len: "length (per_methods rt) = 34" using assms by (simp add: serves_def)
  show "allowed (found_rule strtod url) (per_methods rt)
      = methods_where (\<lambda>m. route_lookup strtod url (method_rules rs m) \<noteq> No_Route)"
    unfolding allowed_where [OF len] by (intro methods_where_cong serves_found assms)
  show "allowed (\<lambda>pm. \<not> is_empty (trie pm)) (per_methods rt) = methods_where (\<lambda>m. method_rules rs m \<noteq> [])"
    unfolding allowed_where [OF len]
    by (intro methods_where_cong arg_cong [where f = Not] table_empty servesD [OF assms])
qed

lemma serves_options:
  assumes "serves strtod rs rt" and "req_method req = Options"
  shows "router_handle strtod rt req res = dispatch strtod rs (catchall_rule rt) req res"
proof -
  have "\<not> 34 \<le> method_number Options" by (simp add: method_number_def http_methods_def)
  then show ?thesis using assms(2)
    by (auto simp: router_handle_def dispatch_def Let_def methods_where_Nil serves_allowed [OF assms(1)])
qed

lemma handle_other:
  assumes "req_method req \<notin> {InternalMethodCount, Options}" and "length (per_methods rt) = 34"
    and "actual = (if req_method req = Head then Get else req_method req)"
    and "res' = (if req_method req = Head then res\<lparr>skip_body := True\<rparr> else res)"
    and "pm = per_methods rt ! method_number actual" and "trie_find strtod (req_url req) (trie pm) = (idx, bp, ps)"
  shows "router_handle strtod rt req res =
    (if idx = 0 then
       obind (get_error rt (if list_ex (found_rule strtod (req_url req)) (per_methods rt) then 405 else 404) bp req res')
         (\<lambda>res. Returns (response_end res))
     else if unat idx \<ge> length (rules pm) then Throws (Runtime_Error ''Trie internal structure corrupted!'')
     else if unat idx = RULE_SPECIAL_REDIRECT_SLASH then Returns (redirect_response req res')
     else (case rules pm ! unat idx of
             None \<Rightarrow> Undefined
           | Some r \<Rightarrow> obind (rule_handle r req res' ps) (\<lambda>r. Returns (answer_exception r))))"
proof -
  have "method_number actual < 34" using assms(1,3) method_number_less(2) by auto
  then have e: "element (per_methods rt) (method_number actual) = Returns pm" using assms(2,5) by simp
  have m: "\<not> method_number InternalMethodCount \<le> method_number (req_method req)" "req_method req \<noteq> Options"
    using assms(1) method_number_less(2) [of "req_method req"] by auto
  show ?thesis
    unfolding router_handle_def Let_def assms(3) [symmetric] assms(4) [symmetric] e
    using m assms(6) by simp
qed

lemma serves_other:
  assumes "serves strtod rs rt" and "req_method req \<notin> {InternalMethodCount, Options}"
  shows "router_handle strtod rt req res = dispatch strtod rs (catchall_rule rt) req res"
proof -
  define look where "look = (\<lambda>m. route_lookup strtod (req_url req) (method_rules rs m))"
  define actual where "actual = (if req_method req = Head then Get else req_method req)"
  define res' where "res' = (if req_method req = Head then res\<lparr>skip_body := True\<rparr> else res)"
  define pm where "pm = per_methods rt ! method_number actual"
  have n: "method_number actual < 34" using assms(2) method_number_less(2) by (auto simp: actual_def)
  note tab = servesD [OF assms(1) n, folded pm_def]
  obtain idx bp ps where f: "trie_find strtod (req_url req) (trie pm) = (idx, bp, ps)"
    by (cases "trie_find strtod (req_url req) (trie pm)")
  have bp: "bp = []" using table_no_bps [OF tab(2)] f by (metis fst_conv snd_conv)
  have rules: "rules pm = [None, None] @ map Some (method_rules rs (method_number actual))"
    using tab(2) by (simp add: table_of_def)
  have lookup: "case look (method_number actual) of No_Route \<Rightarrow> idx = 0 | Redirect \<Rightarrow> idx = 1
      | Route r p \<Rightarrow> \<exists>j < length (method_rules rs (method_number actual)).
          unat idx = 2 + j \<and> method_rules rs (method_number actual) ! j = r \<and> ps = p"
    using table_lookup [OF tab(2,1,3,4) f] by (simp add: look_def)
  have no_bps: "blueprints rt = []" "length (per_methods rt) = 34" using assms(1) by (simp_all add: serves_def)
  note handle = handle_other [OF assms(2) no_bps(2) actual_def res'_def pm_def f, unfolded serves_any [OF assms(1)]]
  have spec: "dispatch strtod rs (catchall_rule rt) req res =
      (case look (method_number actual) of
         No_Route \<Rightarrow> answer_error (catchall_rule rt) (if \<exists>m < 34. look m \<noteq> No_Route then 405 else 404) req res'
       | Redirect \<Rightarrow> Returns (redirect_response req res')
       | Route r ps \<Rightarrow> obind (rule_handle r req res' ps) (\<lambda>r. Returns (answer_exception r)))"
    by (subst dispatch_other [OF refl assms(2)]) (simp only: Let_def look_def actual_def res'_def)
  show ?thesis
  proof (cases "look (method_number actual)")
    case No_Route
    then show ?thesis using lookup bp unfolding handle spec
      by (simp add: get_error_no_bps [OF no_bps(1)] answer_error_def look_def)
  next
    case Redirect
    then show ?thesis using lookup unfolding handle spec by (simp add: rules RULE_SPECIAL_REDIRECT_SLASH_def)
  next
    case (Route r p)
    then obtain j where "j < length (method_rules rs (method_number actual))" "unat idx = 2 + j"
        "method_rules rs (method_number actual) ! j = r" "ps = p"
      using lookup by auto
    then show ?thesis using Route unfolding handle spec by (auto simp: rules RULE_SPECIAL_REDIRECT_SLASH_def)
  qed
qed

lemma serves_dispatch:
  "serves strtod rs rt \<Longrightarrow> router_handle strtod rt req res = dispatch strtod rs (catchall_rule rt) req res"
  using serves_options [of strtod rs rt req res] serves_other [of strtod rs rt req res]
  by (cases "req_method req \<in> {InternalMethodCount, Options}") (auto simp: router_handle_def dispatch_def)

lemma validated_serves:
  assumes "router_validate rt = Returns rt'" and "plain_router rt" and "strtod_stops strtod"
    and "indexable (map upgraded (all_rules rt))"
  shows "serves strtod (map upgraded (all_rules rt)) rt'" "catchall_rule rt' = catchall_rule rt"
  using validated_tables [OF assms(1,2)] assms(3,4) by (auto simp: serves_def)

subsection \<open>Routes of an application\<close>

text \<open>
  \<^verbatim>\<open>new_rule_tagged\<close> with the number that \<^verbatim>\<open>CROW_ROUTE\<close> computes from the pattern: the rule and the types of the
  arguments of its handler, or \<open>None\<close> when the pattern does not compile. \<^verbatim>\<open>new_rule_dynamic\<close> makes a rule whose
  handler is checked by \<open>wrap\<close>.
\<close>

definition new_rule_tagged :: "string \<Rightarrow> (arg_type list \<times> 'd rule) option" where
  "new_rule_tagged url =
     (case get_parameter_tag url 0 of
        Inl e \<Rightarrow> None
      | Inr t \<Rightarrow> map_option (\<lambda>tys. (tys, base_rule No_Handler url)) (arguments t))"

definition new_rule_dynamic :: "string \<Rightarrow> 'd rule" where
  "new_rule_dynamic url = base_rule No_Handler url"

definition set_tagged_handler :: "arg_type list \<Rightarrow> ('d arg list \<Rightarrow> request \<Rightarrow> response \<Rightarrow> response \<times> exn option) \<Rightarrow> 'd rule \<Rightarrow> 'd rule" where
  "set_tagged_handler tys f r = r\<lparr>rule_handling := Handler tys f\<rparr>"

definition set_dynamic_handler ::
    "cpp_type list \<Rightarrow> ('d arg list \<Rightarrow> request \<Rightarrow> response \<Rightarrow> response \<times> exn option) \<Rightarrow> 'd rule \<Rightarrow> (tag_exn + 'd rule) option" where
  "set_dynamic_handler as f r = map_option (map_sum id (\<lambda>tys. r\<lparr>rule_handling := Handler tys f\<rparr>)) (wrap (rule_url r) as)"

text \<open>A rule whose handler takes what its pattern reads, as every tagged rule does.\<close>

definition typed_rule :: "'d rule \<Rightarrow> bool" where
  "typed_rule r = (case rule_handling r of
     Handler tys f \<Rightarrow> length (route_params (rule_url r)) \<le> 24 \<and> Option.bind (case get_parameter_tag (rule_url r) 0 of Inl e \<Rightarrow> None | Inr t \<Rightarrow> Some t) arguments = Some tys
   | _ \<Rightarrow> True)"

lemma tagged_typed:
  "new_rule_tagged url = Some (tys, r) \<Longrightarrow> length (route_params url) \<le> 24 \<Longrightarrow> typed_rule (set_tagged_handler tys f r)"
  by (auto simp: new_rule_tagged_def typed_rule_def set_tagged_handler_def base_rule_def split: sum.splits)

lemma upgraded_typed: "typed_rule r \<Longrightarrow> typed_rule (upgraded r)"
  by (auto simp: upgraded_def upgrade_def typed_rule_def base_rule_def split: option.split)

lemma typed_handle:
  assumes "typed_rule r" and "match_route strtod (rule_url r) url = Some ps"
  shows "\<exists>out. rule_handle r req res ps = Returns out"
proof (cases "rule_handling r")
  case (Handler tys f)
  then obtain t where t: "get_parameter_tag (rule_url r) 0 = Inr t" "arguments t = Some tys" "length (route_params (rule_url r)) \<le> 24"
    using assms(1) by (auto simp: typed_rule_def split: sum.splits)
  then show ?thesis using matched_handler [OF assms(2) t(3)] Handler by (auto simp: rule_handle_def)
qed (simp_all add: rule_handle_def)

lemma route_lookup_Route:
  "route_lookup strtod url R = Route r ps \<Longrightarrow> r \<in> set R \<and> match_route strtod (rule_url r) url = Some ps"
  by (auto simp: route_lookup_def split: if_splits option.splits dest!: find_SomeD)

lemma answer_error_outcome:
  "case answer_error h c req res of
     Returns res' \<Rightarrow> True | Throws e \<Rightarrow> \<exists>g. h = Some g \<and> snd (g req (res\<lparr>res_code := c\<rparr>)) = Some e | _ \<Rightarrow> False"
proof (cases h)
  case (Some g)
  then show ?thesis by (cases "g req (res\<lparr>res_code := c\<rparr>)"; cases "snd (g req (res\<lparr>res_code := c\<rparr>))")
      (auto simp: answer_error_def call_catchall_def)
qed (simp add: answer_error_def)

text \<open>
  C34. A validated router without blueprints answers every request as a scan over its rules would: a rule with a
  trailing slash whose pattern without the slash matches redirects, else the first rule of the method in the
  order of registration whose pattern matches handles the request with the parameters read from it, else the
  answer is 405 or 404; \<^verbatim>\<open>HEAD\<close> is served by the rules of \<^verbatim>\<open>GET\<close>, and \<^verbatim>\<open>OPTIONS\<close> lists the methods with a rule.
\<close>

theorem router_dispatches:
  assumes "router_validate rt = Returns rt'" and "plain_router rt" and "strtod_stops strtod"
    and "indexable (map upgraded (all_rules rt))"
  shows "router_handle strtod rt' req res = dispatch strtod (map upgraded (all_rules rt)) (catchall_rule rt) req res"
  using serves_dispatch [OF validated_serves(1) [OF assms]] validated_serves(2) [OF assms] by simp

text \<open>
  C35. For a router without blueprints, with fewer than 65534 rules for each method and patterns without
  NUL: if every handler takes what its pattern reads, as \<^verbatim>\<open>CROW_ROUTE\<close> ensures, and no pattern has more than 24
  tags, then handling a request on the validated router always returns, without reading outside the
  parameters, the tables or the rules, and without finding the trie corrupted; an exception leaves it only if
  the catch-all handler raised it. That there are no blueprints is needed: an empty blueprint is entered into
  the trie under a wrong index (\<open>empty_blueprint_index\<close>), with which the search for the responsible blueprint
  can read outside the list.
\<close>

theorem typed_router_is_safe:
  assumes "router_validate rt = Returns rt'" and "plain_router rt" and "strtod_stops strtod"
    and "indexable (map upgraded (all_rules rt))" and "\<forall>r \<in> set (all_rules rt). typed_rule r"
  shows "case router_handle strtod rt' req res of
      Returns res' \<Rightarrow> True
    | Throws e \<Rightarrow> \<exists>g res'. catchall_rule rt = Some g \<and> snd (g req res') = Some e
    | _ \<Rightarrow> False"
proof -
  note serves = serves_dispatch [OF validated_serves(1) [OF assms(1-4)], unfolded validated_serves(2) [OF assms(1-4)]]
  define rs where "rs = map upgraded (all_rules rt)"
  have typed: "typed_rule r" if "r \<in> set (method_rules rs m)" for r m
    using that assms(5) upgraded_typed by (auto simp: rs_def method_rules_def)
  consider "req_method req = InternalMethodCount" | "req_method req = Options" | "req_method req \<notin> {InternalMethodCount, Options}"
    by blast
  then show ?thesis
  proof cases
    case 3
    define actual where "actual = (if req_method req = Head then Get else req_method req)"
    define res' where "res' = (if req_method req = Head then res\<lparr>skip_body := True\<rparr> else res)"
    define c :: int where "c = (if \<exists>m < 34. route_lookup strtod (req_url req) (method_rules rs m) \<noteq> No_Route then 405 else 404)"
    have eq: "router_handle strtod rt' req res = (case route_lookup strtod (req_url req) (method_rules rs (method_number actual)) of
         No_Route \<Rightarrow> answer_error (catchall_rule rt) c req res'
       | Redirect \<Rightarrow> Returns (redirect_response req res')
       | Route r ps \<Rightarrow> obind (rule_handle r req res' ps) (\<lambda>r. Returns (answer_exception r)))"
      unfolding serves rs_def [symmetric] by (subst dispatch_other [OF refl 3]) (simp only: Let_def actual_def res'_def c_def)
    show ?thesis
    proof (cases "route_lookup strtod (req_url req) (method_rules rs (method_number actual))")
      case No_Route
      then show ?thesis using answer_error_outcome [where h = "catchall_rule rt" and c = c and req = req and res = res'] unfolding eq
        by (auto split: outcome.splits)
    next
      case (Route r ps)
      then obtain out where "rule_handle r req res' ps = Returns out"
        using typed_handle [OF typed] route_lookup_Route [OF Route] by blast
      then show ?thesis using Route unfolding eq by simp
    qed (simp add: eq)
  qed (simp_all add: serves dispatch_def Let_def)
qed

subsection \<open>A sample\<close>

text \<open>One tagged rule and one request for it.\<close>

definition sample_rule :: "nat rule" where
  "sample_rule = set_tagged_handler [Int64] (\<lambda>args req res. (response_end (res\<lparr>res_code := 200\<rparr>), None)) (base_rule No_Handler ''/<int>'')"

definition sample_router :: "nat router" where
  "sample_router = router_new_rule sample_rule router_new"

definition sample_request :: request where
  "sample_request = \<lparr>req_method = Get, req_url = ''/5'', req_headers = [], req_body = []\<rparr>"

lemma sample_methods: "foreach_method sample_rule = [1]"
  by (simp add: foreach_method_filter sample_rule_def set_tagged_handler_def base_rule_def method_number_def http_methods_def
      upt_rec bit_exp_iff)

lemma sample_upgraded: "upgraded sample_rule = sample_rule"
  by (simp add: upgraded_def upgrade_def sample_rule_def set_tagged_handler_def base_rule_def)

lemma sample_rule_trie: "\<exists>head. trie_add ''/<int>'' 2 0 INVALID_BP_ID fresh_node = Some (Inr head) \<and> IsSimpleNode head"
  by (simp add: trie_eval)

lemma validate_tries_all:
  "list_all (\<lambda>pm. IsSimpleNode (trie pm)) pms \<Longrightarrow>
    ofold validate_trie pms done = Returns (done @ map (\<lambda>pm. pm\<lparr>trie := optimize (trie pm)\<rparr>) pms)"
  by (induction pms arbitrary: "done") (auto simp: validate_trie_def Crow_Router.validate_def outcome_of_sum_def)

lemma sample_validates: "\<exists>rt. router_validate sample_router = Returns rt"
proof -
  obtain head where head: "trie_add ''/<int>'' 2 0 INVALID_BP_ID fresh_node = Some (Inr head)" "IsSimpleNode head"
    using sample_rule_trie by blast
  define pm where "pm = \<lparr>rules = [None, None, Some sample_rule], trie = head\<rparr>"
  have url: "rule_url sample_rule = ''/<int>''" by (simp add: sample_rule_def set_tagged_handler_def base_rule_def)
  have "add_rule_method ''/<int>'' sample_rule INVALID_BP_ID [] [] per_method_new = Returns pm"
    using head(1) by (simp add: add_rule_method_def per_method_new_def prefix_length_def outcome_of_add_def pm_def
        has_trailing_slash_def Let_def)
  then have "add_rule INVALID_BP_ID [] [] sample_rule (replicate 34 per_method_new) = Returns ((replicate 34 per_method_new)[1 := pm])"
    by (simp add: add_rule_Returns sample_upgraded url internal_add_rule_object_def sample_methods update_method_Returns)
      (simp add: rule_validate_def sample_rule_def set_tagged_handler_def)
  moreover have "list_all (\<lambda>pm. IsSimpleNode (trie pm)) ((replicate 34 per_method_new)[1 := pm])"
    using head(2) by (auto simp: list_all_length nth_list_update per_method_new_def pm_def fresh_node_def)
  ultimately show ?thesis
    by (simp add: router_validate_def sample_router_def router_new_rule_def router_new_def validate_tries_all)
qed

lemma sample_indexable: "indexable (map upgraded (all_rules sample_router))"
  by (auto simp: indexable_def sample_router_def router_new_rule_def router_new_def sample_upgraded method_rules_def)
    (simp add: sample_rule_def set_tagged_handler_def base_rule_def)

lemma sample_plain: "plain_router sample_router"
  by (simp add: plain_router_def sample_router_def router_new_rule_def router_new_def)

lemma no_strtod_stops: "strtod_stops no_strtod"
  by (simp add: strtod_stops_def no_strtod_def)

theorem router_dispatches_witness:
  "\<exists>rt. router_validate sample_router = Returns rt
    \<and> (\<exists>res'. router_handle no_strtod rt sample_request (response_of_code 0) = Returns res' \<and> res_code res' = 200)"
proof -
  obtain rt where rt: "router_validate sample_router = Returns rt" using sample_validates by blast
  have lookup: "route_lookup no_strtod ''/5'' [sample_rule] = Route sample_rule (push_int 5 no_params)"
    using sample_reads by (simp add: route_lookup_def redirects_def has_trailing_slash_def sample_rule_def
        set_tagged_handler_def base_rule_def)
  have "method_rules [sample_rule] 1 = [sample_rule]" by (simp add: method_rules_def sample_methods)
  moreover have "method_number Get = 1" by (simp add: method_number_def http_methods_def)
  ultimately have "dispatch no_strtod [sample_rule] None sample_request (response_of_code 0)
      = obind (rule_handle sample_rule sample_request (response_of_code 0) (push_int 5 no_params)) (\<lambda>r. Returns (answer_exception r))"
    by (simp add: dispatch_def Let_def sample_request_def lookup)
  also have "\<dots> = Returns (response_end (response_of_code 200))"
    by (simp add: rule_handle_def sample_rule_def set_tagged_handler_def handler_args_def vector_at_def push_int_def no_params_def
        answer_exception_def response_of_code_def)
  finally have "router_handle no_strtod rt sample_request (response_of_code 0) = Returns (response_end (response_of_code 200))"
    using router_dispatches [OF rt sample_plain no_strtod_stops sample_indexable]
    by (simp add: sample_router_def router_new_rule_def router_new_def sample_upgraded)
  then show ?thesis using rt by (auto simp: response_end_def response_of_code_def)
qed

theorem typed_router_is_safe_witness:
  "\<exists>rt. router_validate sample_router = Returns rt
    \<and> (\<exists>res'. router_handle no_strtod rt sample_request (response_of_code 0) = Returns res')"
proof -
  obtain rt where rt: "router_validate sample_router = Returns rt" using sample_validates by blast
  have "\<exists>r. new_rule_tagged ''/<int>'' = Some ([Int64], r :: nat rule)"
    using matched_handler [OF sample_reads] arguments_tag [of "[P_INT]"]
    by (auto simp: new_rule_tagged_def get_parameter_tag_tokens tokens_def [symmetric] sample_tokens tag_of_def)
  then have "typed_rule sample_rule"
    using tagged_typed [of "''/<int>''" "[Int64]"] by (auto simp: sample_rule_def route_params_def sample_tokens new_rule_tagged_def
        split: sum.splits)
  then show ?thesis
    using typed_router_is_safe [OF rt sample_plain no_strtod_stops sample_indexable, of sample_request "response_of_code 0"] rt
    by (auto simp: sample_router_def router_new_rule_def router_new_def split: outcome.splits)
qed

subsection \<open>Blueprints in dispatch\<close>

text \<open>The catch-all rule of a blueprint that is registered with the router itself is never called.\<close>

theorem top_blueprint_catchall_ignored:
  assumes "unat i < length (blueprints rt)"
  shows "get_error rt c [i] req res = get_error rt c [] req res"
  using assms by (simp add: get_error_def get_found_bp.simps [of _ _ _ _ 0] get_found_bp.simps [of _ _ _ _ "Suc 0"]
      verify_prefix_def element_def Let_def)

text \<open>
  A rule with a trailing slash in a nested blueprint looks up its prefix in the list of the router: a longer
  list of children is read beyond the end of a shorter list of the router.
\<close>

theorem nested_redirect_reads_outside:
  assumes "has_trailing_slash url" and "i \<noteq> INVALID_BP_ID" and "unat i < length bps" and "length router_bps \<le> unat i"
    and "trie_add url (word_of_nat (length (rules pm))) (length (prefix (bps ! unat i))) i (trie pm) = Some (Inr t)"
  shows "add_rule_method url r i bps router_bps pm = Undefined"
  using assms by (simp add: add_rule_method_def prefix_length_def element_def outcome_of_add_def Let_def)

text \<open>An empty blueprint is entered into the tries under the number of each method instead of its index.\<close>

theorem empty_blueprint_index:
  assumes "static_dir bp = []" and "bp_rules bp = []" and "get_recursive_child_methods bp [] = [m]" and "m < length pms"
  shows "validate_empty_bp bp pms =
    (case trie_add (prefix bp) 0 (length (prefix bp)) (word_of_nat m) (trie (pms ! m)) of
       Some (Inr t) \<Rightarrow> Returns (pms[m := (pms ! m)\<lparr>trie := t\<rparr>])
     | Some (Inl e) \<Rightarrow> Throws e
     | None \<Rightarrow> Hangs)"
  using assms by (simp add: validate_empty_bp_def update_method_def element_def outcome_of_add_def split: option.split sum.split)

end
