(* ===== verification/Crow_Query.thy ===== *)
theory Crow_Query
  imports Prelude
begin

text \<open>
  Query strings of \<^verbatim>\<open>src/include/crow_all.h\<close>: \<^verbatim>\<open>qs_parse\<close> and its companions, and the class
  \<^verbatim>\<open>crow::query_string\<close> over them. The buffer is the list of its bytes with the terminating NUL, a pointer
  into it is an index, and a write changes the buffer. Reading or writing outside the buffer, which C++
  leaves undefined, is \<open>None\<close>.
\<close>

subsection \<open>Bytes\<close>

definition ISHEX :: "char \<Rightarrow> bool" where
  "ISHEX x = (isdigit x \<or> 65 \<le> byte_of x \<and> byte_of x \<le> 70 \<or> 97 \<le> byte_of x \<and> byte_of x \<le> 102)"

definition HEX2DEC :: "char \<Rightarrow> nat" where
  "HEX2DEC x =
     (if isdigit x then byte_of x - 48
      else if 65 \<le> byte_of x \<and> byte_of x \<le> 70 then byte_of x - 55
      else if 97 \<le> byte_of x \<and> byte_of x \<le> 102 then byte_of x - 87
      else 0)"

definition ISQSCHR :: "char \<Rightarrow> bool" where
  "ISQSCHR x = (x \<noteq> CHR ''='' \<and> x \<noteq> CHR ''#'' \<and> x \<noteq> CHR ''&'' \<and> x \<noteq> NUL)"

definition hex_char :: "char \<Rightarrow> char \<Rightarrow> char" where
  "hex_char a b = char_of (HEX2DEC a * 16 + HEX2DEC b)"

definition rd :: "string \<Rightarrow> nat \<Rightarrow> char option" where
  "rd m i = (if i < length m then Some (m ! i) else None)"

definition wr :: "string \<Rightarrow> nat \<Rightarrow> char \<Rightarrow> string option" where
  "wr m i c = (if i < length m then Some (m[i := c]) else None)"

text \<open>The number of bytes from \<open>p\<close> on that are neither in \<open>reject\<close> nor the terminator.\<close>

definition strcspn :: "string \<Rightarrow> nat \<Rightarrow> string \<Rightarrow> nat" where
  "strcspn m p reject = length (takeWhile (\<lambda>c. c \<noteq> NUL \<and> c \<notin> set reject) (drop p m))"

subsection \<open>Comparing a key\<close>

text \<open>
  One character of \<^verbatim>\<open>qs_strncmp\<close>, with the number of bytes it takes: the characters that end a key count as
  NUL, a plus sign is a blank, a percent sign takes the two bytes after it whatever they are.
\<close>

definition qs_char :: "string \<Rightarrow> nat \<Rightarrow> (char \<times> nat) option" where
  "qs_char m p =
     Option.bind (rd m p) (\<lambda>u.
       if \<not> ISQSCHR u then Some (NUL, 1)
       else if u = CHR ''+'' then Some (CHR '' '', 1)
       else if u = CHR ''%'' then
         Option.bind (rd m (p + 1)) (\<lambda>unyb.
           Option.bind (rd m (p + 2)) (\<lambda>lnyb.
             Some (if ISHEX unyb \<and> ISHEX lnyb then hex_char unyb lnyb else NUL, 3)))
       else Some (u, 1))"

fun qs_strncmp :: "string \<Rightarrow> nat \<Rightarrow> string \<Rightarrow> nat \<Rightarrow> nat \<Rightarrow> int option" where
  "qs_strncmp s p qs q (Suc n) =
     (case qs_char s p of
        None \<Rightarrow> None
      | Some (u1, k1) \<Rightarrow>
          (case qs_char qs q of
             None \<Rightarrow> None
           | Some (u2, k2) \<Rightarrow>
               if u1 \<noteq> u2 then Some (int (byte_of u1) - int (byte_of u2))
               else if u1 = NUL then Some 0
               else qs_strncmp s (p + k1) qs (q + k2) n))"
| "qs_strncmp s p qs q 0 = map_option (\<lambda>c. if ISQSCHR c then -1 else 0) (rd qs q)"

subsection \<open>Parsing\<close>

lemma rd_SomeD: "rd m i = Some c \<Longrightarrow> i < length m \<and> c = m ! i"
  by (simp add: rd_def split: if_splits)

lemma wr_SomeD: "wr m i c = Some m' \<Longrightarrow> i < length m \<and> m' = m[i := c]"
  by (simp add: wr_def split: if_splits)

text \<open>\<^verbatim>\<open>qs_decode\<close> at \<open>p\<close>: the bytes read at \<open>p + j\<close> are written back, decoded, at \<open>p + i\<close>.\<close>

function qs_decode_loop :: "string \<Rightarrow> nat \<Rightarrow> nat \<Rightarrow> nat \<Rightarrow> (string \<times> nat) option" where
  "qs_decode_loop m p i j =
     (case rd m (p + j) of
        None \<Rightarrow> None
      | Some c \<Rightarrow>
          if \<not> ISQSCHR c then map_option (\<lambda>m. (m, i)) (wr m (p + i) NUL)
          else if c = CHR ''+'' then
            Option.bind (wr m (p + i) (CHR '' '')) (\<lambda>m'. qs_decode_loop m' p (i + 1) (j + 1))
          else if c = CHR ''%'' then
            Option.bind (rd m (p + j + 1)) (\<lambda>a.
              if \<not> ISHEX a then map_option (\<lambda>m. (m, i)) (wr m (p + i) NUL)
              else Option.bind (rd m (p + j + 2)) (\<lambda>b.
                if \<not> ISHEX b then map_option (\<lambda>m. (m, i)) (wr m (p + i) NUL)
                else Option.bind (wr m (p + i) (hex_char a b)) (\<lambda>m'. qs_decode_loop m' p (i + 1) (j + 3))))
          else Option.bind (wr m (p + i) c) (\<lambda>m'. qs_decode_loop m' p (i + 1) (j + 1)))"
  by pat_completeness auto

termination
  by (relation "measure (\<lambda>(m, p, i, j). length m - (p + j))") (auto dest!: rd_SomeD wr_SomeD)

declare qs_decode_loop.simps [simp del]

definition qs_decode :: "string \<Rightarrow> nat \<Rightarrow> (string \<times> nat) option" where
  "qs_decode m p = qs_decode_loop m p 0 0"

text \<open>The beginnings of at most \<open>n\<close> pairs from \<open>p\<close> on.\<close>

fun qs_split :: "string \<Rightarrow> nat \<Rightarrow> nat \<Rightarrow> nat list" where
  "qs_split m p 0 = []"
| "qs_split m p (Suc n) =
     (let j = strcspn m p ''&''
      in p # (if m ! (p + j) = NUL then [] else qs_split m (p + j + 1) n))"

fun qs_decode_values :: "string \<Rightarrow> nat list \<Rightarrow> string option" where
  "qs_decode_values m [] = Some m"
| "qs_decode_values m (kv # kvs) =
     (let p = kv + strcspn m kv ''=&#'' in
      if m ! p = CHR ''&'' \<or> m ! p = NUL then Option.bind (wr m p NUL) (\<lambda>m. qs_decode_values m kvs)
      else Option.bind (qs_decode m (p + 1)) (\<lambda>(m, _). qs_decode_values m kvs))"

definition qs_parse :: "string \<Rightarrow> nat \<Rightarrow> (string \<times> nat list) option" where
  "qs_parse m qs_kv_size =
     (let p = strcspn m 0 ''?#'' in
      if m ! p = NUL then Some (m, [])
      else let kvs = qs_split m (p + 1) qs_kv_size in map_option (\<lambda>m. (m, kvs)) (qs_decode_values m kvs))"

subsection \<open>Looking up\<close>

fun qs_k2v :: "string \<Rightarrow> string \<Rightarrow> nat list \<Rightarrow> nat \<Rightarrow> nat option option" where
  "qs_k2v key m [] count = Some None"
| "qs_k2v key m (kv # kvs) count =
     (case qs_strncmp (key @ [NUL]) 0 m kv (length (c_str key)) of
        None \<Rightarrow> None
      | Some r \<Rightarrow>
          if r = 0 then
            let skip = strcspn m kv ''=''; skip = (if m ! (kv + skip) = CHR ''='' then skip + 1 else skip)
            in if count = 0 then Some (Some (kv + skip)) else qs_k2v key m kvs (count - 1)
          else qs_k2v key m kvs count)"

definition skip_to :: "string \<Rightarrow> nat \<Rightarrow> char \<Rightarrow> nat" where
  "skip_to m kv c = (let skip = strcspn m kv [c] in if m ! (kv + skip) = c then skip + 1 else skip)"

definition dict_entry :: "string \<Rightarrow> nat \<Rightarrow> (string \<times> string) option" where
  "dict_entry m kv =
     (let skip_to_eq = skip_to m kv (CHR ''=''); skip_to_brace_open = skip_to m kv (CHR ''['');
          skip_to_brace_close = strcspn m kv '']''
      in if skip_to_brace_open \<le> skip_to_brace_close \<and> 0 < skip_to_brace_open \<and> 0 < skip_to_brace_close
         then Some (take (skip_to_brace_close - skip_to_brace_open) (drop (kv + skip_to_brace_open) m),
           c_str (drop (kv + skip_to_eq) m))
         else None)"

fun qs_dict_name2kv :: "string \<Rightarrow> string \<Rightarrow> nat list \<Rightarrow> int \<Rightarrow> (string \<times> string) option" where
  "qs_dict_name2kv name m [] count = None"
| "qs_dict_name2kv name m (kv # kvs) count =
     (if take (length (c_str name)) (drop kv m) = c_str name then
        if count = 0 \<and> dict_entry m kv \<noteq> None then dict_entry m kv
        else qs_dict_name2kv name m kvs (count - 1)
      else qs_dict_name2kv name m kvs count)"

text \<open>
  \<^verbatim>\<open>qs_scanvalue\<close> with the buffer \<open>val\<close> of \<open>length val\<close> bytes. The scan steps over the next separator also
  when it is the terminator, and then reads outside.
\<close>

function qs_scan_key :: "string \<Rightarrow> string \<Rightarrow> nat \<Rightarrow> nat option" where
  "qs_scan_key key m q =
     (case rd m q of
        None \<Rightarrow> None
      | Some c \<Rightarrow>
          if c = CHR ''#'' \<or> c = NUL then Some q
          else (case qs_strncmp (key @ [NUL]) 0 m q (length (c_str key)) of
                  None \<Rightarrow> None
                | Some r \<Rightarrow> if r = 0 then Some q else qs_scan_key key m (q + strcspn m q ''&'' + 1)))"
  by pat_completeness auto

termination
  by (relation "measure (\<lambda>(key, m, q). length m - q)") (auto dest!: rd_SomeD)

declare qs_scan_key.simps [simp del]

definition strncpy :: "string \<Rightarrow> string \<Rightarrow> nat \<Rightarrow> string" where
  "strncpy dest src n = take n (take n (c_str src) @ replicate n NUL) @ drop n dest"

definition qs_scanvalue :: "string \<Rightarrow> string \<Rightarrow> string \<Rightarrow> string option option" where
  "qs_scanvalue key m val =
     (let mark = strcspn m 0 ''?''; start = (if m ! mark = CHR ''?'' then mark + 1 else 0) in
      case qs_scan_key key m start of
        None \<Rightarrow> None
      | Some q \<Rightarrow>
          if m ! q = NUL then Some None
          else let q = q + strcspn m q ''=&#'' in
            if m ! q = CHR ''='' then
              let i = strcspn m (q + 1) ''&=#'';
                  n = (if val \<noteq> [] \<and> length val - 1 < i + 1 then length val - 1 else i + 1)
              in if length val < n then None
                 else map_option (\<lambda>(val, _). Some val) (qs_decode (strncpy val (drop (q + 1) m) n) 0)
            else if val \<noteq> [] then Some (Some (val[0 := NUL])) else Some (Some val))"

subsection \<open>The class\<close>

record query_string =
  url_buffer :: string
  key_value_pairs :: "nat list"

definition MAX_KEY_VALUE_PAIRS_COUNT :: nat where "MAX_KEY_VALUE_PAIRS_COUNT = 256"

definition empty_query :: query_string where
  "empty_query = \<lparr>url_buffer = [NUL], key_value_pairs = []\<rparr>"

definition query_string_of :: "string \<Rightarrow> query_string option" where
  "query_string_of url =
     (if url = [] then Some empty_query
      else map_option (\<lambda>(m, kvs). \<lparr>url_buffer = m, key_value_pairs = kvs\<rparr>)
             (qs_parse (url @ [NUL]) MAX_KEY_VALUE_PAIRS_COUNT))"

text \<open>
  Pointers are rebased to the new buffer, which leaves the indices as they are. What was moved from is empty,
  as in libstdc++; \<open>same_object\<close> says that an object is assigned to itself.
\<close>

definition query_copy :: "query_string \<Rightarrow> query_string" where
  "query_copy qs = \<lparr>url_buffer = url_buffer qs, key_value_pairs = key_value_pairs qs\<rparr>"

definition query_assign :: "bool \<Rightarrow> query_string \<Rightarrow> query_string" where
  "query_assign same_object qs =
     \<lparr>url_buffer = url_buffer qs, key_value_pairs = (if same_object then [] else key_value_pairs qs)\<rparr>"

definition query_move :: "query_string \<Rightarrow> query_string \<times> query_string" where
  "query_move qs = (qs, empty_query)"

definition query_clear :: "query_string \<Rightarrow> query_string" where
  "query_clear qs = empty_query"

definition item_at :: "query_string \<Rightarrow> nat \<Rightarrow> string" where
  "item_at qs kv = c_str (drop kv (url_buffer qs))"

definition get :: "query_string \<Rightarrow> string \<Rightarrow> nat option option" where
  "get qs name = qs_k2v name (url_buffer qs) (key_value_pairs qs) 0"

fun erase_first :: "('a \<Rightarrow> bool) \<Rightarrow> 'a list \<Rightarrow> 'a list" where
  "erase_first P [] = []"
| "erase_first P (x # xs) = (if P x then xs else x # erase_first P xs)"

definition pop :: "query_string \<Rightarrow> string \<Rightarrow> (nat option \<times> query_string) option" where
  "pop qs name =
     (case get qs name of
        None \<Rightarrow> None
      | Some None \<Rightarrow> Some (None, qs)
      | Some (Some ret) \<Rightarrow>
          Some (Some ret, qs\<lparr>key_value_pairs :=
            erase_first (\<lambda>kv. take (length name + 1) (item_at qs kv) = name @ ''='') (key_value_pairs qs)\<rparr>))"

text \<open>The loops over \<open>count\<close> end after as many steps as there are pairs; the bound is one more.\<close>

fun get_list_loop :: "nat \<Rightarrow> query_string \<Rightarrow> string \<Rightarrow> nat \<Rightarrow> nat list option" where
  "get_list_loop 0 qs name count = None"
| "get_list_loop (Suc fuel) qs name count =
     (case qs_k2v name (url_buffer qs) (key_value_pairs qs) count of
        None \<Rightarrow> None
      | Some None \<Rightarrow> Some []
      | Some (Some element) \<Rightarrow> map_option ((#) element) (get_list_loop fuel qs name (count + 1)))"

definition get_list :: "query_string \<Rightarrow> string \<Rightarrow> bool \<Rightarrow> nat list option" where
  "get_list qs name use_brackets =
     get_list_loop (Suc (length (key_value_pairs qs))) qs (name @ (if use_brackets then ''[]'' else '''')) 0"

definition pop_list :: "query_string \<Rightarrow> string \<Rightarrow> bool \<Rightarrow> (nat list \<times> query_string) option" where
  "pop_list qs name use_brackets =
     map_option (\<lambda>ret.
       (ret, if ret = [] then qs
             else qs\<lparr>key_value_pairs := filter (\<lambda>kv.
               \<not> (if use_brackets then take (length name + 3) (item_at qs kv) = name @ ''[]=''
                  else take (length name + 1) (item_at qs kv) = name @ ''='')) (key_value_pairs qs)\<rparr>))
       (get_list qs name use_brackets)"

fun get_dict_loop :: "nat \<Rightarrow> query_string \<Rightarrow> string \<Rightarrow> nat \<Rightarrow> (string \<rightharpoonup> string) \<Rightarrow> (string \<rightharpoonup> string) option" where
  "get_dict_loop 0 qs name count ret = None"
| "get_dict_loop (Suc fuel) qs name count ret =
     (case qs_dict_name2kv name (url_buffer qs) (key_value_pairs qs) (int count) of
        None \<Rightarrow> Some ret
      | Some (k, v) \<Rightarrow> get_dict_loop fuel qs name (count + 1) (if k \<in> dom ret then ret else ret(k \<mapsto> v)))"

definition get_dict :: "query_string \<Rightarrow> string \<Rightarrow> (string \<rightharpoonup> string) option" where
  "get_dict qs name = get_dict_loop (Suc (length (key_value_pairs qs))) qs name 0 (\<lambda>_. None)"

definition pop_dict :: "query_string \<Rightarrow> string \<Rightarrow> ((string \<rightharpoonup> string) \<times> query_string) option" where
  "pop_dict qs name =
     map_option (\<lambda>ret.
       (ret, if ret = (\<lambda>_. None) then qs
             else qs\<lparr>key_value_pairs :=
               filter (\<lambda>kv. take (length name + 1) (item_at qs kv) \<noteq> name @ ''['') (key_value_pairs qs)\<rparr>))
       (get_dict qs name)"

definition keys :: "query_string \<Rightarrow> string list" where
  "keys qs = map (\<lambda>kv. takeWhile (\<lambda>c. c \<noteq> CHR ''='') (item_at qs kv)) (key_value_pairs qs)"

subsection \<open>Escaping\<close>

definition hex_digit :: "nat \<Rightarrow> char" where
  "hex_digit n = (if n < 10 then char_of (48 + n) else char_of (55 + n))"

definition escape_char :: "char \<Rightarrow> string" where
  "escape_char c = (if isalnum c then [c] else [CHR ''%'', hex_digit (byte_of c div 16), hex_digit (byte_of c mod 16)])"

definition escape :: "string \<Rightarrow> string" where
  "escape v = concat (map escape_char v)"

lemma escape_simps [simp]: "escape [] = []" "escape (c # v) = escape_char c @ escape v"
  by (simp_all add: escape_def)

lemma hex_digit:
  assumes "n < 16"
  shows "ISHEX (hex_digit n)" "HEX2DEC (hex_digit n) = n" "isalnum (hex_digit n)"
proof -
  have "byte_of (hex_digit n) = (if n < 10 then 48 + n else 55 + n)"
    using assms by (simp add: hex_digit_def byte_of_def)
  then show "ISHEX (hex_digit n)" "HEX2DEC (hex_digit n) = n" "isalnum (hex_digit n)"
    using assms by (auto simp: ISHEX_def HEX2DEC_def isdigit_def isalnum_def split: if_splits)
qed

lemma hex_char_digits: "hex_char (hex_digit (byte_of c div 16)) (hex_digit (byte_of c mod 16)) = c"
proof -
  have "byte_of c div 16 < 16" "byte_of c mod 16 < 16"
    using byte_of_less [of c] by (simp_all add: less_mult_imp_div_less)
  then show ?thesis by (simp add: hex_char_def hex_digit byte_of_def)
qed

lemma alnum_plain:
  assumes "isalnum c"
  shows "ISQSCHR c" "c \<noteq> CHR ''+''" "c \<noteq> CHR ''%''" "c \<noteq> NUL" "c \<noteq> CHR ''=''" "c \<noteq> CHR ''&''" "c \<noteq> CHR ''#''"
  using assms by (auto simp: isalnum_def isdigit_def ISQSCHR_def byte_of_def)

lemma escape_char_plain: "x \<in> set (escape_char c) \<Longrightarrow> isalnum x \<or> x = CHR ''%''"
  using byte_of_less [of c] hex_digit(3) [of "byte_of c div 16"] hex_digit(3) [of "byte_of c mod 16"]
  by (auto simp: escape_char_def less_mult_imp_div_less split: if_splits)

lemma escape_plain: "x \<in> set (escape v) \<Longrightarrow> isalnum x \<or> x = CHR ''%''"
  by (induction v) (auto dest: escape_char_plain)

lemma rd_at [simp]: "rd (X @ c # R) (length X) = Some c"
  by (simp add: rd_def)

lemma wr_at [simp]: "wr (X @ c # R) (length X) d = Some (X @ d # R)"
  by (simp add: wr_def)

text \<open>One escaped character is read, whatever lies between the writing and the reading position.\<close>

lemma decode_step:
  assumes "J @ escape_char c = y # J'"
  shows "qs_decode_loop (A @ D @ J @ escape_char c @ R) (length A) (length D) (length D + length J)
    = qs_decode_loop (A @ (D @ [c]) @ J' @ R) (length A) (length (D @ [c])) (length (D @ [c]) + length J')"
proof -
  let ?m = "A @ D @ J @ escape_char c @ R"
  have m: "?m = (A @ D) @ y # (J' @ R)" using assms by (metis append.assoc append_Cons)
  have w: "wr ?m (length A + length D) d = Some ((A @ D) @ d # (J' @ R))" for d
    unfolding m using wr_at [of "A @ D"] by simp
  have len: "length J + length (escape_char c) = Suc (length J')"
    using assms by (metis length_Cons length_append)
  show ?thesis
  proof (cases "isalnum c")
    case True
    then have e: "escape_char c = [c]" by (simp add: escape_char_def)
    have "rd ?m (length A + (length D + length J)) = Some c"
      using rd_at [of "A @ D @ J" c R] e by (simp add: add.assoc)
    then show ?thesis
      using w alnum_plain [OF True] len e
      by (subst qs_decode_loop.simps) (simp add: add.assoc)
  next
    case False
    define a b where "a = hex_digit (byte_of c div 16)" and "b = hex_digit (byte_of c mod 16)"
    have e: "escape_char c = [CHR ''%'', a, b]" using False by (simp add: escape_char_def a_def b_def)
    have hex: "ISHEX a" "ISHEX b" "hex_char a b = c"
      using hex_char_digits [of c] byte_of_less [of c] by (simp_all add: a_def b_def hex_digit less_mult_imp_div_less)
    have "rd ?m (length A + (length D + length J)) = Some (CHR ''%'')"
      "rd ?m (length A + (length D + length J) + 1) = Some a" "rd ?m (length A + (length D + length J) + 2) = Some b"
      using rd_at [of "A @ D @ J" "CHR ''%''"] rd_at [of "A @ D @ J @ ''%''" a] rd_at [of "A @ D @ J @ [CHR ''%'', a]" b] e
      by (simp_all add: add.assoc)
    moreover have "length J' = length J + 2" using len e by simp
    ultimately show ?thesis
      using w hex e by (subst qs_decode_loop.simps) (simp add: ISQSCHR_def add.assoc numeral_3_eq_3)
  qed
qed

lemma decode_escape:
  assumes "\<not> ISQSCHR sep"
  shows "\<exists>J'. qs_decode_loop (A @ D @ J @ escape v @ sep # B) (length A) (length D) (length D + length J)
      = Some (A @ (D @ v) @ NUL # J' @ B, length D + length v) \<and> length J' + length v = length J + length (escape v)"
proof (induction v arbitrary: D J)
  case Nil
  obtain y J' where y: "J @ [sep] = y # J'" by (cases "J @ [sep]") auto
  have m: "A @ D @ J @ sep # B = (A @ D) @ y # (J' @ B)" using y by (metis append.assoc append_Cons append_Nil)
  have "rd (A @ D @ J @ sep # B) (length A + (length D + length J)) = Some sep"
    using rd_at [of "A @ D @ J" sep B] by (simp add: add.assoc)
  moreover have "wr (A @ D @ J @ sep # B) (length A + length D) NUL = Some ((A @ D) @ NUL # (J' @ B))"
    unfolding m using wr_at [of "A @ D"] by simp
  moreover have "length J' = length J" using y by (metis Suc_inject length_Cons length_append_singleton)
  ultimately show ?case
    using assms by (subst qs_decode_loop.simps) simp
next
  case (Cons c v)
  have "J @ escape_char c \<noteq> []" by (simp add: escape_char_def)
  then obtain y J' where y: "J @ escape_char c = y # J'" by (cases "J @ escape_char c") auto
  have len: "length J + length (escape_char c) = Suc (length J')" using y by (metis length_Cons length_append)
  show ?case
    using decode_step [OF y, of A D "escape v @ sep # B"] Cons.IH [of "D @ [c]" J'] len by auto
qed

subsection \<open>The layout of a query\<close>

definition item :: "string \<Rightarrow> string \<Rightarrow> string" where
  "item k v = k @ CHR ''='' # escape v"

fun encode_pairs :: "(string \<times> string) list \<Rightarrow> string" where
  "encode_pairs [] = []"
| "encode_pairs [(k, v)] = item k v"
| "encode_pairs ((k, v) # ps) = item k v @ CHR ''&'' # encode_pairs ps"

fun layout :: "(string \<times> string) list \<Rightarrow> string" where
  "layout [] = []"
| "layout ((k, v) # ps) = item k v @ (if ps = [] then NUL else CHR ''&'') # layout ps"

lemma encode_pairs_layout: "ps \<noteq> [] \<Longrightarrow> encode_pairs ps @ [NUL] = layout ps"
  by (induction ps rule: encode_pairs.induct) auto

fun offsets :: "nat \<Rightarrow> (string \<times> string) list \<Rightarrow> nat list" where
  "offsets p [] = []"
| "offsets p ((k, v) # ps) = p # offsets (p + length (item k v) + 1) ps"

definition plain_keys :: "(string \<times> string) list \<Rightarrow> bool" where
  "plain_keys ps = list_all (\<lambda>(k, v). list_all isalnum k) ps"

lemma item_plain: "list_all isalnum k \<Longrightarrow> x \<in> set (item k v) \<Longrightarrow> x \<noteq> CHR ''&'' \<and> x \<noteq> NUL \<and> x \<noteq> CHR ''#''"
  unfolding item_def using escape_plain [of x v] alnum_plain(4,6,7) by (auto simp: list_all_iff)

lemma strcspn_stop:
  assumes "\<forall>x \<in> set X. x \<noteq> NUL \<and> x \<notin> set rej" and "c = NUL \<or> c \<in> set rej"
  shows "strcspn (A @ X @ c # R) (length A) rej = length X"
  using assms by (simp add: strcspn_def takeWhile_append2)

lemma split_layout:
  assumes "plain_keys ps" and "ps \<noteq> []" and "length ps \<le> n"
  shows "qs_split (A @ layout ps) (length A) n = offsets (length A) ps"
  using assms
proof (induction ps arbitrary: A n)
  case (Cons kv ps)
  obtain k v where kv: "kv = (k, v)" by (cases kv)
  obtain n' where n: "n = Suc n'" using Cons.prems(3) by (cases n) auto
  define sep where "sep = (if ps = [] then NUL else CHR ''&'')"
  have buf: "A @ layout (kv # ps) = A @ item k v @ sep # layout ps" by (simp add: kv sep_def)
  have "strcspn (A @ item k v @ sep # layout ps) (length A) ''&'' = length (item k v)"
    using item_plain [of k _ v] Cons.prems(1) kv by (intro strcspn_stop) (auto simp: plain_keys_def sep_def)
  moreover have "(A @ item k v @ sep # layout ps) ! (length A + length (item k v)) = sep"
    using nth_append_length [of "A @ item k v" sep] by simp
  moreover have "qs_split ((A @ item k v @ [sep]) @ layout ps) (length (A @ item k v @ [sep])) n'
      = offsets (length (A @ item k v @ [sep])) ps" if "ps \<noteq> []"
    using Cons.IH [of n' "A @ item k v @ [sep]"] Cons.prems that n by (simp add: plain_keys_def)
  ultimately show ?case
    unfolding buf n by (cases "ps = []") (simp_all add: kv Let_def sep_def)
qed simp

text \<open>A decoded item: the value is a C string of its own, and the bytes behind it are left over.\<close>

definition decoded_item :: "string \<times> string \<Rightarrow> string \<Rightarrow> bool" where
  "decoded_item kv seg = (case kv of (k, v) \<Rightarrow>
     (\<exists>J. seg = k @ CHR ''='' # v @ NUL # J) \<and> length seg = length (item k v) + 1)"

lemma decode_values_layout:
  "plain_keys ps \<Longrightarrow> \<exists>segs. qs_decode_values (A @ layout ps) (offsets (length A) ps) = Some (A @ concat segs)
    \<and> list_all2 decoded_item ps segs"
proof (induction ps arbitrary: A)
  case (Cons kv ps)
  obtain k v where kv: "kv = (k, v)" by (cases kv)
  define sep where "sep = (if ps = [] then NUL else CHR ''&'')"
  define A' where "A' = A @ k @ [CHR ''='']"
  have buf: "A @ layout (kv # ps) = A' @ escape v @ sep # layout ps" by (simp add: kv sep_def A'_def item_def)
  have key: "\<forall>x \<in> set k. x \<noteq> NUL \<and> x \<notin> set ''=&#''"
    using Cons.prems alnum_plain(4-7) by (auto simp: plain_keys_def kv list_all_iff)
  have "A' @ escape v @ sep # layout ps = A @ k @ CHR ''='' # (escape v @ sep # layout ps)" by (simp add: A'_def)
  then have p: "strcspn (A' @ escape v @ sep # layout ps) (length A) ''=&#'' = length k"
    using strcspn_stop [OF key, of "CHR ''=''"] by simp
  have eq: "(A' @ escape v @ sep # layout ps) ! (length A + length k) = CHR ''=''"
    using nth_append_length [of "A @ k" "CHR ''=''"] by (simp add: A'_def)
  have "\<not> ISQSCHR sep" by (simp add: sep_def ISQSCHR_def)
  then obtain J where J: "qs_decode (A' @ escape v @ sep # layout ps) (length A')
      = Some (A' @ v @ NUL # J @ layout ps, length v)" "length J + length v = length (escape v)"
    using decode_escape [of sep A' "[]" "[]" v "layout ps"] by (auto simp: qs_decode_def)
  define seg where "seg = k @ CHR ''='' # v @ NUL # J"
  have seg: "decoded_item kv seg" "length seg = length (item k v) + 1"
    using J(2) by (auto simp: decoded_item_def seg_def kv item_def)
  have "qs_decode (A' @ escape v @ sep # layout ps) (length A') = Some ((A @ seg) @ layout ps, length v)"
    using J(1) by (simp add: A'_def seg_def)
  moreover have "length A + length k + 1 = length A'" by (simp add: A'_def)
  moreover obtain segs where "qs_decode_values ((A @ seg) @ layout ps) (offsets (length (A @ seg)) ps)
      = Some ((A @ seg) @ concat segs)" "list_all2 decoded_item ps segs"
    using Cons.IH [of "A @ seg"] Cons.prems by (auto simp: plain_keys_def)
  ultimately have "qs_decode_values (A @ layout (kv # ps)) (offsets (length A) (kv # ps)) = Some (A @ concat (seg # segs))"
    using p eq seg(2) unfolding buf by (simp add: kv Let_def)
  then show ?case using seg(1) \<open>list_all2 decoded_item ps segs\<close> by blast
qed simp

subsection \<open>Looking up in the layout\<close>

lemma qs_char_alnum: "isalnum c \<Longrightarrow> qs_char (X @ c # R) (length X) = Some (c, 1)"
  by (simp add: qs_char_def alnum_plain)

lemma qs_char_end: "\<not> ISQSCHR c \<Longrightarrow> qs_char (X @ c # R) (length X) = Some (NUL, 1)"
  by (simp add: qs_char_def)

lemma byte_of_inject: "byte_of c = byte_of d \<longleftrightarrow> c = d"
  by (simp add: byte_of_def)

lemma qs_strncmp_key:
  assumes "list_all isalnum name" and "list_all isalnum k"
  shows "\<exists>r. qs_strncmp (X @ name @ [NUL]) (length X) (Y @ k @ CHR ''='' # R) (length Y) (length name) = Some r
    \<and> (r = 0 \<longleftrightarrow> name = k)"
  using assms
proof (induction name arbitrary: X Y k)
  case Nil
  then show ?case
    by (cases k) (use alnum_plain(1) in \<open>auto simp: ISQSCHR_def\<close>)
next
  case (Cons c name)
  have u1: "qs_char (X @ (c # name) @ [NUL]) (length X) = Some (c, 1)"
    using qs_char_alnum [of c X "name @ [NUL]"] Cons.prems(1) by simp
  show ?case
  proof (cases k)
    case Nil
    have "qs_char (Y @ k @ CHR ''='' # R) (length Y) = Some (NUL, 1)"
      using qs_char_end [of "CHR ''=''" Y R] Nil by (simp add: ISQSCHR_def)
    then show ?thesis using u1 Nil alnum_plain(4) [of c] Cons.prems(1) by (auto simp: byte_of_inject)
  next
    case (Cons d k')
    have u2: "qs_char (Y @ k @ CHR ''='' # R) (length Y) = Some (d, 1)"
      using qs_char_alnum [of d Y "k' @ CHR ''='' # R"] Cons Cons.prems(2) by simp
    show ?thesis
    proof (cases "c = d")
      case True
      have "\<exists>r. qs_strncmp ((X @ [c]) @ name @ [NUL]) (length (X @ [c])) ((Y @ [d]) @ k' @ CHR ''='' # R)
          (length (Y @ [d])) (length name) = Some r \<and> (r = 0 \<longleftrightarrow> name = k')"
        by (rule Cons.IH) (use Cons Cons.prems in simp_all)
      then show ?thesis
        using u1 u2 True Cons alnum_plain(4) [of c] Cons.prems(1) by simp
    next
      case False
      then show ?thesis using u1 u2 Cons by (simp add: byte_of_inject)
    qed
  qed
qed

text \<open>The positions of the values of a name.\<close>

fun matches :: "string \<Rightarrow> nat \<Rightarrow> (string \<times> string) list \<Rightarrow> nat list" where
  "matches name p [] = []"
| "matches name p ((k, v) # ps) =
     (if k = name then [p + length k + 1] else []) @ matches name (p + length (item k v) + 1) ps"

lemma decoded_itemE:
  assumes "decoded_item (k, v) seg"
  obtains J where "seg = k @ CHR ''='' # v @ NUL # J" "length seg = length (item k v) + 1"
  using assms by (auto simp: decoded_item_def)

lemma k2v_matches:
  assumes "list_all isalnum name" and "plain_keys ps" and "list_all2 decoded_item ps segs"
  shows "qs_k2v name (A @ concat segs) (offsets (length A) ps) count
    = Some (if count < length (matches name (length A) ps) then Some (matches name (length A) ps ! count) else None)"
  using assms(2,3)
proof (induction ps arbitrary: A segs count)
  case (Cons kv ps)
  obtain k v where kv: "kv = (k, v)" by (cases kv)
  obtain seg segs' where segs: "segs = seg # segs'" "decoded_item kv seg" "list_all2 decoded_item ps segs'"
    using Cons.prems(2) by (auto simp: list_all2_Cons1)
  obtain J where J: "seg = k @ CHR ''='' # v @ NUL # J" "length seg = length (item k v) + 1"
    using segs(2) kv by (auto elim: decoded_itemE)
  define R where "R = v @ NUL # J @ concat segs'"
  have buf: "A @ concat segs = A @ k @ CHR ''='' # R" by (simp add: segs(1) J(1) R_def)
  have name: "c_str name = name"
    using assms(1) alnum_plain(4) by (intro c_str_id) (auto simp: list_all_iff)
  have k: "list_all isalnum k" using Cons.prems(1) by (simp add: plain_keys_def kv)
  obtain r where r: "qs_strncmp (name @ [NUL]) 0 (A @ k @ CHR ''='' # R) (length A) (length name) = Some r"
    "r = 0 \<longleftrightarrow> name = k"
    using qs_strncmp_key [OF assms(1) k, of "[]" A R] by auto
  have skip: "strcspn (A @ k @ CHR ''='' # R) (length A) ''='' = length k"
    using k alnum_plain(4,5) by (intro strcspn_stop) (auto simp: list_all_iff)
  have eq: "(A @ k @ CHR ''='' # R) ! (length A + length k) = CHR ''=''"
    using nth_append_length [of "A @ k" "CHR ''=''"] by simp
  have rest: "qs_k2v name (A @ k @ CHR ''='' # R) (offsets (length A + length (item k v) + 1) ps) count
      = Some (if count < length (matches name (length A + length (item k v) + 1) ps)
        then Some (matches name (length A + length (item k v) + 1) ps ! count) else None)" for count
    using Cons.IH [OF _ segs(3), of "A @ seg" count] Cons.prems(1) J(2)
    by (simp add: plain_keys_def buf [symmetric] segs(1) add.assoc)
  show ?case
    using r skip eq rest unfolding buf by (cases count) (auto simp: kv name Let_def)
qed simp

lemma c_str_at: "NUL \<notin> set v \<Longrightarrow> c_str (v @ NUL # R) = v"
  by (induction v) (auto simp: c_str_def)

lemma segment_at: "(A @ seg) @ concat segs = A @ concat (seg # segs)"
  by simp

lemma value_at:
  assumes "list_all2 decoded_item ps segs" and "list_all (\<lambda>(k, v). NUL \<notin> set v) ps"
  shows "map (\<lambda>p. c_str (drop p (A @ concat segs))) (matches name (length A) ps)
    = map snd (filter (\<lambda>(k, v). k = name) ps)"
  using assms
proof (induction ps segs arbitrary: A rule: list_all2_induct)
  case (Cons kv ps seg segs)
  obtain k v where kv: "kv = (k, v)" by (cases kv)
  obtain J where J: "seg = k @ CHR ''='' # v @ NUL # J" "length seg = length (item k v) + 1"
    using Cons.hyps(1) kv by (auto elim: decoded_itemE)
  have "drop (length A + length k + 1) (A @ concat (seg # segs)) = v @ NUL # J @ concat segs"
    using J(1) by simp
  then have first: "c_str (drop (length A + length k + 1) (A @ concat (seg # segs))) = v"
    using Cons.prems c_str_at [of v "J @ concat segs"] by (simp only:) (simp add: kv)
  have "length (A @ seg) = length A + length (item k v) + 1" using J(2) by simp
  note rest = Cons.IH [of "A @ seg", unfolded segment_at this]
  show ?case
    using rest first Cons.prems by (cases "k = name") (auto simp: kv simp del: concat.simps)
qed simp

lemma items_at:
  assumes "list_all2 decoded_item ps segs" and "list_all (\<lambda>(k, v). NUL \<notin> set v) ps" and "plain_keys ps"
  shows "map (\<lambda>p. c_str (drop p (A @ concat segs))) (offsets (length A) ps) = map (\<lambda>(k, v). k @ CHR ''='' # v) ps"
  using assms
proof (induction ps segs arbitrary: A rule: list_all2_induct)
  case (Cons kv ps seg segs)
  obtain k v where kv: "kv = (k, v)" by (cases kv)
  obtain J where J: "seg = k @ CHR ''='' # v @ NUL # J" "length seg = length (item k v) + 1"
    using Cons.hyps(1) kv by (auto elim: decoded_itemE)
  have "NUL \<notin> set (k @ CHR ''='' # v)"
    using Cons.prems alnum_plain(4) by (auto simp: kv plain_keys_def list_all_iff)
  moreover have "drop (length A) (A @ concat (seg # segs)) = (k @ CHR ''='' # v) @ NUL # J @ concat segs"
    using J(1) by simp
  ultimately have first: "c_str (drop (length A) (A @ concat (seg # segs))) = k @ CHR ''='' # v"
    by (metis c_str_at)
  have "length (A @ seg) = length A + length (item k v) + 1" using J(2) by simp
  note rest = Cons.IH [of "A @ seg", unfolded segment_at this]
  show ?case
    using rest first Cons.prems by (simp add: kv plain_keys_def del: concat.simps)
qed simp

subsection \<open>Lists and properties\<close>

lemma get_list_loop_drop:
  assumes "\<And>n. qs_k2v name (url_buffer q) (key_value_pairs q) n = Some (if n < length ms then Some (ms ! n) else None)"
    and "length ms - n < fuel"
  shows "get_list_loop fuel q name n = Some (drop n ms)"
  using assms(2)
proof (induction fuel arbitrary: n)
  case (Suc fuel)
  then show ?case
  proof (cases "n < length ms")
    case True
    then have "get_list_loop fuel q name (n + 1) = Some (drop (n + 1) ms)" using Suc by simp
    then show ?thesis using True by (simp add: assms(1) Cons_nth_drop_Suc)
  qed (simp add: assms(1))
qed simp

lemma matches_length: "length (matches name p ps) \<le> length (offsets p ps)"
  by (induction name p ps rule: matches.induct) auto

definition query_url :: "string \<Rightarrow> (string \<times> string) list \<Rightarrow> string" where
  "query_url path ps = path @ CHR ''?'' # encode_pairs ps"

definition value_of :: "query_string \<Rightarrow> nat \<Rightarrow> string" where
  "value_of q p = c_str (drop p (url_buffer q))"

lemma parse_url:
  assumes "\<forall>c \<in> set path. c \<noteq> CHR ''?'' \<and> c \<noteq> CHR ''#'' \<and> c \<noteq> NUL" and "plain_keys ps" and "ps \<noteq> []"
    and "length ps \<le> MAX_KEY_VALUE_PAIRS_COUNT"
  shows "\<exists>segs. query_string_of (query_url path ps)
      = Some \<lparr>url_buffer = (path @ ''?'') @ concat segs, key_value_pairs = offsets (length (path @ ''?'')) ps\<rparr>
    \<and> list_all2 decoded_item ps segs"
proof -
  define A where "A = path @ ''?''"
  have buf: "query_url path ps @ [NUL] = A @ layout ps"
    using encode_pairs_layout [OF assms(3)] by (simp add: query_url_def A_def)
  have buf': "A @ layout ps = [] @ path @ CHR ''?'' # layout ps" by (simp add: A_def)
  have mark: "strcspn (A @ layout ps) 0 ''?#'' = length path"
    unfolding buf' using strcspn_stop [of path "''?#''" "CHR ''?''" "[]"] assms(1) by simp
  have q: "(A @ layout ps) ! length path = CHR ''?''" by (simp add: A_def)
  have split: "qs_split (A @ layout ps) (length A) MAX_KEY_VALUE_PAIRS_COUNT = offsets (length A) ps"
    by (rule split_layout [OF assms(2-4)])
  obtain segs where segs: "qs_decode_values (A @ layout ps) (offsets (length A) ps) = Some (A @ concat segs)"
    "list_all2 decoded_item ps segs"
    using decode_values_layout [OF assms(2)] by blast
  have "length path + 1 = length A" by (simp add: A_def)
  then have "qs_parse (A @ layout ps) MAX_KEY_VALUE_PAIRS_COUNT = Some (A @ concat segs, offsets (length A) ps)"
    using mark q split segs(1) by (simp add: qs_parse_def Let_def)
  then show ?thesis
    using segs(2) buf unfolding query_string_of_def A_def by (auto simp: query_url_def)
qed

lemma map_of_filter: "map_of ps name = (case filter (\<lambda>(k, v). k = name) ps of [] \<Rightarrow> None | kv # _ \<Rightarrow> Some (snd kv))"
  by (induction ps) auto

text \<open>
  C40. Query strings are read back. From the URL \<open>path?k1=v1&...&kn=vn\<close> with at least one and at most 256 pairs,
  alphanumeric keys and escaped values without NUL, parsing succeeds, \<open>keys\<close> are the keys, and for an
  alphanumeric name \<open>get\<close> gives its first value or nothing and \<open>get_list\<close>, asked without brackets, all its
  values in order.
\<close>

theorem query_roundtrip:
  assumes "\<forall>c \<in> set path. c \<noteq> CHR ''?'' \<and> c \<noteq> CHR ''#'' \<and> c \<noteq> NUL" and "plain_keys ps" and "ps \<noteq> []"
    and "length ps \<le> MAX_KEY_VALUE_PAIRS_COUNT" and "list_all (\<lambda>(k, v). NUL \<notin> set v) ps" and "list_all isalnum name"
  shows "\<exists>q. query_string_of (query_url path ps) = Some q
    \<and> keys q = map fst ps
    \<and> map_option (map_option (value_of q)) (get q name) = Some (map_of ps name)
    \<and> map_option (map (value_of q)) (get_list q name False) = Some (map snd (filter (\<lambda>(k, v). k = name) ps))"
proof -
  define A where "A = path @ ''?''"
  obtain segs where segs: "query_string_of (query_url path ps)
      = Some \<lparr>url_buffer = A @ concat segs, key_value_pairs = offsets (length A) ps\<rparr>" "list_all2 decoded_item ps segs"
    using parse_url [OF assms(1-4)] unfolding A_def by blast
  define q where "q = \<lparr>url_buffer = A @ concat segs, key_value_pairs = offsets (length A) ps\<rparr>"
  define ms where "ms = matches name (length A) ps"
  have lookup: "qs_k2v name (url_buffer q) (key_value_pairs q) n = Some (if n < length ms then Some (ms ! n) else None)" for n
    unfolding q_def ms_def by (simp add: k2v_matches [OF assms(6,2) segs(2)])
  have vals: "map (value_of q) ms = map snd (filter (\<lambda>(k, v). k = name) ps)"
    using value_at [OF segs(2) assms(5), of A name] by (simp add: value_of_def [abs_def] q_def ms_def)
  have "keys q = map (takeWhile (\<lambda>c. c \<noteq> CHR ''='')) (map (\<lambda>(k, v). k @ CHR ''='' # v) ps)"
    unfolding items_at [OF segs(2) assms(5,2), of A, symmetric] by (simp add: keys_def q_def item_at_def)
  also have "\<dots> = map fst ps"
  proof -
    have "CHR ''='' \<notin> set k" if "(k, v) \<in> set ps" for k v
      using assms(2) that alnum_plain(5) by (fastforce simp: plain_keys_def list_all_iff)
    then have "takeWhile (\<lambda>c. c \<noteq> CHR ''='') (k @ CHR ''='' # v) = k" if "(k, v) \<in> set ps" for k v
      using that by (subst takeWhile_append2) auto
    then show ?thesis by auto
  qed
  finally have keys: "keys q = map fst ps" .
  have "map_option (value_of q) (if 0 < length ms then Some (ms ! 0) else None) = map_of ps name"
    using vals map_of_filter [of ps name] by (cases ms) auto
  then have "map_option (map_option (value_of q)) (get q name) = Some (map_of ps name)"
    by (simp add: get_def lookup)
  moreover have "get_list q name False = Some ms"
    using get_list_loop_drop [OF lookup, of 0] matches_length [of name "length A" ps]
    by (simp add: get_list_def q_def ms_def del: get_list_loop.simps)
  ultimately show ?thesis
    using segs(1) keys vals by (simp add: q_def [symmetric])
qed

lemma query_roundtrip_witness:
  "\<exists>q. query_string_of (query_url ''/s'' [(''id'', ''a b''), (''id'', ''c'')]) = Some q
    \<and> map_option (map_option (value_of q)) (get q ''id'') = Some (Some ''a b'')
    \<and> query_url ''/s'' [(''id'', ''a b''), (''id'', ''c'')] = ''/s?id=a%20b&id=c''"
proof -
  have plain: "plain_keys [(''id'', ''a b''), (''id'', ''c'')]" "list_all isalnum ''id''"
    by (simp_all add: plain_keys_def isalnum_def isdigit_def byte_of_def)
  have "query_url ''/s'' [(''id'', ''a b''), (''id'', ''c'')] = ''/s?id=a%20b&id=c''"
    using char_of_char [of "CHR ''2''", where 'a = nat] char_of_char [of "CHR ''0''", where 'a = nat]
    by (simp add: query_url_def item_def escape_char_def hex_digit_def isalnum_def isdigit_def byte_of_def)
  then show ?thesis
    using query_roundtrip [OF _ plain(1) _ _ _ plain(2), of "''/s''"] by (auto simp: MAX_KEY_VALUE_PAIRS_COUNT_def)
qed

end
