(* ===== verification/Spec2Isabelle.thy ===== *)
theory Spec2Isabelle
  imports Judge_Engine Sandbox_Resources Picosha2 Crow_Sha1 Crow_Utility Crow_Router Crow_Dispatch Crow_Query
begin

text \<open>
  Verification of the C++ part of Deep-OJ, an online judge.

  \<^bold>\<open>The program.\<close> \<^verbatim>\<open>judge_engine\<close> (\<^verbatim>\<open>src/core/worker\<close>) is started by the worker once per job. It
  compiles a submission, runs it on one test, or removes what is left of a request, and answers with one line
  of JSON. \<^verbatim>\<open>main.cpp\<close> reads options, environment and configuration (\<^verbatim>\<open>config.cpp\<close>) and calls the class
  \<^verbatim>\<open>Sandbox\<close> (\<^verbatim>\<open>sandbox.cpp\<close>). \<^verbatim>\<open>Sandbox::Compile\<close> and \<^verbatim>\<open>Sandbox::Run\<close> clone a child in new namespaces; the
  child (\<^verbatim>\<open>sandbox_isolation.cpp\<close>) builds a root file system, sets its limits, gives up its privileges, loads a
  system-call filter (\<^verbatim>\<open>seccomp_rules.cpp\<close>) and executes the compiler or the submission. The parent puts the
  child into a cgroup (\<^verbatim>\<open>cgroup_manager.cpp\<close>), watches time and output, reaps it and classifies the result.
  \<^verbatim>\<open>src/include\<close> holds two headers that belong to the repository: a SHA-256 (\<^verbatim>\<open>picosha2.h\<close>) and a web framework
  (\<^verbatim>\<open>crow_all.h\<close>). The judge core does not call them; what is modelled of them stands on its own.

  \<^bold>\<open>How effects are modelled.\<close> \<open>System_Calls\<close>: a piece of the program is a tree of type \<open>prog\<close>, whose
  node \<open>Call c k\<close> asks for the system call, library call or file access \<open>c\<close> and continues with \<open>k\<close> on the
  answer. \<open>runs p tr s\<close> says that \<open>p\<close> can take the trace \<open>tr\<close> of calls and answers and stop as \<open>s\<close>: with a
  result, an exception, an exit code, a successful exec, or \<open>Looping\<close> when a loop has used up its bound. A
  statement about all runs is a statement about every behaviour of kernel, file system and child. The
  compound effects of C++ (scopes with destructors, \<^verbatim>\<open>try\<close> and \<^verbatim>\<open>catch\<close>) are \<open>pbind\<close>, \<open>pcatch\<close> and \<open>pfinally\<close>.

  \<^bold>\<open>Theories and sources.\<close>

  \<^item> \<open>Prelude\<close>: strings, numbers and their conversions as the C and C++ libraries define them; the locale
    \<open>codec\<close> of printers with their parsers.
  \<^item> \<open>Sandbox_Internal\<close>: \<^verbatim>\<open>sandbox_internal.h\<close>, \<^verbatim>\<open>sandbox.h\<close>: exit codes, configuration, arguments and
    results as records.
  \<^item> \<open>Runner_Config\<close>: \<^verbatim>\<open>config.cpp\<close>: \<open>LoadConfig\<close> over an abstract YAML document. Properties: the loaded
    configuration fits its buffers and types and has the paths of the document; the defaults.
  \<^item> \<open>Seccomp_Rules\<close>: \<^verbatim>\<open>seccomp_rules.cpp\<close>: both filters, and their meaning in the locale
    \<open>seccomp_semantics\<close> of the documented behaviour of libseccomp: what the loaded filters allow and kill.
  \<^item> \<open>Sandbox_Isolation\<close>: \<^verbatim>\<open>sandbox_isolation.cpp\<close>: \<open>RunChildFn\<close>, \<open>CompileChildFn\<close> and all they call. The locales
    \<open>child_contract\<close>, \<open>child_open\<close> and \<open>run_child_open\<close> state what a condition on calls must satisfy to hold along a
    child; they are interpreted for confinement, named exit codes and the paths below the work directory.
  \<^item> \<open>Guards\<close>: \<^verbatim>\<open>ProcessGuard\<close> and \<^verbatim>\<open>DirectoryGuard\<close> of \<^verbatim>\<open>sandbox.cpp\<close>, with the locales \<open>scope_guard\<close> and
    \<open>assignable_guard\<close> (an owner is released once however it is moved).
  \<^item> \<open>Cgroup_Manager\<close>: \<^verbatim>\<open>cgroup_manager.cpp\<close>: every operation; the exact files touched, lines written, readings, quota.
  \<^item> \<open>Machine_Floats\<close>, \<open>Messages\<close>: the \<^verbatim>\<open>double\<close> arithmetic and the texts of \<^verbatim>\<open>sandbox.cpp\<close>.
  \<^item> \<open>Sandbox_Verdict\<close>: the deciding functions of \<^verbatim>\<open>sandbox.cpp\<close> and the refinement of the classification to
    the decision table \<open>verdict_spec\<close> over what the trace shows of memory, output and marker (\<open>reads_memory\<close>,
    \<open>reads_output\<close>, \<open>shows_marker\<close>).
  \<^item> \<open>Sandbox\<close>: \<^verbatim>\<open>Sandbox::Compile\<close>, \<^verbatim>\<open>Run\<close>, \<^verbatim>\<open>Cleanup\<close>, whole. \<open>Sandbox_Termination\<close>: their polling loops end.
    \<open>Sandbox_Resources\<close>: descriptors are closed, the child is over (\<open>child_over\<close>) on every path, and the cgroup
    gets its limits, each with its value (\<open>writes\<close>), before the child becomes a member.
  \<^item> \<open>Judge_Engine\<close>: \<^verbatim>\<open>main.cpp\<close>: options, modes and answers.
  \<^item> \<open>Stream_Hash\<close>: the interface of a hash that takes its message in pieces; \<open>Picosha2\<close> (\<^verbatim>\<open>picosha2.h\<close>) and
    \<open>Crow_Sha1\<close> (\<^verbatim>\<open>sha1::SHA1\<close> of \<^verbatim>\<open>crow_all.h\<close>) implement it and compute the functions of FIPS 180-4.
  \<^item> \<open>Crow_Utility\<close>: Base64 and \<^verbatim>\<open>sanitize_filename\<close> of \<^verbatim>\<open>crow_all.h\<close>. Decoding inverts encoding; sanitised
    names are clean.
  \<^item> \<open>Crow_Router\<close>: \<^verbatim>\<open>crow::Trie\<close> of \<^verbatim>\<open>crow_all.h\<close>. Adding, merging and searching implement a search for the
    least matching rule in the list of rules.
  \<^item> \<open>Crow_Tags\<close>: namespace \<^verbatim>\<open>black_magic\<close>, \<^verbatim>\<open>routing_handler_call_helper\<close> and \<^verbatim>\<open>DynamicRule::wrap\<close> of \<^verbatim>\<open>crow_all.h\<close>,
    which compute the argument types of a handler from its pattern and call it. The handler of a tagged rule gets
    the values its pattern read. \<open>Crow_Dispatch\<close>: \<^verbatim>\<open>crow::Router\<close> with rules, methods and blueprints, on top of both.
    A validated router dispatches like a scan over its rules, and never reads outside the parameters.
  \<^item> \<open>Crow_Query\<close>: \<^verbatim>\<open>qs_parse\<close>, its companions and \<^verbatim>\<open>crow::query_string\<close> of \<^verbatim>\<open>crow_all.h\<close>, on an explicit buffer that
    is decoded in place. What an escaped query holds is read back.

  \<^bold>\<open>Bounds.\<close> The polling loops take the number \<open>n\<close> of retries of an interrupted wait and the number \<open>k\<close> of polls;
  \<open>run_ends_in_time\<close> and \<open>compile_ends_in_time\<close> show that \<open>k\<close> proportional to the time limit is enough when
  the clock advances as the program sleeps. The padding loop of SHA-1 gets 64 steps, one block. SHA-256 is right for
  messages below \<open>2 ^ 61\<close> bytes (64-bit length in bits), the SHA-1 below \<open>2 ^ 29\<close> (it writes 32 bits of it).
  The loops of \<^verbatim>\<open>get_list\<close> and \<^verbatim>\<open>get_dict\<close> get one step more than there are pairs. \<open>add_loop\<close> in \<open>Crow_Router\<close> is a partial function because the loop of the
  code may not end. The types of a pattern are computed exactly up to 24 tags (64 bits in base 6), and a method
  may have 65533 rules (16-bit indices).

  \<^bold>\<open>Parameters.\<close> Code that is not in the repository is an argument: the YAML and JSON libraries, \<^verbatim>\<open>getopt_long\<close>,
  \<^verbatim>\<open>strtod\<close>, the handlers of a web application, and through \<open>Call\<close> the kernel, the C++ file-system library and libseccomp.

  \<^bold>\<open>Not modelled.\<close> The Go services (API, scheduler, worker, repository, configuration) and their protocol, the SQL
  migrations, scripts, deployment and tests, which are not C or C++ or only call other programs. Of
  \<^verbatim>\<open>crow_all.h\<close>: sockets, the HTTP parser, WebSockets, sessions, JSON, Mustache templates, compression,
  middleware, the application class and logging, which need a model of Boost.Asio or of more C++ templates. Log
  output, the base directory of templates and the printing operators of the modelled classes are left out.
\<close>

end
